(* ===== verification/Prelude.thy ===== *)
theory Prelude
  imports Main "HOL-Library.Word" "HOL-Library.Monad_Syntax"
begin

text \<open>
  Shared vocabulary of the development: the types that stand for C's pointers, bytes and
  machine words, the theorem collections of the components, and the generic facts on lists
  and on the option monad that the component proofs rest on.

  Throughout, code that can go wrong in the sense of the C standard (dereferencing \<open>NULL\<close>,
  using or freeing an object that is no longer allocated) is modelled by a result of type
  \<open>'a option\<close>: \<^const>\<open>None\<close> is undefined behaviour, \<^const>\<open>Some\<close> a defined result.
  An error that the code itself detects and reports is never \<^const>\<open>None\<close>; it is a value.
\<close>

type_synonym addr = nat
type_synonym byte = "8 word"

abbreviation NULL :: addr where
  "NULL \<equiv> 0"

named_theorems heap_simps \<open>reading a heap field after writing one\<close>
named_theorems op_defs \<open>definitions of the operations of the program\<close>
named_theorems frame \<open>what an operation leaves unchanged\<close>

subsection \<open>Lists\<close>

text \<open>
  A relation that is asked only of neighbours: the left partner is never the last element
  and the right partner is never the first.
\<close>

lemma successively_frame:
  assumes "\<And>x y. x \<in> set (butlast xs) \<Longrightarrow> y \<in> set (tl xs) \<Longrightarrow> P x y = Q x y"
  shows "successively P xs = successively Q xs"
  using assms
proof (induction xs rule: induct_list012)
  case (3 x y zs)
  have "successively P (y # zs) = successively Q (y # zs)"
    by (rule "3.IH"(2)) (auto intro!: "3.prems" split: if_splits dest: list.set_sel(2) in_set_butlastD)
  moreover have "P x y = Q x y"
    by (rule "3.prems") auto
  ultimately show ?case by simp
qed auto

lemma last_Cons_not_in:
  "distinct (x # xs) \<Longrightarrow> last (x # xs) \<notin> set (butlast (x # xs))"
  by (metis append_butlast_last_id distinct_butlast distinct_append disjoint_iff list.distinct(1) list.set_intros(1))

lemma set_butlast_subset: "x \<in> set (butlast xs) \<Longrightarrow> x \<in> set xs"
  by (rule in_set_butlastD)

lemma set_tl_subset: "x \<in> set (tl xs) \<Longrightarrow> x \<in> set xs"
  by (cases xs) auto

subsection \<open>The option monad\<close>

lemma bind_Some_iff: "(m \<bind> f = Some y) = (\<exists>x. m = Some x \<and> f x = Some y)"
  by (cases m) auto

lemma bind_ne_None_iff: "(m \<bind> f \<noteq> None) = (\<exists>x. m = Some x \<and> f x \<noteq> None)"
  by (cases m) auto

text \<open>
  A computation that is defined and whose result satisfies \<open>Q\<close>. Proofs about long sequences of
  operations step through \<^const>\<open>Option.bind\<close> with it, one operation at a time.
\<close>

definition holds :: "'a option \<Rightarrow> ('a \<Rightarrow> bool) \<Rightarrow> bool" where
  "holds m Q \<longleftrightarrow> (\<exists>x. m = Some x \<and> Q x)"

lemma holds_Some [simp]: "holds (Some x) Q = Q x"
  by (simp add: holds_def)

lemma holds_None [simp]: "\<not> holds None Q"
  by (simp add: holds_def)

lemma holds_bind [simp]: "holds (m \<bind> f) Q = holds m (\<lambda>x. holds (f x) Q)"
  by (cases m) simp_all

lemma holds_map [simp]: "holds (map_option f m) Q = holds m (\<lambda>x. Q (f x))"
  by (cases m) simp_all

lemma holds_case_prod [simp]:
  "holds (case x of (a, b) \<Rightarrow> f a b) Q = (case x of (a, b) \<Rightarrow> holds (f a b) Q)"
  by (cases x) simp

lemma holds_mono: "holds m P \<Longrightarrow> (\<And>x. P x \<Longrightarrow> Q x) \<Longrightarrow> holds m Q"
  by (auto simp: holds_def)

lemma holds_SomeD: "holds m Q \<Longrightarrow> m = Some x \<Longrightarrow> Q x"
  by (simp add: holds_def)

text \<open>The partial variant: if the computation is defined, its result satisfies \<open>Q\<close>.\<close>

definition yields :: "'a option \<Rightarrow> ('a \<Rightarrow> bool) \<Rightarrow> bool" where
  "yields m Q \<longleftrightarrow> (\<forall>x. m = Some x \<longrightarrow> Q x)"

lemma yields_simps [simp]:
  "yields (Some x) Q = Q x" "yields None Q"
  "yields (m \<bind> f) Q = yields m (\<lambda>x. yields (f x) Q)"
  "yields (map_option g m) R = yields m (\<lambda>x. R (g x))"
  by (cases m; simp add: yields_def)+

lemma yields_case_prod [simp]:
  "yields (case x of (a, b) \<Rightarrow> f a b) Q = (case x of (a, b) \<Rightarrow> yields (f a b) Q)"
  by (cases x) simp

lemma yieldsD: "yields m Q \<Longrightarrow> m = Some x \<Longrightarrow> Q x"
  by (simp add: yields_def)

lemma yields_mono: "yields m P \<Longrightarrow> (\<And>x. P x \<Longrightarrow> Q x) \<Longrightarrow> yields m Q"
  by (auto simp: yields_def)

subsection \<open>Exact arithmetic on 64-bit counters\<close>

lemma uint_add_exact:
  fixes x :: "64 word"
  assumes "0 \<le> n" and "uint x + n < 2 ^ 64"
  shows "uint (x + word_of_int n) = uint x + n"
proof -
  have "uint (x + word_of_int n) = (uint x + n) mod 2 ^ 64"
    by (simp add: uint_word_arith_bintrs take_bit_eq_mod unsigned_of_int mod_add_right_eq)
  with assms show ?thesis by (simp add: mod_pos_pos_trivial)
qed

lemma uint_sub_exact:
  fixes x :: "64 word"
  assumes "0 \<le> n" and "n \<le> uint x"
  shows "uint (x - word_of_int n) = uint x - n"
proof -
  have "uint x < 2 ^ 64" using uint_lt2p [of x] by simp
  moreover have "uint (x - word_of_int n) = (uint x - n) mod 2 ^ 64"
    by (simp add: uint_word_arith_bintrs take_bit_eq_mod unsigned_of_int mod_diff_right_eq)
  ultimately show ?thesis using assms by (simp add: mod_pos_pos_trivial)
qed

end
