(* ===== verification/Platform.thy ===== *)
theory Platform
  imports Prelude
begin

text \<open>
  What the program sees of the system it runs on: socket addresses, the constants of the headers
  it includes, the calls it makes to the C library, the kernel and libevent, and the record
  \<open>os\<close> through which their results enter the model.

  None of that code is part of the repository, so its behaviour is a parameter: a value of
  type \<open>os\<close> answers a call from the list of all calls made before it, and may answer in any way.
  Every definition of the model takes such an \<open>os\<close>; a theorem that relies on documented
  behaviour of a call says so in a hypothesis. The list of calls made so far is part of the
  state, which also lets theorems speak about the order of calls.

  Numeric constants are those of Linux on x86-64 and of libevent 2.
\<close>

unbundle bit_operations_syntax

subsection \<open>Socket addresses\<close>

text \<open>
  \<^verbatim>\<open>struct sockaddr_storage\<close> as the family and the bytes behind it. The views as
  \<^verbatim>\<open>sockaddr_in\<close> and \<^verbatim>\<open>sockaddr_in6\<close> read the same bytes at their offsets: the port is at
  offset 2 of the structure in both, the address at offset 4 respectively 8. Ports are kept in
  network byte order, as in memory.
\<close>

record sockaddr_storage =
  ss_family :: "16 word"
  ss_data :: "byte list"

definition AF_INET :: "16 word" where "AF_INET = 2"
definition AF_INET6 :: "16 word" where "AF_INET6 = 10"

lemma AF_distinct [simp]: "AF_INET \<noteq> AF_INET6" "AF_INET6 \<noteq> AF_INET"
  by (simp_all add: AF_INET_def AF_INET6_def)

definition sizeof_sockaddr_storage :: nat where "sizeof_sockaddr_storage = 128"
definition sizeof_sockaddr_in :: nat where "sizeof_sockaddr_in = 16"
definition sizeof_sockaddr_in6 :: nat where "sizeof_sockaddr_in6 = 28"

definition wf_sockaddr :: "sockaddr_storage \<Rightarrow> bool" where
  "wf_sockaddr ss \<longleftrightarrow> length (ss_data ss) = 126"

definition sin_port :: "sockaddr_storage \<Rightarrow> byte list" where
  "sin_port ss = take 2 (ss_data ss)"

definition sin_addr :: "sockaddr_storage \<Rightarrow> byte list" where
  "sin_addr ss = take 4 (drop 2 (ss_data ss))"

definition sin6_port :: "sockaddr_storage \<Rightarrow> byte list" where
  "sin6_port ss = take 2 (ss_data ss)"

definition sin6_addr :: "sockaddr_storage \<Rightarrow> byte list" where
  "sin6_addr ss = take 16 (drop 6 (ss_data ss))"

definition zero_sockaddr :: sockaddr_storage where
  "zero_sockaddr = \<lparr>ss_family = 0, ss_data = replicate 126 0\<rparr>"

lemma wf_sockaddr_lengths [simp]:
  assumes "wf_sockaddr ss"
  shows "length (sin_port ss) = 2" "length (sin_addr ss) = 4"
    "length (sin6_port ss) = 2" "length (sin6_addr ss) = 16"
  using assms by (simp_all add: wf_sockaddr_def sin_port_def sin_addr_def sin6_port_def sin6_addr_def)

subsection \<open>Constants\<close>

abbreviation (input) O_NONBLOCK :: "32 word" where "O_NONBLOCK \<equiv> 0x800"
abbreviation (input) EINTR :: int where "EINTR \<equiv> 4"
abbreviation (input) EBADF :: int where "EBADF \<equiv> 9"
abbreviation (input) EAGAIN :: int where "EAGAIN \<equiv> 11"
abbreviation (input) EWOULDBLOCK :: int where "EWOULDBLOCK \<equiv> 11"
abbreviation (input) ECONNRESET :: int where "ECONNRESET \<equiv> 104"
abbreviation (input) ENOTCONN :: int where "ENOTCONN \<equiv> 107"

abbreviation (input) SOL_SOCKET :: int where "SOL_SOCKET \<equiv> 1"
abbreviation (input) SO_REUSEADDR :: int where "SO_REUSEADDR \<equiv> 2"
abbreviation (input) SO_KEEPALIVE :: int where "SO_KEEPALIVE \<equiv> 9"
abbreviation (input) SO_REUSEPORT :: int where "SO_REUSEPORT \<equiv> 15"
abbreviation (input) IPPROTO_TCP :: int where "IPPROTO_TCP \<equiv> 6"
abbreviation (input) TCP_NODELAY :: int where "TCP_NODELAY \<equiv> 1"
abbreviation (input) TCP_KEEPIDLE :: int where "TCP_KEEPIDLE \<equiv> 4"
abbreviation (input) TCP_KEEPINTVL :: int where "TCP_KEEPINTVL \<equiv> 5"
abbreviation (input) TCP_KEEPCNT :: int where "TCP_KEEPCNT \<equiv> 6"
abbreviation (input) IPPROTO_IPV6 :: int where "IPPROTO_IPV6 \<equiv> 41"
abbreviation (input) IPV6_V6ONLY :: int where "IPV6_V6ONLY \<equiv> 26"
abbreviation (input) SOL_IP :: int where "SOL_IP \<equiv> 0"
abbreviation (input) SOL_IPV6 :: int where "SOL_IPV6 \<equiv> 41"
abbreviation (input) SO_ORIGINAL_DST :: int where "SO_ORIGINAL_DST \<equiv> 80"
abbreviation (input) IP6T_SO_ORIGINAL_DST :: int where "IP6T_SO_ORIGINAL_DST \<equiv> 80"
abbreviation (input) SOMAXCONN :: int where "SOMAXCONN \<equiv> 4096"

abbreviation (input) EV_READ :: "16 word" where "EV_READ \<equiv> 0x02"
abbreviation (input) EV_WRITE :: "16 word" where "EV_WRITE \<equiv> 0x04"
abbreviation (input) EV_READ_WRITE :: "16 word" where "EV_READ_WRITE \<equiv> 0x06"
abbreviation (input) EV_READ_PERSIST :: "16 word" where "EV_READ_PERSIST \<equiv> 0x12"
abbreviation (input) EV_SIGNAL_PERSIST :: "16 word" where "EV_SIGNAL_PERSIST \<equiv> 0x18"

abbreviation (input) BEV_EVENT_READING :: "16 word" where "BEV_EVENT_READING \<equiv> 0x01"
abbreviation (input) BEV_EVENT_WRITING :: "16 word" where "BEV_EVENT_WRITING \<equiv> 0x02"
abbreviation (input) BEV_EVENT_EOF :: "16 word" where "BEV_EVENT_EOF \<equiv> 0x10"
abbreviation (input) BEV_EVENT_ERROR :: "16 word" where "BEV_EVENT_ERROR \<equiv> 0x20"
abbreviation (input) BEV_EVENT_CONNECTED :: "16 word" where "BEV_EVENT_CONNECTED \<equiv> 0x80"

abbreviation (input) SIGHUP :: int where "SIGHUP \<equiv> 1"
abbreviation (input) SIGINT :: int where "SIGINT \<equiv> 2"
abbreviation (input) SIGUSR1 :: int where "SIGUSR1 \<equiv> 10"
abbreviation (input) SIGTERM :: int where "SIGTERM \<equiv> 15"

subsection \<open>Calls\<close>

datatype shut_how = SHUT_RD | SHUT_WR | SHUT_RDWR

datatype evbuffer = Input addr | Output addr

text \<open>The functions the program registers with libevent.\<close>

datatype callback =
    No_callback
  | Socks5_timeout_cb
  | Socks_handshake_stage_errcb
  | Relay_onconnect_eventcb
  | Socks_on_server_connect_reply_readcb
  | Socks_on_server_selected_method_readcb
  | Bufferpump_client_readcb
  | Bufferpump_client_writecb
  | Bufferpump_client_eventcb
  | Bufferpump_relay_readcb
  | Bufferpump_relay_writecb
  | Bufferpump_relay_eventcb
  | Splicepump_client_readcb
  | Splicepump_client_writecb
  | Splicepump_relay_readcb
  | Splicepump_relay_writecb
  | Listener_cb
  | Terminate_signal_cb
  | Dump_client_info_signal_cb
  | Drop_all_clients_signal_cb

text \<open>What the program allocates with \<^verbatim>\<open>tr_malloc\<close> and \<^verbatim>\<open>tr_calloc\<close>.\<close>

datatype alloc_type =
    T_global_env
  | T_client
  | T_listener
  | T_sockaddr_storage
  | T_splicepump
  | T_splicepipe
  | T_socks_request_ipv4
  | T_socks_request_ipv6

datatype call =
    \<comment> \<open>C library\<close>
    Malloc alloc_type
  | Calloc alloc_type
  | Free addr
  | Strdup string
  | Free_string string
  | Fprintf_stdout string
    \<comment> \<open>kernel; \<open>Epoll_wait\<close> is made by libevent, once per turn of the event loop\<close>
  | Close int
  | Shutdown int shut_how
  | Fcntl_getfl int
  | Fcntl_setfl int "32 word"
  | Fcntl_getpipe_sz int
  | Pipe
  | Socket "16 word"
  | Accept int
  | Bind int sockaddr_storage nat
  | Listen int int
  | Setsockopt int int int int
  | Getsockopt int int int
  | Splice int int "64 word"
  | Signal_ignore int
  | Epoll_wait addr
    \<comment> \<open>libevent: event bases and events; timers and signals are events\<close>
  | Event_base_new
  | Event_base_free addr
  | Event_base_loopbreak addr
  | Event_base_dispatch addr
  | Event_new addr int "16 word" callback addr
  | Event_assign addr addr int "16 word" callback addr
  | Event_add addr "nat option"
  | Event_del addr
  | Event_free addr
  | Event_active addr "16 word"
    \<comment> \<open>libevent: bufferevents\<close>
  | Bufferevent_socket_new addr int
  | Bufferevent_free addr
  | Bufferevent_enable addr "16 word"
  | Bufferevent_disable addr "16 word"
  | Bufferevent_setfd addr int
  | Bufferevent_setcb addr callback callback callback addr
  | Bufferevent_setwatermark addr "16 word" nat nat
  | Bufferevent_write addr "byte list"
  | Bufferevent_socket_connect addr sockaddr_storage nat
    \<comment> \<open>libevent: evbuffers\<close>
  | Evbuffer_drain evbuffer nat
  | Evbuffer_pullup evbuffer nat
  | Evbuffer_remove_buffer evbuffer evbuffer nat

text \<open>
  The environment. \<open>os_ret\<close> gives the \<^verbatim>\<open>int\<close> result of a call, \<open>os_errno\<close> the value of
  \<^verbatim>\<open>errno\<close>, \<open>os_alloc\<close> says whether a call that returns a new object succeeds, \<open>os_data\<close> is
  what an evbuffer holds, \<open>os_sockaddr\<close> and \<open>os_socklen\<close> fill out-parameters, \<open>os_pipe\<close> the two
  descriptors of a pipe, \<open>os_pending\<close> answers \<^verbatim>\<open>event_pending\<close>, \<open>os_inet_ntop\<close> prints an
  address, and \<open>os_garbage\<close> and \<open>os_junk_string\<close> are what freshly allocated memory and an
  uninitialised local buffer hold.
\<close>

record os =
  os_ret :: "call list \<Rightarrow> call \<Rightarrow> int"
  os_errno :: "call list \<Rightarrow> int"
  os_alloc :: "call list \<Rightarrow> call \<Rightarrow> bool"
  os_data :: "call list \<Rightarrow> evbuffer \<Rightarrow> byte list"
  os_sockaddr :: "call list \<Rightarrow> call \<Rightarrow> sockaddr_storage"
  os_socklen :: "call list \<Rightarrow> call \<Rightarrow> nat"
  os_pipe :: "call list \<Rightarrow> int \<times> int"
  os_pending :: "call list \<Rightarrow> addr \<Rightarrow> 16 word \<Rightarrow> bool"
  os_inet_ntop :: "16 word \<Rightarrow> byte list \<Rightarrow> string option"
  os_junk_string :: string
  os_garbage :: nat

end
