(* ===== verification/Linux_List.thy ===== *)
theory Linux_List
  imports Prelude
begin

text \<open>
  The circular doubly linked list of \<^verbatim>\<open>src/src/list.h\<close>.

  A heap maps the addresses of allocated \<^verbatim>\<open>struct list_head\<close> objects to their two pointer
  fields; an operation is a sequence of field reads and writes in the order of the C code, and
  touching an address outside the heap is undefined behaviour (\<^const>\<open>None\<close>).
  \<open>dlist h head xs\<close> says that the heap holds, at \<open>head\<close>, the circular list with entries \<open>xs\<close>;
  every operation is shown to be defined on such lists, to compute its list counterpart and to
  leave all other nodes alone.
\<close>

subsection \<open>Nodes and the heap\<close>

record list_head =
  lh_next :: addr
  lh_prev :: addr

type_synonym lheap = "addr \<rightharpoonup> list_head"

definition LIST_POISON1 :: addr where
  "LIST_POISON1 = 0x100 + 0xdead000000000000"

definition LIST_POISON2 :: addr where
  "LIST_POISON2 = 0x200 + 0xdead000000000000"

definition get_next :: "addr \<Rightarrow> lheap \<Rightarrow> addr option" where
  "get_next p h = map_option lh_next (h p)"

definition get_prev :: "addr \<Rightarrow> lheap \<Rightarrow> addr option" where
  "get_prev p h = map_option lh_prev (h p)"

definition set_next :: "addr \<Rightarrow> addr \<Rightarrow> lheap \<Rightarrow> lheap option" where
  "set_next p v h = (case h p of None \<Rightarrow> None | Some n \<Rightarrow> Some (h(p \<mapsto> n\<lparr>lh_next := v\<rparr>)))"

definition set_prev :: "addr \<Rightarrow> addr \<Rightarrow> lheap \<Rightarrow> lheap option" where
  "set_prev p v h = (case h p of None \<Rightarrow> None | Some n \<Rightarrow> Some (h(p \<mapsto> n\<lparr>lh_prev := v\<rparr>)))"

subsection \<open>Operations\<close>

definition INIT_LIST_HEAD :: "addr \<Rightarrow> lheap \<Rightarrow> lheap option" where
  "INIT_LIST_HEAD l h = do {
     h \<leftarrow> set_next l l h;
     set_prev l l h
   }"

definition raw_list_add_valid :: "addr \<Rightarrow> addr \<Rightarrow> addr \<Rightarrow> bool" where
  "raw_list_add_valid new prev next = True"

definition raw_list_del_entry_valid :: "addr \<Rightarrow> bool" where
  "raw_list_del_entry_valid entry = True"

definition raw_list_add :: "addr \<Rightarrow> addr \<Rightarrow> addr \<Rightarrow> lheap \<Rightarrow> lheap option" where
  "raw_list_add new prev nxt h =
     (if \<not> raw_list_add_valid new prev nxt then Some h
      else do {
        h \<leftarrow> set_prev nxt new h;
        h \<leftarrow> set_next new nxt h;
        h \<leftarrow> set_prev new prev h;
        set_next prev new h
      })"

definition list_add :: "addr \<Rightarrow> addr \<Rightarrow> lheap \<Rightarrow> lheap option" where
  "list_add new head h = do {
     n \<leftarrow> get_next head h;
     raw_list_add new head n h
   }"

definition list_add_tail :: "addr \<Rightarrow> addr \<Rightarrow> lheap \<Rightarrow> lheap option" where
  "list_add_tail new head h = do {
     p \<leftarrow> get_prev head h;
     raw_list_add new p head h
   }"

definition raw_list_del :: "addr \<Rightarrow> addr \<Rightarrow> lheap \<Rightarrow> lheap option" where
  "raw_list_del prev nxt h = do {
     h \<leftarrow> set_prev nxt prev h;
     set_next prev nxt h
   }"

definition raw_list_del_entry :: "addr \<Rightarrow> lheap \<Rightarrow> lheap option" where
  "raw_list_del_entry entry h =
     (if \<not> raw_list_del_entry_valid entry then Some h
      else do {
        p \<leftarrow> get_prev entry h;
        n \<leftarrow> get_next entry h;
        raw_list_del p n h
      })"

definition list_del :: "addr \<Rightarrow> lheap \<Rightarrow> lheap option" where
  "list_del entry h = do {
     h \<leftarrow> raw_list_del_entry entry h;
     h \<leftarrow> set_next entry LIST_POISON1 h;
     set_prev entry LIST_POISON2 h
   }"

definition list_replace :: "addr \<Rightarrow> addr \<Rightarrow> lheap \<Rightarrow> lheap option" where
  "list_replace old new h = do {
     n \<leftarrow> get_next old h;
     h \<leftarrow> set_next new n h;
     n \<leftarrow> get_next new h;
     h \<leftarrow> set_prev n new h;
     p \<leftarrow> get_prev old h;
     h \<leftarrow> set_prev new p h;
     p \<leftarrow> get_prev new h;
     set_next p new h
   }"

definition list_replace_init :: "addr \<Rightarrow> addr \<Rightarrow> lheap \<Rightarrow> lheap option" where
  "list_replace_init old new h = do {
     h \<leftarrow> list_replace old new h;
     INIT_LIST_HEAD old h
   }"

definition list_del_init :: "addr \<Rightarrow> lheap \<Rightarrow> lheap option" where
  "list_del_init entry h = do {
     h \<leftarrow> raw_list_del_entry entry h;
     INIT_LIST_HEAD entry h
   }"

definition list_move :: "addr \<Rightarrow> addr \<Rightarrow> lheap \<Rightarrow> lheap option" where
  "list_move l head h = do {
     h \<leftarrow> raw_list_del_entry l h;
     list_add l head h
   }"

definition list_move_tail :: "addr \<Rightarrow> addr \<Rightarrow> lheap \<Rightarrow> lheap option" where
  "list_move_tail l head h = do {
     h \<leftarrow> raw_list_del_entry l h;
     list_add_tail l head h
   }"

definition list_bulk_move_tail :: "addr \<Rightarrow> addr \<Rightarrow> addr \<Rightarrow> lheap \<Rightarrow> lheap option" where
  "list_bulk_move_tail head first lst h = do {
     fp \<leftarrow> get_prev first h;
     ln \<leftarrow> get_next lst h;
     h \<leftarrow> set_next fp ln h;
     ln \<leftarrow> get_next lst h;
     fp \<leftarrow> get_prev first h;
     h \<leftarrow> set_prev ln fp h;
     hp \<leftarrow> get_prev head h;
     h \<leftarrow> set_next hp first h;
     hp \<leftarrow> get_prev head h;
     h \<leftarrow> set_prev first hp h;
     h \<leftarrow> set_next lst head h;
     set_prev head lst h
   }"

definition list_is_last :: "addr \<Rightarrow> addr \<Rightarrow> lheap \<Rightarrow> bool option" where
  "list_is_last l head h = do {
     n \<leftarrow> get_next l h;
     Some (n = head)
   }"

definition list_empty :: "addr \<Rightarrow> lheap \<Rightarrow> bool option" where
  "list_empty head h = do {
     n \<leftarrow> get_next head h;
     Some (n = head)
   }"

definition list_empty_careful :: "addr \<Rightarrow> lheap \<Rightarrow> bool option" where
  "list_empty_careful head h = do {
     n \<leftarrow> get_next head h;
     if n = head then do {
       p \<leftarrow> get_prev head h;
       Some (n = p)
     } else Some False
   }"

definition list_rotate_left :: "addr \<Rightarrow> lheap \<Rightarrow> lheap option" where
  "list_rotate_left head h = do {
     e \<leftarrow> list_empty head h;
     if \<not> e then do {
       first \<leftarrow> get_next head h;
       list_move_tail first head h
     } else Some h
   }"

definition list_is_singular :: "addr \<Rightarrow> lheap \<Rightarrow> bool option" where
  "list_is_singular head h = do {
     e \<leftarrow> list_empty head h;
     if \<not> e then do {
       n \<leftarrow> get_next head h;
       p \<leftarrow> get_prev head h;
       Some (n = p)
     } else Some False
   }"

definition raw_list_cut_position :: "addr \<Rightarrow> addr \<Rightarrow> addr \<Rightarrow> lheap \<Rightarrow> lheap option" where
  "raw_list_cut_position l head entry h = do {
     new_first \<leftarrow> get_next entry h;
     n \<leftarrow> get_next head h;
     h \<leftarrow> set_next l n h;
     n \<leftarrow> get_next l h;
     h \<leftarrow> set_prev n l h;
     h \<leftarrow> set_prev l entry h;
     h \<leftarrow> set_next entry l h;
     h \<leftarrow> set_next head new_first h;
     set_prev new_first head h
   }"

definition list_cut_position :: "addr \<Rightarrow> addr \<Rightarrow> addr \<Rightarrow> lheap \<Rightarrow> lheap option" where
  "list_cut_position l head entry h = do {
     e \<leftarrow> list_empty head h;
     if e then Some h
     else do {
       s \<leftarrow> list_is_singular head h;
       n \<leftarrow> get_next head h;
       if s \<and> (n \<noteq> entry \<and> head \<noteq> entry) then Some h
       else if entry = head then INIT_LIST_HEAD l h
       else raw_list_cut_position l head entry h
     }
   }"

definition list_cut_before :: "addr \<Rightarrow> addr \<Rightarrow> addr \<Rightarrow> lheap \<Rightarrow> lheap option" where
  "list_cut_before l head entry h = do {
     n \<leftarrow> get_next head h;
     if n = entry then INIT_LIST_HEAD l h
     else do {
       n \<leftarrow> get_next head h;
       h \<leftarrow> set_next l n h;
       n \<leftarrow> get_next l h;
       h \<leftarrow> set_prev n l h;
       p \<leftarrow> get_prev entry h;
       h \<leftarrow> set_prev l p h;
       p \<leftarrow> get_prev l h;
       h \<leftarrow> set_next p l h;
       h \<leftarrow> set_next head entry h;
       set_prev entry head h
     }
   }"

definition raw_list_splice :: "addr \<Rightarrow> addr \<Rightarrow> addr \<Rightarrow> lheap \<Rightarrow> lheap option" where
  "raw_list_splice l prev nxt h = do {
     first \<leftarrow> get_next l h;
     lst \<leftarrow> get_prev l h;
     h \<leftarrow> set_prev first prev h;
     h \<leftarrow> set_next prev first h;
     h \<leftarrow> set_next lst nxt h;
     set_prev nxt lst h
   }"

definition list_splice :: "addr \<Rightarrow> addr \<Rightarrow> lheap \<Rightarrow> lheap option" where
  "list_splice l head h = do {
     e \<leftarrow> list_empty l h;
     if \<not> e then do {
       n \<leftarrow> get_next head h;
       raw_list_splice l head n h
     } else Some h
   }"

definition list_splice_tail :: "addr \<Rightarrow> addr \<Rightarrow> lheap \<Rightarrow> lheap option" where
  "list_splice_tail l head h = do {
     e \<leftarrow> list_empty l h;
     if \<not> e then do {
       p \<leftarrow> get_prev head h;
       raw_list_splice l p head h
     } else Some h
   }"

definition list_splice_init :: "addr \<Rightarrow> addr \<Rightarrow> lheap \<Rightarrow> lheap option" where
  "list_splice_init l head h = do {
     e \<leftarrow> list_empty l h;
     if \<not> e then do {
       n \<leftarrow> get_next head h;
       h \<leftarrow> raw_list_splice l head n h;
       INIT_LIST_HEAD l h
     } else Some h
   }"

definition list_splice_tail_init :: "addr \<Rightarrow> addr \<Rightarrow> lheap \<Rightarrow> lheap option" where
  "list_splice_tail_init l head h = do {
     e \<leftarrow> list_empty l h;
     if \<not> e then do {
       p \<leftarrow> get_prev head h;
       h \<leftarrow> raw_list_splice l p head h;
       INIT_LIST_HEAD l h
     } else Some h
   }"


subsection \<open>Field updates\<close>

definition upd_next :: "addr \<Rightarrow> addr \<Rightarrow> lheap \<Rightarrow> lheap" where
  "upd_next p v h = (case h p of None \<Rightarrow> h | Some n \<Rightarrow> h(p \<mapsto> n\<lparr>lh_next := v\<rparr>))"

definition upd_prev :: "addr \<Rightarrow> addr \<Rightarrow> lheap \<Rightarrow> lheap" where
  "upd_prev p v h = (case h p of None \<Rightarrow> h | Some n \<Rightarrow> h(p \<mapsto> n\<lparr>lh_prev := v\<rparr>))"

lemma set_next_upd [heap_simps]: "p \<in> dom h \<Longrightarrow> set_next p v h = Some (upd_next p v h)"
  by (auto simp: set_next_def upd_next_def)

lemma set_prev_upd [heap_simps]: "p \<in> dom h \<Longrightarrow> set_prev p v h = Some (upd_prev p v h)"
  by (auto simp: set_prev_def upd_prev_def)

lemma get_next_upd_next [heap_simps]:
  "get_next q (upd_next p v h) = (if q = p \<and> p \<in> dom h then Some v else get_next q h)"
  by (auto simp: get_next_def upd_next_def split: option.split)

lemma get_next_upd_prev [heap_simps]: "get_next q (upd_prev p v h) = get_next q h"
  by (auto simp: get_next_def upd_prev_def split: option.split)

lemma get_prev_upd_prev [heap_simps]:
  "get_prev q (upd_prev p v h) = (if q = p \<and> p \<in> dom h then Some v else get_prev q h)"
  by (auto simp: get_prev_def upd_prev_def split: option.split)

lemma get_prev_upd_next [heap_simps]: "get_prev q (upd_next p v h) = get_prev q h"
  by (auto simp: get_prev_def upd_next_def split: option.split)

lemma dom_upd_next [heap_simps]: "dom (upd_next p v h) = dom h"
  by (auto simp: upd_next_def split: option.split)

lemma dom_upd_prev [heap_simps]: "dom (upd_prev p v h) = dom h"
  by (auto simp: upd_prev_def split: option.split)

lemma upd_next_other [heap_simps]: "q \<noteq> p \<Longrightarrow> upd_next p v h q = h q"
  by (auto simp: upd_next_def split: option.split)

lemma upd_prev_other [heap_simps]: "q \<noteq> p \<Longrightarrow> upd_prev p v h q = h q"
  by (auto simp: upd_prev_def split: option.split)

lemma get_next_dom: "get_next p h = Some q \<Longrightarrow> p \<in> dom h"
  by (auto simp: get_next_def)

lemma get_prev_dom: "get_prev p h = Some q \<Longrightarrow> p \<in> dom h"
  by (auto simp: get_prev_def)

subsection \<open>Circular lists in the heap\<close>

definition link :: "lheap \<Rightarrow> addr \<Rightarrow> addr \<Rightarrow> bool" where
  "link h p q \<longleftrightarrow> get_next p h = Some q \<and> get_prev q h = Some p"

definition path :: "lheap \<Rightarrow> addr list \<Rightarrow> bool" where
  "path h xs = successively (link h) xs"

definition dlist :: "lheap \<Rightarrow> addr \<Rightarrow> addr list \<Rightarrow> bool" where
  "dlist h head xs \<longleftrightarrow> distinct (head # xs) \<and> path h (head # xs @ [head])"

text \<open>Two heaps with the same nodes that differ at most inside \<open>S\<close>.\<close>

definition same_except :: "addr set \<Rightarrow> lheap \<Rightarrow> lheap \<Rightarrow> bool" where
  "same_except S h h' \<longleftrightarrow> dom h' = dom h \<and> (\<forall>q. q \<notin> S \<longrightarrow> h' q = h q)"

lemma same_except_mono: "same_except S h h' \<Longrightarrow> S \<subseteq> T \<Longrightarrow> same_except T h h'"
  by (auto simp: same_except_def)

lemma same_except_trans:
  "same_except S h h' \<Longrightarrow> same_except T h' h'' \<Longrightarrow> same_except (S \<union> T) h h''"
  by (auto simp: same_except_def)

lemma same_except_refl: "same_except S h h"
  by (simp add: same_except_def)

lemma link_domD: "link h p q \<Longrightarrow> p \<in> dom h \<and> q \<in> dom h"
  by (auto simp: link_def dest: get_next_dom get_prev_dom)

lemma path_append:
  "path h (xs @ ys) \<longleftrightarrow>
     path h xs \<and> path h ys \<and> (xs = [] \<or> ys = [] \<or> link h (last xs) (hd ys))"
  by (auto simp: path_def successively_append_iff)

lemma path_join:
  "path h xs \<Longrightarrow> path h ys \<Longrightarrow> xs \<noteq> [] \<Longrightarrow> ys \<noteq> [] \<Longrightarrow> link h (last xs) (hd ys) \<Longrightarrow>
     path h (xs @ ys)"
  by (simp add: path_append)

lemma path_splitD:
  assumes "path h (xs @ ys)" and "xs \<noteq> []" and "ys \<noteq> []"
  shows "path h xs" "path h ys" "link h (last xs) (hd ys)"
  using assms path_append [of h xs ys] by simp_all

lemma path_simps [simp]:
  "path h []" "path h [x]" "path h (x # y # zs) \<longleftrightarrow> link h x y \<and> path h (y # zs)"
  by (auto simp: path_def)

lemma path_frame:
  assumes "\<And>p. p \<in> set (butlast xs) \<Longrightarrow> get_next p h' = get_next p h"
    and "\<And>q. q \<in> set (tl xs) \<Longrightarrow> get_prev q h' = get_prev q h"
  shows "path h' xs = path h xs"
  unfolding path_def by (rule successively_frame) (simp add: link_def assms)

text \<open>
  A path survives in another heap that agrees on its inner fields: the \<^const>\<open>get_next\<close> of its
  last node and the \<^const>\<open>get_prev\<close> of its first node may differ.
\<close>

lemma path_inner:
  assumes "path h xs" and "distinct xs"
    and "\<And>q. q \<in> set xs \<Longrightarrow> q \<noteq> last xs \<Longrightarrow> get_next q h' = get_next q h"
    and "\<And>q. q \<in> set xs \<Longrightarrow> q \<noteq> hd xs \<Longrightarrow> get_prev q h' = get_prev q h"
  shows "path h' xs"
proof (cases xs)
  case (Cons y ys)
  have "q \<in> set xs \<and> q \<noteq> last xs" if "q \<in> set (butlast xs)" for q
    using that last_Cons_not_in [of y ys] assms(2) Cons in_set_butlastD [of q xs] by auto
  moreover have "q \<in> set xs \<and> q \<noteq> hd xs" if "q \<in> set (tl xs)" for q
    using that assms(2) Cons by auto
  ultimately have "path h' xs = path h xs"
    by (intro path_frame assms(3,4)) auto
  with assms(1) show ?thesis by simp
qed simp

lemma path_dom: "path h (x # xs @ [y]) \<Longrightarrow> set (x # xs @ [y]) \<subseteq> dom h"
proof (induction xs arbitrary: x)
  case Nil
  then show ?case by (auto dest: link_domD)
next
  case (Cons z zs)
  then have "link h x z" and "set (z # zs @ [y]) \<subseteq> dom h" by auto
  then show ?case by (auto dest: link_domD)
qed

lemma dlist_dom: "dlist h head xs \<Longrightarrow> set (head # xs) \<subseteq> dom h"
  using path_dom [of h head xs head] by (auto simp: dlist_def)

lemma dlist_distinct: "dlist h head xs \<Longrightarrow> distinct (head # xs)"
  by (simp add: dlist_def)

lemma dlist_same_except:
  assumes "dlist h head xs" and "same_except S h h'" and "S \<inter> set (head # xs) = {}"
  shows "dlist h' head xs"
proof -
  have "h' p = h p" if "p \<in> set (head # xs)" for p
    using that assms(2,3) by (auto simp: same_except_def)
  then have "path h' (head # xs @ [head]) = path h (head # xs @ [head])"
    by (intro path_frame) (auto simp: get_next_def get_prev_def butlast_append)
  with assms(1) show ?thesis by (simp add: dlist_def)
qed

text \<open>Only the nodes of the list matter.\<close>

lemma dlist_agree:
  assumes "dlist h head xs" and "\<And>q. q \<in> set (head # xs) \<Longrightarrow> h' q = h q"
  shows "dlist h' head xs"
proof -
  have "path h' (head # xs @ [head]) = path h (head # xs @ [head])"
    using assms(2) by (intro path_frame) (auto simp: get_next_def get_prev_def dest!: in_set_butlastD)
  with assms(1) show ?thesis by (simp add: dlist_def)
qed

text \<open>The neighbours of a gap in the list, and of an entry.\<close>

lemma dlist_gap:
  assumes "dlist h head (us @ vs)"
  shows "path h (head # us)" "path h (vs @ [head])" "link h (last (head # us)) (hd (vs @ [head]))"
  using assms path_splitD [of h "head # us" "vs @ [head]"] by (simp_all add: dlist_def)

lemma dlist_entry:
  assumes "dlist h head (us @ e # vs)"
  shows "path h (head # us)" "path h (vs @ [head])"
    "link h (last (head # us)) e" "link h e (hd (vs @ [head]))"
proof -
  note gap = dlist_gap [OF assms]
  show "path h (head # us)" by (rule gap)
  show "link h (last (head # us)) e" using gap(3) by simp
  have "path h ([e] @ (vs @ [head]))" using gap(2) by simp
  from path_splitD [OF this] show "path h (vs @ [head])" "link h e (hd (vs @ [head]))"
    by simp_all
qed

lemma dlist_get_next_head: "dlist h head xs \<Longrightarrow> get_next head h = Some (hd (xs @ [head]))"
  using dlist_gap(3) [of h head "[]" xs] by (simp add: link_def)

lemma dlist_get_prev_head: "dlist h head xs \<Longrightarrow> get_prev head h = Some (last (head # xs))"
  using dlist_gap(3) [of h head xs "[]"] by (simp add: link_def)

lemma hd_snoc_eq_head: "head \<notin> set xs \<Longrightarrow> hd (xs @ [head]) = head \<longleftrightarrow> xs = []"
  by (cases xs) auto

lemma hd_snoc_in: "hd (xs @ [x]) \<in> set (xs @ [x])"
  by (rule hd_in_set) simp

subsection \<open>Insertion\<close>

text \<open>
  Linking a fresh node into the gap between \<open>us\<close> and \<open>vs\<close>. Both \<^const>\<open>list_add\<close> and
  \<^const>\<open>list_add_tail\<close> are instances.
\<close>

lemma raw_list_add_dlist:
  assumes d: "dlist h head (us @ vs)" and new: "new \<notin> set (head # us @ vs)" "new \<in> dom h"
  defines "p \<equiv> last (head # us)" and "n \<equiv> hd (vs @ [head])"
  shows "\<exists>h'. raw_list_add new p n h = Some h' \<and> dlist h' head (us @ new # vs)
           \<and> same_except {p, new, n} h h'"
proof -
  have p_in: "p \<in> set (head # us)" unfolding p_def by (rule last_in_set) simp
  have n_in: "n \<in> set (vs @ [head])" unfolding n_def by (rule hd_in_set) simp
  have doms: "p \<in> dom h" "n \<in> dom h" "new \<in> dom h"
    using dlist_dom [OF d] new p_in n_in by auto
  have new_ne: "new \<noteq> p" "new \<noteq> n"
    using p_in n_in new by auto
  define h' where "h' = upd_next p new (upd_prev new p (upd_next new n (upd_prev n new h)))"
  have run: "raw_list_add new p n h = Some h'"
    using doms by (simp add: raw_list_add_def raw_list_add_valid_def heap_simps h'_def)
  have nx: "get_next q h' = (if q = p then Some new else if q = new then Some n else get_next q h)"
    and pv: "get_prev q h' = (if q = new then Some p else if q = n then Some new else get_prev q h)" for q
    using doms new_ne by (auto simp: h'_def heap_simps)
  have dist: "distinct (head # us @ vs)" using d by (rule dlist_distinct)
  have left: "path h' (head # us)"
    by (rule path_inner [OF dlist_gap(1) [OF d]]) (use dist new n_in in \<open>auto simp: nx pv p_def split: if_splits\<close>)
  have right: "path h' (vs @ [head])"
    by (rule path_inner [OF dlist_gap(2) [OF d]]) (use dist new p_in in \<open>auto simp: nx pv n_def\<close>)
  have "link h' p new" "link h' new n"
    using new_ne by (simp_all add: link_def nx pv)
  then have "path h' ([new] @ (vs @ [head]))"
    using right by (intro path_join [of _ "[new]"]) (simp_all add: n_def)
  then have "path h' ((head # us) @ ([new] @ (vs @ [head])))"
    using left \<open>link h' p new\<close> by (intro path_join [of _ "head # us"]) (simp_all add: p_def)
  with dist new have "dlist h' head (us @ new # vs)" by (simp add: dlist_def)
  moreover have "same_except {p, new, n} h h'"
    by (auto simp: same_except_def h'_def heap_simps)
  ultimately show ?thesis using run by blast
qed

lemma list_add_dlist:
  assumes "dlist h head xs" and "new \<notin> set (head # xs)" and "new \<in> dom h"
  shows "\<exists>h'. list_add new head h = Some h' \<and> dlist h' head (new # xs)
           \<and> same_except ({new, head} \<union> set xs) h h'"
proof -
  have "hd (xs @ [head]) \<in> {head} \<union> set xs"
    using hd_in_set [of "xs @ [head]"] by auto
  then show ?thesis
    using raw_list_add_dlist [of h head "[]" xs new] assms
    by (auto simp: list_add_def dlist_get_next_head intro: same_except_mono)
qed

lemma list_add_tail_dlist:
  assumes "dlist h head xs" and "new \<notin> set (head # xs)" and "new \<in> dom h"
  shows "\<exists>h'. list_add_tail new head h = Some h' \<and> dlist h' head (xs @ [new])
           \<and> same_except ({new, head} \<union> set xs) h h'"
proof -
  have "last (head # xs) \<in> {head} \<union> set xs"
    using last_in_set [of "head # xs"] by auto
  then show ?thesis
    using raw_list_add_dlist [of h head xs "[]" new] assms
    by (auto simp: list_add_tail_def dlist_get_prev_head intro: same_except_mono)
qed

subsection \<open>Deletion\<close>

lemma raw_list_del_entry_dlist:
  assumes d: "dlist h head (us @ e # vs)"
  shows "\<exists>h'. raw_list_del_entry e h = Some h' \<and> dlist h' head (us @ vs)
           \<and> same_except (set (head # us @ vs)) h h'"
proof -
  define p where "p = last (head # us)"
  define n where "n = hd (vs @ [head])"
  have p_in: "p \<in> set (head # us)" unfolding p_def by (rule last_in_set) simp
  have n_in: "n \<in> set (vs @ [head])" unfolding n_def by (rule hd_in_set) simp
  have doms: "p \<in> dom h" "n \<in> dom h" "e \<in> dom h"
    using dlist_dom [OF d] p_in n_in by auto
  have nbr: "get_prev e h = Some p" "get_next e h = Some n"
    using dlist_entry [OF d] by (auto simp: link_def p_def n_def)
  define h' where "h' = upd_next p n (upd_prev n p h)"
  have run: "raw_list_del_entry e h = Some h'"
    using doms nbr
    by (simp add: raw_list_del_entry_def raw_list_del_entry_valid_def raw_list_del_def heap_simps h'_def)
  have nx: "get_next q h' = (if q = p then Some n else get_next q h)"
    and pv: "get_prev q h' = (if q = n then Some p else get_prev q h)" for q
    using doms by (auto simp: h'_def heap_simps)
  have dist: "distinct (head # us @ e # vs)" using d by (rule dlist_distinct)
  have left: "path h' (head # us)"
    by (rule path_inner [OF dlist_entry(1) [OF d]]) (use dist n_in in \<open>auto simp: nx pv p_def split: if_splits\<close>)
  have right: "path h' (vs @ [head])"
    by (rule path_inner [OF dlist_entry(2) [OF d]]) (use dist p_in in \<open>auto simp: nx pv n_def\<close>)
  have "link h' p n" by (simp add: link_def nx pv)
  then have "path h' ((head # us) @ (vs @ [head]))"
    using left right by (intro path_join [of _ "head # us"]) (simp_all add: p_def n_def)
  with dist have "dlist h' head (us @ vs)" by (simp add: dlist_def)
  moreover have "same_except {p, n} h h'"
    by (auto simp: same_except_def h'_def heap_simps)
  then have "same_except (set (head # us @ vs)) h h'"
    by (rule same_except_mono) (use p_in n_in in auto)
  ultimately show ?thesis using run by blast
qed

text \<open>An entry that is not linked anywhere (as after \<^const>\<open>INIT_LIST_HEAD\<close>) is its own list.\<close>

lemma raw_list_del_entry_self:
  assumes "dlist h e []"
  shows "\<exists>h'. raw_list_del_entry e h = Some h' \<and> dlist h' e [] \<and> same_except {e} h h'"
proof -
  have e: "e \<in> dom h" "get_prev e h = Some e" "get_next e h = Some e"
    using dlist_dom [OF assms] dlist_get_next_head [OF assms] dlist_get_prev_head [OF assms] by auto
  then show ?thesis
    by (auto simp: raw_list_del_entry_def raw_list_del_entry_valid_def raw_list_del_def
        heap_simps dlist_def link_def same_except_def)
qed

lemma list_del_poison:
  assumes "e \<in> dom h"
  shows "\<exists>h'. (do { h \<leftarrow> set_next e LIST_POISON1 h; set_prev e LIST_POISON2 h }) = Some h'
           \<and> same_except {e} h h' \<and> h' e = Some \<lparr>lh_next = LIST_POISON1, lh_prev = LIST_POISON2\<rparr>"
  using assms by (auto simp: set_next_def set_prev_def same_except_def)

lemma list_del_dlist:
  assumes d: "dlist h head (us @ e # vs)"
  shows "\<exists>h'. list_del e h = Some h' \<and> dlist h' head (us @ vs)
           \<and> h' e = Some \<lparr>lh_next = LIST_POISON1, lh_prev = LIST_POISON2\<rparr>
           \<and> same_except (set (head # us @ e # vs)) h h'"
proof -
  obtain h1 where h1: "raw_list_del_entry e h = Some h1" "dlist h1 head (us @ vs)"
    "same_except (set (head # us @ vs)) h h1"
    using raw_list_del_entry_dlist [OF d] by blast
  have "e \<in> dom h1"
    using h1(3) dlist_dom [OF d] by (auto simp: same_except_def)
  then obtain h2 where h2: "(do { h \<leftarrow> set_next e LIST_POISON1 h1; set_prev e LIST_POISON2 h }) = Some h2"
    "same_except {e} h1 h2" "h2 e = Some \<lparr>lh_next = LIST_POISON1, lh_prev = LIST_POISON2\<rparr>"
    using list_del_poison by blast
  have "e \<notin> set (head # us @ vs)" using dlist_distinct [OF d] by auto
  then have "dlist h2 head (us @ vs)"
    by (intro dlist_same_except [OF h1(2) h2(2)]) simp
  moreover have "same_except (set (head # us @ e # vs)) h h2"
    using same_except_trans [OF h1(3) h2(2)] by (rule same_except_mono) auto
  moreover have "list_del e h = Some h2"
    using h1(1) h2(1) by (simp add: list_del_def)
  ultimately show ?thesis using h2(3) by blast
qed

lemma list_del_self:
  assumes "dlist h e []"
  shows "\<exists>h'. list_del e h = Some h' \<and> same_except {e} h h'"
proof -
  obtain h1 where h1: "raw_list_del_entry e h = Some h1" "dlist h1 e []" "same_except {e} h h1"
    using raw_list_del_entry_self [OF assms] by blast
  then have "e \<in> dom h1" using dlist_dom by fastforce
  with list_del_poison h1 show ?thesis
    by (fastforce simp: list_del_def dest: same_except_trans)
qed

lemma INIT_LIST_HEAD_dlist:
  assumes "l \<in> dom h"
  shows "\<exists>h'. INIT_LIST_HEAD l h = Some h' \<and> dlist h' l [] \<and> same_except {l} h h'"
  using assms by (auto simp: INIT_LIST_HEAD_def heap_simps dlist_def link_def same_except_def)

subsection \<open>Queries\<close>

lemma list_empty_dlist: "dlist h head xs \<Longrightarrow> list_empty head h = Some (xs = [])"
  using dlist_get_next_head dlist_distinct hd_snoc_eq_head
  by (fastforce simp: list_empty_def)

lemma list_empty_careful_dlist: "dlist h head xs \<Longrightarrow> list_empty_careful head h = Some (xs = [])"
  using dlist_get_next_head [of h head xs] dlist_get_prev_head [of h head xs]
    dlist_distinct [of h head xs] hd_snoc_eq_head [of head xs]
  by (auto simp: list_empty_careful_def)

lemma list_is_last_dlist:
  assumes "dlist h head (us @ e # vs)"
  shows "list_is_last e head h = Some (vs = [])"
  using dlist_entry(4) [OF assms] dlist_distinct [OF assms] hd_snoc_eq_head [of head vs]
  by (auto simp: list_is_last_def link_def)

lemma last_eq_hd_iff:
  "distinct (x # xs) \<Longrightarrow> last (x # xs) = x \<longleftrightarrow> xs = []"
  by (cases xs rule: rev_cases) auto

lemma list_is_singular_dlist:
  assumes "dlist h head xs"
  shows "list_is_singular head h = Some (length xs = 1)"
proof (cases xs)
  case Nil
  with list_empty_dlist [OF assms] show ?thesis by (simp add: list_is_singular_def)
next
  case (Cons y ys)
  have "get_next head h = Some y" "get_prev head h = Some (last (y # ys))"
    using dlist_get_next_head [OF assms] dlist_get_prev_head [OF assms] Cons by auto
  moreover have "last (y # ys) = y \<longleftrightarrow> ys = []"
    using dlist_distinct [OF assms] Cons by (intro last_eq_hd_iff) simp
  ultimately show ?thesis
    using list_empty_dlist [OF assms] Cons by (auto simp: list_is_singular_def)
qed

subsection \<open>Moves\<close>

lemma list_del_init_dlist:
  assumes d: "dlist h head (us @ e # vs)"
  shows "\<exists>h'. list_del_init e h = Some h' \<and> dlist h' head (us @ vs) \<and> dlist h' e []
           \<and> same_except (set (head # us @ e # vs)) h h'"
proof -
  obtain h1 where h1: "raw_list_del_entry e h = Some h1" "dlist h1 head (us @ vs)"
    "same_except (set (head # us @ vs)) h h1"
    using raw_list_del_entry_dlist [OF d] by blast
  have "e \<in> dom h1"
    using h1(3) dlist_dom [OF d] by (auto simp: same_except_def)
  then obtain h2 where h2: "INIT_LIST_HEAD e h1 = Some h2" "dlist h2 e []" "same_except {e} h1 h2"
    using INIT_LIST_HEAD_dlist by blast
  have "e \<notin> set (head # us @ vs)" using dlist_distinct [OF d] by auto
  then have "dlist h2 head (us @ vs)"
    by (intro dlist_same_except [OF h1(2) h2(3)]) simp
  moreover have "same_except (set (head # us @ e # vs)) h h2"
    using same_except_trans [OF h1(3) h2(3)] by (rule same_except_mono) auto
  moreover have "list_del_init e h = Some h2"
    using h1(1) h2(1) by (simp add: list_del_init_def)
  ultimately show ?thesis using h2(2) by blast
qed

text \<open>What both moves start with: the entry is unlinked but still allocated.\<close>

lemma unlinked_entry:
  assumes "dlist h head (us @ e # vs)" and "same_except (set (head # us @ vs)) h h1"
  shows "e \<in> dom h1" "e \<notin> set (head # us @ vs)"
  using assms dlist_dom [OF assms(1)] dlist_distinct [OF assms(1)]
  by (auto simp: same_except_def)

lemma list_move_dlist:
  assumes d: "dlist h head (us @ e # vs)"
  shows "\<exists>h'. list_move e head h = Some h' \<and> dlist h' head (e # us @ vs)
           \<and> same_except (set (head # us @ e # vs)) h h'"
proof -
  obtain h1 where h1: "raw_list_del_entry e h = Some h1" "dlist h1 head (us @ vs)"
    "same_except (set (head # us @ vs)) h h1"
    using raw_list_del_entry_dlist [OF d] by blast
  obtain h2 where h2: "list_add e head h1 = Some h2" "dlist h2 head (e # us @ vs)"
    "same_except ({e, head} \<union> set (us @ vs)) h1 h2"
    using list_add_dlist [OF h1(2)] unlinked_entry [OF d h1(3)] by blast
  have "same_except (set (head # us @ e # vs)) h h2"
    using same_except_trans [OF h1(3) h2(3)] by (rule same_except_mono) auto
  then show ?thesis using h1(1) h2(1,2) by (simp add: list_move_def)
qed

lemma list_move_tail_dlist:
  assumes d: "dlist h head (us @ e # vs)"
  shows "\<exists>h'. list_move_tail e head h = Some h' \<and> dlist h' head (us @ vs @ [e])
           \<and> same_except (set (head # us @ e # vs)) h h'"
proof -
  obtain h1 where h1: "raw_list_del_entry e h = Some h1" "dlist h1 head (us @ vs)"
    "same_except (set (head # us @ vs)) h h1"
    using raw_list_del_entry_dlist [OF d] by blast
  obtain h2 where h2: "list_add_tail e head h1 = Some h2" "dlist h2 head ((us @ vs) @ [e])"
    "same_except ({e, head} \<union> set (us @ vs)) h1 h2"
    using list_add_tail_dlist [OF h1(2)] unlinked_entry [OF d h1(3)] by blast
  have "same_except (set (head # us @ e # vs)) h h2"
    using same_except_trans [OF h1(3) h2(3)] by (rule same_except_mono) auto
  then show ?thesis using h1(1) h2(1,2) by (simp add: list_move_tail_def)
qed

lemma list_rotate_left_dlist:
  assumes d: "dlist h head xs"
  shows "\<exists>h'. list_rotate_left head h = Some h' \<and> dlist h' head (rotate1 xs)
           \<and> same_except (set (head # xs)) h h'"
proof (cases xs)
  case Nil
  with d list_empty_dlist [OF d] show ?thesis
    by (simp add: list_rotate_left_def same_except_refl)
next
  case (Cons y ys)
  with list_move_tail_dlist [of h head "[]" y ys] d list_empty_dlist [OF d]
    dlist_get_next_head [OF d]
  show ?thesis by (simp add: list_rotate_left_def)
qed

subsection \<open>Replacement\<close>

lemma list_replace_dlist:
  assumes d: "dlist h head (us @ old # vs)" and new: "new \<notin> set (head # us @ old # vs)" "new \<in> dom h"
  shows "\<exists>h'. list_replace old new h = Some h' \<and> dlist h' head (us @ new # vs)
           \<and> same_except (set (head # us @ new # vs)) h h'"
proof -
  define p where "p = last (head # us)"
  define n where "n = hd (vs @ [head])"
  have p_in: "p \<in> set (head # us)" unfolding p_def by (rule last_in_set) simp
  have n_in: "n \<in> set (vs @ [head])" unfolding n_def by (rule hd_in_set) simp
  have doms: "p \<in> dom h" "n \<in> dom h" "old \<in> dom h" "new \<in> dom h"
    using dlist_dom [OF d] p_in n_in new by auto
  have dist: "distinct (head # us @ old # vs)" using d by (rule dlist_distinct)
  have ne: "new \<noteq> p" "new \<noteq> n" "old \<noteq> p" "old \<noteq> n" "new \<noteq> old"
    using p_in n_in dist new by auto
  have nbr: "get_prev old h = Some p" "get_next old h = Some n"
    using dlist_entry [OF d] by (auto simp: link_def p_def n_def)
  define h' where "h' = upd_next p new (upd_prev new p (upd_prev n new (upd_next new n h)))"
  have run: "list_replace old new h = Some h'"
    using doms nbr ne by (simp add: list_replace_def heap_simps h'_def)
  have nx: "get_next q h' = (if q = p then Some new else if q = new then Some n else get_next q h)"
    and pv: "get_prev q h' = (if q = new then Some p else if q = n then Some new else get_prev q h)" for q
    using doms ne by (auto simp: h'_def heap_simps)
  have left: "path h' (head # us)"
    by (rule path_inner [OF dlist_entry(1) [OF d]]) (use dist new n_in in \<open>auto simp: nx pv p_def split: if_splits\<close>)
  have right: "path h' (vs @ [head])"
    by (rule path_inner [OF dlist_entry(2) [OF d]]) (use dist new p_in in \<open>auto simp: nx pv n_def\<close>)
  have l: "link h' p new" "link h' new n"
    using ne by (simp_all add: link_def nx pv)
  have "path h' ([new] @ (vs @ [head]))"
    using right l by (intro path_join [of _ "[new]"]) (simp_all add: n_def)
  then have "path h' ((head # us) @ ([new] @ (vs @ [head])))"
    using left l by (intro path_join [of _ "head # us"]) (simp_all add: p_def)
  with dist new have "dlist h' head (us @ new # vs)" by (simp add: dlist_def)
  moreover have "same_except {p, new, n} h h'"
    by (auto simp: same_except_def h'_def heap_simps)
  then have "same_except (set (head # us @ new # vs)) h h'"
    by (rule same_except_mono) (use p_in n_in in auto)
  ultimately show ?thesis using run by blast
qed

lemma list_replace_init_dlist:
  assumes d: "dlist h head (us @ old # vs)" and new: "new \<notin> set (head # us @ old # vs)" "new \<in> dom h"
  shows "\<exists>h'. list_replace_init old new h = Some h' \<and> dlist h' head (us @ new # vs) \<and> dlist h' old []"
proof -
  obtain h1 where h1: "list_replace old new h = Some h1" "dlist h1 head (us @ new # vs)"
    "same_except (set (head # us @ new # vs)) h h1"
    using list_replace_dlist [OF assms] by blast
  have "old \<in> dom h1"
    using dlist_dom [OF d] h1(3) by (auto simp: same_except_def)
  then obtain h2 where h2: "INIT_LIST_HEAD old h1 = Some h2" "dlist h2 old []" "same_except {old} h1 h2"
    using INIT_LIST_HEAD_dlist by blast
  have "old \<notin> set (head # us @ new # vs)" using dlist_distinct [OF d] new by auto
  then have "dlist h2 head (us @ new # vs)"
    by (intro dlist_same_except [OF h1(2) h2(3)]) simp
  then show ?thesis using h1(1) h2(1,2) by (simp add: list_replace_init_def)
qed

subsection \<open>Splicing one list into another\<close>

lemma raw_list_splice_dlist:
  assumes dl: "dlist h l xs" and d: "dlist h head (us @ vs)" and ne: "xs \<noteq> []"
    and disj: "set (l # xs) \<inter> set (head # us @ vs) = {}"
  defines "p \<equiv> last (head # us)" and "n \<equiv> hd (vs @ [head])"
  shows "\<exists>h'. raw_list_splice l p n h = Some h' \<and> dlist h' head (us @ xs @ vs)
           \<and> same_except (set xs \<union> {p, n}) h h'"
proof -
  define f where "f = hd xs"
  define e where "e = last xs"
  have p_in: "p \<in> set (head # us)" unfolding p_def by (rule last_in_set) simp
  have n_in: "n \<in> set (vs @ [head])" unfolding n_def by (rule hd_in_set) simp
  have fe_in: "f \<in> set xs" "e \<in> set xs" using ne by (simp_all add: f_def e_def)
  have doms: "p \<in> dom h" "n \<in> dom h" "f \<in> dom h" "e \<in> dom h"
    using dlist_dom [OF d] dlist_dom [OF dl] p_in n_in fe_in by auto
  have dist: "distinct (head # us @ vs)" "distinct (l # xs)"
    using d dl by (auto simp: dlist_def)
  have sep: "f \<noteq> p" "f \<noteq> n" "e \<noteq> p" "e \<noteq> n"
    using p_in n_in fe_in disj by auto
  have nbr: "get_next l h = Some f" "get_prev l h = Some e"
    using dlist_get_next_head [OF dl] dlist_get_prev_head [OF dl] ne
    by (simp_all add: f_def e_def)
  define h' where "h' = upd_prev n e (upd_next e n (upd_next p f (upd_prev f p h)))"
  have run: "raw_list_splice l p n h = Some h'"
    using doms nbr by (simp add: raw_list_splice_def heap_simps h'_def)
  have nx: "get_next q h' = (if q = e then Some n else if q = p then Some f else get_next q h)"
    and pv: "get_prev q h' = (if q = n then Some e else if q = f then Some p else get_prev q h)" for q
    using doms sep by (auto simp: h'_def heap_simps)
  have left: "path h' (head # us)"
    by (rule path_inner [OF dlist_gap(1) [OF d]]) (use dist disj fe_in n_in in \<open>auto simp: nx pv p_def split: if_splits\<close>)
  have right: "path h' (vs @ [head])"
    by (rule path_inner [OF dlist_gap(2) [OF d]]) (use dist disj fe_in p_in in \<open>auto simp: nx pv n_def\<close>)
  have "path h (xs @ [l])" using dlist_gap(2) [of h l "[]" xs] dl by simp
  then have inner: "path h xs" by (rule path_splitD) (use ne in auto)
  have mid: "path h' xs"
    by (rule path_inner [OF inner]) (use dist disj p_in n_in in \<open>auto simp: nx pv e_def f_def\<close>)
  have l: "link h' p f" "link h' e n"
    using sep by (simp_all add: link_def nx pv)
  have "path h' (xs @ (vs @ [head]))"
    using mid right l ne by (intro path_join [of _ xs]) (simp_all add: e_def n_def)
  then have "path h' ((head # us) @ (xs @ (vs @ [head])))"
    using left l ne by (intro path_join [of _ "head # us"]) (simp_all add: p_def f_def)
  moreover have "distinct (head # us @ xs @ vs)"
    using dist disj by auto
  ultimately have "dlist h' head (us @ xs @ vs)"
    by (simp add: dlist_def)
  moreover have "same_except {f, e, p, n} h h'"
    by (auto simp: same_except_def h'_def heap_simps)
  then have "same_except (set xs \<union> {p, n}) h h'"
    by (rule same_except_mono) (use fe_in in auto)
  ultimately show ?thesis using run by blast
qed

lemma list_splice_dlist:
  assumes dl: "dlist h l xs" and d: "dlist h head ys" and disj: "set (l # xs) \<inter> set (head # ys) = {}"
  shows "\<exists>h'. list_splice l head h = Some h' \<and> dlist h' head (xs @ ys)
           \<and> same_except (set (head # xs @ ys)) h h'"
proof (cases "xs = []")
  case True
  with list_empty_dlist [OF dl] d show ?thesis by (simp add: list_splice_def same_except_refl)
next
  case False
  show ?thesis
    using hd_snoc_in [of ys head] raw_list_splice_dlist [OF dl _ False, of head "[]" ys] d disj False
      list_empty_dlist [OF dl] dlist_get_next_head [OF d]
    by (auto simp: list_splice_def elim!: same_except_mono)
qed

lemma list_splice_tail_dlist:
  assumes dl: "dlist h l xs" and d: "dlist h head ys" and disj: "set (l # xs) \<inter> set (head # ys) = {}"
  shows "\<exists>h'. list_splice_tail l head h = Some h' \<and> dlist h' head (ys @ xs)
           \<and> same_except (set (head # xs @ ys)) h h'"
proof (cases "xs = []")
  case True
  with list_empty_dlist [OF dl] d show ?thesis by (simp add: list_splice_tail_def same_except_refl)
next
  case False
  have "last (head # ys) \<in> set (head # ys)" by (rule last_in_set) simp
  then show ?thesis
    using raw_list_splice_dlist [OF dl _ False, of head ys "[]"] d disj False
      list_empty_dlist [OF dl] dlist_get_prev_head [OF d]
    by (auto simp: list_splice_tail_def elim!: same_except_mono)
qed

text \<open>The \<^verbatim>\<open>_init\<close> variants also reset the emptied list head.\<close>

lemma reset_spliced_head:
  assumes "dlist h l xs" and "same_except (set (head # xs @ ys)) h h1" and "dlist h1 head zs"
    and "set zs = set (xs @ ys)" and "set (l # xs) \<inter> set (head # ys) = {}"
  shows "\<exists>h'. INIT_LIST_HEAD l h1 = Some h' \<and> dlist h' head zs \<and> dlist h' l []"
proof -
  have "l \<in> dom h1" using dlist_dom [OF assms(1)] assms(2) by (auto simp: same_except_def)
  then obtain h' where h': "INIT_LIST_HEAD l h1 = Some h'" "dlist h' l []" "same_except {l} h1 h'"
    using INIT_LIST_HEAD_dlist by blast
  have "{l} \<inter> set (head # zs) = {}"
    using assms(4,5) dlist_distinct [OF assms(1)] by auto
  with h' show ?thesis using dlist_same_except [OF assms(3)] by blast
qed

lemma list_splice_init_dlist:
  assumes dl: "dlist h l xs" and d: "dlist h head ys" and disj: "set (l # xs) \<inter> set (head # ys) = {}"
  shows "\<exists>h'. list_splice_init l head h = Some h' \<and> dlist h' head (xs @ ys) \<and> dlist h' l []"
proof (cases "xs = []")
  case True
  with list_empty_dlist [OF dl] d dl show ?thesis by (simp add: list_splice_init_def)
next
  case False
  have ne: "list_empty l h = Some False" using list_empty_dlist [OF dl] False by simp
  obtain h1 where h1: "list_splice l head h = Some h1" "dlist h1 head (xs @ ys)"
    "same_except (set (head # xs @ ys)) h h1"
    using list_splice_dlist [OF dl d disj] by blast
  obtain h2 where "INIT_LIST_HEAD l h1 = Some h2" "dlist h2 head (xs @ ys)" "dlist h2 l []"
    using reset_spliced_head [OF dl h1(3,2) _ disj] by auto
  moreover from h1(1) ne have "list_splice_init l head h = INIT_LIST_HEAD l h1"
    by (auto simp: list_splice_def list_splice_init_def bind_Some_iff)
  ultimately show ?thesis by simp
qed

lemma list_splice_tail_init_dlist:
  assumes dl: "dlist h l xs" and d: "dlist h head ys" and disj: "set (l # xs) \<inter> set (head # ys) = {}"
  shows "\<exists>h'. list_splice_tail_init l head h = Some h' \<and> dlist h' head (ys @ xs) \<and> dlist h' l []"
proof (cases "xs = []")
  case True
  with list_empty_dlist [OF dl] d dl show ?thesis by (simp add: list_splice_tail_init_def)
next
  case False
  have ne: "list_empty l h = Some False" using list_empty_dlist [OF dl] False by simp
  obtain h1 where h1: "list_splice_tail l head h = Some h1" "dlist h1 head (ys @ xs)"
    "same_except (set (head # xs @ ys)) h h1"
    using list_splice_tail_dlist [OF dl d disj] by blast
  obtain h2 where "INIT_LIST_HEAD l h1 = Some h2" "dlist h2 head (ys @ xs)" "dlist h2 l []"
    using reset_spliced_head [OF dl h1(3,2) _ disj] by auto
  moreover from h1(1) ne have "list_splice_tail_init l head h = INIT_LIST_HEAD l h1"
    by (auto simp: list_splice_tail_def list_splice_tail_init_def bind_Some_iff)
  ultimately show ?thesis by simp
qed

subsection \<open>Cutting a list in two\<close>

text \<open>
  The heap after a cut: the nodes \<open>us\<close> hang on \<open>l\<close>, the nodes \<open>vs\<close> on \<open>head\<close>. Both cut
  operations write exactly these fields, in different orders.
\<close>

lemma cut_dlist:
  assumes d: "dlist h head (us @ vs)" and us: "us \<noteq> []" and l: "l \<notin> set (head # us @ vs)"
  assumes nx: "\<And>q. get_next q h' = (if q = l then Some (hd us) else if q = last us then Some l
                  else if q = head then Some (hd (vs @ [head])) else get_next q h)"
    and pv: "\<And>q. get_prev q h' = (if q = l then Some (last us) else if q = hd us then Some l
                  else if q = hd (vs @ [head]) then Some head else get_prev q h)"
  shows "dlist h' l us" "dlist h' head vs"
proof -
  have dist: "distinct (head # us @ vs)" using d by (rule dlist_distinct)
  have ends: "hd us \<in> set us" "last us \<in> set us" "hd (vs @ [head]) \<in> set (vs @ [head])"
    using us hd_snoc_in [of vs head] by simp_all
  have "path h ([head] @ us)" using dlist_gap(1) [OF d] by simp
  then have "path h us" by (rule path_splitD) (use us in auto)
  then have "path h' us"
    by (rule path_inner) (use dist l ends in \<open>auto simp: nx pv\<close>)
  moreover have "link h' l (hd us)" "link h' (last us) l"
    using l us ends dist by (auto simp: link_def nx pv)
  ultimately have "path h' ([l] @ (us @ [l]))"
    using us by (intro path_join) simp_all
  with l dist show "dlist h' l us" by (simp add: dlist_def)
  have right: "path h' (vs @ [head])"
    by (rule path_inner [OF dlist_gap(2) [OF d]]) (use dist l ends in \<open>auto simp: nx pv\<close>)
  have "link h' head (hd (vs @ [head]))"
    using l dist ends by (auto simp: link_def nx pv)
  then have "path h' ([head] @ (vs @ [head]))"
    using right by (intro path_join [of _ "[head]"]) simp_all
  with dist show "dlist h' head vs" by (simp add: dlist_def)
qed

lemma raw_list_cut_position_dlist:
  assumes d: "dlist h head (us @ entry # vs)" and l: "l \<notin> set (head # us @ entry # vs)" "l \<in> dom h"
  shows "\<exists>h'. raw_list_cut_position l head entry h = Some h' \<and> dlist h' l (us @ [entry]) \<and> dlist h' head vs"
proof -
  define n where "n = hd (vs @ [head])"
  define f where "f = hd (us @ [entry])"
  have d': "dlist h head ((us @ [entry]) @ vs)" using d by simp
  have ends: "f \<in> set (us @ [entry])" "n \<in> set (vs @ [head])"
    unfolding f_def n_def by (rule hd_snoc_in)+
  have dist: "distinct (head # us @ entry # vs)" using d by (rule dlist_distinct)
  have doms: "f \<in> dom h" "n \<in> dom h" "entry \<in> dom h" "head \<in> dom h" "l \<in> dom h"
    using dlist_dom [OF d] ends l by auto
  have nbr: "get_next entry h = Some n" "get_next head h = Some f"
    using dlist_entry(4) [OF d] dlist_get_next_head [OF d]
    by (cases us; auto simp: link_def n_def f_def)+
  have ne: "f \<noteq> l" "n \<noteq> l" "entry \<noteq> l" "head \<noteq> l" "entry \<noteq> head" "f \<noteq> n"
    using dist l ends by auto
  define h' where "h' = upd_prev n head (upd_next head n (upd_next entry l
    (upd_prev l entry (upd_prev f l (upd_next l f h)))))"
  have run: "raw_list_cut_position l head entry h = Some h'"
    using doms nbr ne by (simp add: raw_list_cut_position_def heap_simps h'_def)
  have "dlist h' l (us @ [entry])" "dlist h' head vs"
    by (rule cut_dlist [OF d']; use l doms ne in \<open>auto simp: h'_def heap_simps n_def [symmetric] f_def [symmetric]\<close>)+
  with run show ?thesis by blast
qed

lemma list_cut_position_dlist:
  assumes d: "dlist h head (us @ entry # vs)" and l: "l \<notin> set (head # us @ entry # vs)" "l \<in> dom h"
  shows "\<exists>h'. list_cut_position l head entry h = Some h' \<and> dlist h' l (us @ [entry]) \<and> dlist h' head vs"
proof -
  have "entry \<noteq> head" using dlist_distinct [OF d] by auto
  moreover have "length (us @ entry # vs) = 1 \<Longrightarrow> hd ((us @ entry # vs) @ [head]) = entry"
    by (cases us) auto
  ultimately have "list_cut_position l head entry h = raw_list_cut_position l head entry h"
    using list_empty_dlist [OF d] list_is_singular_dlist [OF d] dlist_get_next_head [OF d]
    by (auto simp: list_cut_position_def)
  with raw_list_cut_position_dlist [OF d l] show ?thesis by simp
qed

text \<open>Cutting at the head moves nothing, but resets \<open>l\<close> only when the list is not empty.\<close>

lemma list_cut_position_head:
  assumes d: "dlist h head xs" and l: "l \<notin> set (head # xs)" "l \<in> dom h"
  shows "\<exists>h'. list_cut_position l head head h = Some h' \<and> dlist h' head xs
           \<and> (if xs = [] then h' = h else dlist h' l [])"
proof (cases "xs = []")
  case True
  with d list_empty_dlist [OF d] show ?thesis by (simp add: list_cut_position_def)
next
  case False
  obtain h' where h': "INIT_LIST_HEAD l h = Some h'" "dlist h' l []" "same_except {l} h h'"
    using INIT_LIST_HEAD_dlist [OF l(2)] by blast
  have "dlist h' head xs"
    by (rule dlist_same_except [OF d h'(3)]) (use l in auto)
  with h' False show ?thesis
    using list_empty_dlist [OF d] list_is_singular_dlist [OF d] dlist_get_next_head [OF d]
    by (simp add: list_cut_position_def)
qed

lemma list_cut_before_dlist:
  assumes d: "dlist h head (us @ vs)" and l: "l \<notin> set (head # us @ vs)" "l \<in> dom h"
  defines "entry \<equiv> hd (vs @ [head])"
  shows "\<exists>h'. list_cut_before l head entry h = Some h' \<and> dlist h' l us \<and> dlist h' head vs"
proof (cases "us = []")
  case True
  obtain h' where h': "INIT_LIST_HEAD l h = Some h'" "dlist h' l []" "same_except {l} h h'"
    using INIT_LIST_HEAD_dlist [OF l(2)] by blast
  have "dlist h' head vs"
    using dlist_same_except [OF d h'(3)] l True by auto
  with h' True dlist_get_next_head [OF d] show ?thesis
    by (simp add: list_cut_before_def entry_def)
next
  case False
  define f where "f = hd us"
  define e where "e = last us"
  have ends: "f \<in> set us" "e \<in> set us" "entry \<in> set (vs @ [head])"
    using False hd_snoc_in [of vs head] by (simp_all add: f_def e_def entry_def)
  have dist: "distinct (head # us @ vs)" using d by (rule dlist_distinct)
  have doms: "f \<in> dom h" "e \<in> dom h" "entry \<in> dom h" "head \<in> dom h" "l \<in> dom h"
    using dlist_dom [OF d] ends l by auto
  have nbr: "get_prev entry h = Some e" "get_next head h = Some f"
    using dlist_gap(3) [OF d] dlist_get_next_head [OF d] False
    by (auto simp: link_def entry_def f_def e_def)
  have ne: "f \<noteq> l" "e \<noteq> l" "entry \<noteq> l" "head \<noteq> l" "e \<noteq> head" "f \<noteq> entry"
    using dist l ends by auto
  define h' where "h' = upd_prev entry head (upd_next head entry (upd_next e l
    (upd_prev l e (upd_prev f l (upd_next l f h)))))"
  have run: "list_cut_before l head entry h = Some h'"
    using doms nbr ne by (simp add: list_cut_before_def heap_simps h'_def)
  have "dlist h' l us" "dlist h' head vs"
    by (rule cut_dlist [OF d]; use l doms ne False in
        \<open>auto simp: h'_def heap_simps entry_def [symmetric] f_def [symmetric] e_def [symmetric]\<close>)+
  with run show ?thesis by blast
qed

subsection \<open>Moving a block to the tail\<close>

lemma list_bulk_move_tail_last_block:
  assumes d: "dlist h head (us @ ms)" and ne: "ms \<noteq> []"
  shows "\<exists>h'. list_bulk_move_tail head (hd ms) (last ms) h = Some h' \<and> dlist h' head (us @ ms)"
proof -
  define p where "p = last (head # us)"
  define f where "f = hd ms"
  define e where "e = last ms"
  have ends: "p \<in> set (head # us)" "f \<in> set ms" "e \<in> set ms"
    unfolding p_def f_def e_def using ne last_in_set [of "head # us"] by simp_all
  have doms: "p \<in> dom h" "f \<in> dom h" "e \<in> dom h" "head \<in> dom h"
    using dlist_dom [OF d] ends by auto
  have dist: "distinct (head # us @ ms)" using d by (rule dlist_distinct)
  have sep: "f \<noteq> head" "e \<noteq> head" "e \<noteq> p" "f \<noteq> p"
    using ends dist by auto
  have links: "link h p f" "link h e head"
    using dlist_gap(3) [OF d] dlist_gap(3) [of h head "us @ ms" "[]"] d ne
    by (auto simp: p_def f_def e_def)
  define h' where "h' = upd_prev head e (upd_next e head (upd_prev f p (upd_next p f
    (upd_prev head p (upd_next p head h)))))"
  have run: "list_bulk_move_tail head f e h = Some h'"
    using doms links sep by (simp add: list_bulk_move_tail_def link_def heap_simps h'_def)
  have "get_next q h' = get_next q h" "get_prev q h' = get_prev q h" for q
    using doms links sep by (auto simp: link_def heap_simps h'_def)
  then have "path h' (head # (us @ ms) @ [head]) = path h (head # (us @ ms) @ [head])"
    by (intro path_frame) auto
  with d run show ?thesis by (auto simp: dlist_def f_def e_def)
qed

lemma list_bulk_move_tail_inner_block:
  assumes d: "dlist h head (us @ ms @ vs)" and ne: "ms \<noteq> []" "vs \<noteq> []"
  shows "\<exists>h'. list_bulk_move_tail head (hd ms) (last ms) h = Some h' \<and> dlist h' head (us @ vs @ ms)"
proof -
  define p where "p = last (head # us)"
  define n where "n = hd vs"
  define t where "t = last vs"
  define f where "f = hd ms"
  define e where "e = last ms"
  have ends: "p \<in> set (head # us)" "n \<in> set vs" "t \<in> set vs" "f \<in> set ms" "e \<in> set ms"
    unfolding p_def n_def t_def f_def e_def using ne last_in_set [of "head # us"] by simp_all
  have doms: "p \<in> dom h" "n \<in> dom h" "t \<in> dom h" "f \<in> dom h" "e \<in> dom h" "head \<in> dom h"
    using dlist_dom [OF d] ends by auto
  have dist: "distinct (head # us @ ms @ vs)" using d by (rule dlist_distinct)
  have sep: "f \<noteq> head" "e \<noteq> head" "e \<noteq> p" "f \<noteq> p" "t \<noteq> p" "t \<noteq> e" "n \<noteq> f" "n \<noteq> head" "t \<noteq> head"
    using ends dist by auto
  have gap: "path h (ms @ vs)" "path h (vs @ [head])" "link h e n"
    "link h p f" "link h t head" "path h (head # us)"
    using dlist_gap [of h head "us @ ms" vs] dlist_gap [of h head us "ms @ vs"]
      dlist_gap [of h head "us @ ms @ vs" "[]"] path_splitD(1) [of h "ms @ vs" "[head]"] d ne
    by (auto simp: p_def n_def f_def e_def t_def)
  define h' where "h' = upd_prev head e (upd_next e head (upd_prev f t (upd_next t f
    (upd_prev n p (upd_next p n h)))))"
  have run: "list_bulk_move_tail head f e h = Some h'"
    using doms gap(3,4,5) sep by (simp add: list_bulk_move_tail_def link_def heap_simps h'_def)
  have nx: "get_next q h' = (if q = e then Some head else if q = t then Some f
      else if q = p then Some n else get_next q h)"
    and pv: "get_prev q h' = (if q = head then Some e else if q = f then Some t
      else if q = n then Some p else get_prev q h)" for q
    using doms by (auto simp: heap_simps h'_def)
  have pieces: "path h ms" "path h vs"
    using path_splitD [OF gap(1)] ne by auto
  have inner: "path h' ms" "path h' vs"
    by (rule path_inner [OF pieces(1)] path_inner [OF pieces(2)];
        use dist ends in \<open>auto simp: nx pv e_def f_def t_def n_def\<close>)+
  have left: "path h' (head # us)"
    by (rule path_inner [OF gap(6)]) (use dist ends in \<open>auto simp: nx pv p_def split: if_splits\<close>)
  have l: "link h' p n" "link h' t f" "link h' e head"
    using sep by (auto simp: link_def nx pv)
  have "path h' (ms @ [head])"
    using inner l ne by (intro path_join [of _ ms]) (simp_all add: e_def)
  then have "path h' (vs @ (ms @ [head]))"
    using inner l ne by (intro path_join [of _ vs]) (simp_all add: t_def f_def)
  then have "path h' ((head # us) @ (vs @ (ms @ [head])))"
    using left l ne by (intro path_join [of _ "head # us"]) (simp_all add: p_def n_def)
  with dist have "dlist h' head (us @ vs @ ms)" by (auto simp: dlist_def)
  with run show ?thesis by (auto simp: f_def e_def)
qed

lemma list_bulk_move_tail_dlist:
  assumes "dlist h head (us @ ms @ vs)" and "ms \<noteq> []"
  shows "\<exists>h'. list_bulk_move_tail head (hd ms) (last ms) h = Some h' \<and> dlist h' head (us @ vs @ ms)"
  using list_bulk_move_tail_last_block [of h head us ms]
    list_bulk_move_tail_inner_block [of h head us ms vs] assms
  by (cases "vs = []") simp_all

subsection \<open>Traversal\<close>

text \<open>
  The iteration macros. The state \<open>s\<close> is whatever the loop body works on, and \<open>lh s\<close> is the list
  heap inside it; the cursor is read from the heap as the body left it. A loop that does not end
  is \<^const>\<open>None\<close>, so \<^const>\<open>Some\<close> includes termination.
\<close>

partial_function (option) list_for_each_loop ::
  "('s \<Rightarrow> lheap) \<Rightarrow> (addr \<Rightarrow> 's \<Rightarrow> 's option) \<Rightarrow> addr \<Rightarrow> addr \<Rightarrow> 's \<Rightarrow> 's option" where
  "list_for_each_loop lh body head pos s =
     (if pos = head then Some s
      else do {
        s \<leftarrow> body pos s;
        n \<leftarrow> get_next pos (lh s);
        list_for_each_loop lh body head n s
      })"

definition list_for_each_entry ::
  "('s \<Rightarrow> lheap) \<Rightarrow> (addr \<Rightarrow> 's \<Rightarrow> 's option) \<Rightarrow> addr \<Rightarrow> 's \<Rightarrow> 's option" where
  "list_for_each_entry lh body head s = do {
     pos \<leftarrow> get_next head (lh s);
     list_for_each_loop lh body head pos s
   }"

partial_function (option) list_for_each_safe_loop ::
  "('s \<Rightarrow> lheap) \<Rightarrow> (addr \<Rightarrow> 's \<Rightarrow> 's option) \<Rightarrow> addr \<Rightarrow> addr \<Rightarrow> addr \<Rightarrow> 's \<Rightarrow> 's option" where
  "list_for_each_safe_loop lh body head pos n s =
     (if pos = head then Some s
      else do {
        s \<leftarrow> body pos s;
        n' \<leftarrow> get_next n (lh s);
        list_for_each_safe_loop lh body head n n' s
      })"

definition list_for_each_entry_safe ::
  "('s \<Rightarrow> lheap) \<Rightarrow> (addr \<Rightarrow> 's \<Rightarrow> 's option) \<Rightarrow> addr \<Rightarrow> 's \<Rightarrow> 's option" where
  "list_for_each_entry_safe lh body head s = do {
     pos \<leftarrow> get_next head (lh s);
     n \<leftarrow> get_next pos (lh s);
     list_for_each_safe_loop lh body head pos n s
   }"

text \<open>A body that leaves the links alone is folded over the entries, in list order.\<close>

fun fold_option :: "(addr \<Rightarrow> 's \<Rightarrow> 's option) \<Rightarrow> addr list \<Rightarrow> 's \<Rightarrow> 's option" where
  "fold_option f [] s = Some s"
| "fold_option f (x # xs) s = f x s \<bind> fold_option f xs"

lemma list_for_each_loop_fold:
  assumes d: "dlist (lh s) head (ys @ xs)"
    and body: "\<And>x s s'. x \<in> set xs \<Longrightarrow> body x s = Some s' \<Longrightarrow> lh s' = lh s"
  shows "list_for_each_loop lh body head (hd (xs @ [head])) s = fold_option body xs s"
  using assms
proof (induction xs arbitrary: ys s)
  case Nil
  then show ?case by (simp add: list_for_each_loop.simps)
next
  case (Cons x xs)
  have "x \<noteq> head" using dlist_distinct [OF Cons.prems(1)] by auto
  have nxt: "get_next x (lh s) = Some (hd (xs @ [head]))"
    using dlist_entry(4) [OF Cons.prems(1)] by (simp add: link_def)
  have step: "list_for_each_loop lh body head (hd (xs @ [head])) s' = fold_option body xs s'"
    if "body x s = Some s'" for s'
  proof (rule Cons.IH [of s' "ys @ [x]"])
    have "lh s' = lh s" using that by (intro Cons.prems(2)) auto
    with Cons.prems(1) show "dlist (lh s') head ((ys @ [x]) @ xs)" by simp
  qed (auto intro: Cons.prems(2))
  show ?case
  proof (cases "body x s")
    case (Some s')
    then have "lh s' = lh s" by (intro Cons.prems(2)) auto
    with Some step nxt \<open>x \<noteq> head\<close> show ?thesis by (simp add: list_for_each_loop.simps [of _ _ _ x])
  qed (use \<open>x \<noteq> head\<close> in \<open>simp add: list_for_each_loop.simps [of _ _ _ x]\<close>)
qed

lemma list_for_each_entry_fold:
  assumes "dlist (lh s) head xs"
    and "\<And>x s s'. x \<in> set xs \<Longrightarrow> body x s = Some s' \<Longrightarrow> lh s' = lh s"
  shows "list_for_each_entry lh body head s = fold_option body xs s"
  using list_for_each_loop_fold [of lh s head "[]" xs body] assms
  by (simp add: list_for_each_entry_def dlist_get_next_head)

text \<open>
  The safe variant tolerates a body that unlinks the current entry. Entries in \<open>K\<close> are kept by the
  body, the others are removed; the loop ends with exactly the kept ones, in their old order.
\<close>

definition kept :: "addr set \<Rightarrow> addr list \<Rightarrow> addr list" where
  "kept K xs = filter (\<lambda>x. x \<in> K) xs"

lemma list_for_each_safe_loop_kept:
  assumes d: "dlist (lh s) head (ys @ xs)" and inv: "I xs s"
    and body: "\<And>ys x xs s. dlist (lh s) head (ys @ x # xs) \<Longrightarrow> I (x # xs) s \<Longrightarrow>
        \<exists>s'. body x s = Some s' \<and> I xs s' \<and> dlist (lh s') head (ys @ kept K [x] @ xs)"
    and n: "xs \<noteq> [] \<Longrightarrow> n = hd (tl xs @ [head])"
  shows "\<exists>s'. list_for_each_safe_loop lh body head (hd (xs @ [head])) n s = Some s' \<and> I [] s'
           \<and> dlist (lh s') head (ys @ kept K xs)"
  using d inv n
proof (induction xs arbitrary: ys s n)
  case Nil
  then show ?case by (simp add: list_for_each_safe_loop.simps kept_def)
next
  case (Cons x xs)
  have "x \<noteq> head" using dlist_distinct [OF Cons.prems(1)] by auto
  have n: "n = hd (xs @ [head])" using Cons.prems(3) by simp
  obtain s' where s': "body x s = Some s'" "I xs s'" "dlist (lh s') head ((ys @ kept K [x]) @ xs)"
    using body [OF Cons.prems(1,2)] by auto
  obtain n' where n': "get_next n (lh s') = Some n'" "xs \<noteq> [] \<Longrightarrow> n' = hd (tl xs @ [head])"
  proof (cases xs)
    case Nil
    with that n show ?thesis using dlist_get_next_head [OF s'(3)] by auto
  next
    case (Cons z zs)
    then show ?thesis
      using that n dlist_entry(4) [of "lh s'" head "ys @ kept K [x]" z zs] s'(3)
      by (auto simp: link_def)
  qed
  have "\<exists>t. list_for_each_safe_loop lh body head (hd (xs @ [head])) n' s' = Some t \<and> I [] t
          \<and> dlist (lh t) head ((ys @ kept K [x]) @ kept K xs)"
    using s'(2,3) n'(2) by (intro Cons.IH) auto
  then show ?case
    using s'(1) n'(1) n \<open>x \<noteq> head\<close>
    by (auto simp: list_for_each_safe_loop.simps [of _ _ _ x] kept_def)
qed

lemma list_for_each_entry_safe_kept:
  assumes d: "dlist (lh s) head xs" and inv: "I xs s"
    and body: "\<And>ys x xs s. dlist (lh s) head (ys @ x # xs) \<Longrightarrow> I (x # xs) s \<Longrightarrow>
        \<exists>s'. body x s = Some s' \<and> I xs s' \<and> dlist (lh s') head (ys @ kept K [x] @ xs)"
  shows "\<exists>s'. list_for_each_entry_safe lh body head s = Some s' \<and> I [] s'
           \<and> dlist (lh s') head (kept K xs)"
proof -
  obtain n where n: "get_next (hd (xs @ [head])) (lh s) = Some n" "xs \<noteq> [] \<Longrightarrow> n = hd (tl xs @ [head])"
    using d dlist_get_next_head [OF d] dlist_entry(4) [of "lh s" head "[]" "hd xs" "tl xs"]
    by (cases xs) (auto simp: link_def)
  show ?thesis
    using list_for_each_safe_loop_kept [of lh s head "[]" xs I body K n] assms n dlist_get_next_head [OF d]
    by (simp add: list_for_each_entry_safe_def)
qed

text \<open>
  What holds of a loop whatever its body does, as long as it returns: a property of the state that the body keeps
  holds at the end.
\<close>

lemma list_for_each_loop_inv:
  assumes "list_for_each_loop lh body head pos s = Some s'" and "I s"
    and "\<And>x s s'. body x s = Some s' \<Longrightarrow> I s \<Longrightarrow> I s'"
  shows "I s'"
proof -
  have "I s \<longrightarrow> (\<forall>x s s'. body x s = Some s' \<longrightarrow> I s \<longrightarrow> I s') \<longrightarrow> I s'"
    by (rule list_for_each_loop.raw_induct [OF _ assms(1), where P = "\<lambda>lh body head pos s s'.
          I s \<longrightarrow> (\<forall>x s s'. body x s = Some s' \<longrightarrow> I s \<longrightarrow> I s') \<longrightarrow> I s'"])
      (auto simp: bind_Some_iff split: if_splits)
  with assms(2,3) show ?thesis by blast
qed

lemma list_for_each_safe_loop_inv:
  assumes "list_for_each_safe_loop lh body head pos n s = Some s'" and "I s"
    and "\<And>x s s'. body x s = Some s' \<Longrightarrow> I s \<Longrightarrow> I s'"
  shows "I s'"
proof -
  have "I s \<longrightarrow> (\<forall>x s s'. body x s = Some s' \<longrightarrow> I s \<longrightarrow> I s') \<longrightarrow> I s'"
    by (rule list_for_each_safe_loop.raw_induct [OF _ assms(1), where P = "\<lambda>lh body head pos n s s'.
          I s \<longrightarrow> (\<forall>x s s'. body x s = Some s' \<longrightarrow> I s \<longrightarrow> I s') \<longrightarrow> I s'"])
      (auto simp: bind_Some_iff split: if_splits)
  with assms(2,3) show ?thesis by blast
qed

lemma list_for_each_entry_inv:
  "list_for_each_entry lh body head s = Some s' \<Longrightarrow> I s \<Longrightarrow> (\<And>x s s'. body x s = Some s' \<Longrightarrow> I s \<Longrightarrow> I s') \<Longrightarrow> I s'"
  by (auto simp: list_for_each_entry_def bind_Some_iff elim: list_for_each_loop_inv [where I = I])

lemma list_for_each_entry_safe_inv:
  "list_for_each_entry_safe lh body head s = Some s' \<Longrightarrow> I s \<Longrightarrow> (\<And>x s s'. body x s = Some s' \<Longrightarrow> I s \<Longrightarrow> I s') \<Longrightarrow> I s'"
  by (auto simp: list_for_each_entry_safe_def bind_Some_iff elim: list_for_each_safe_loop_inv [where I = I])

subsection \<open>The interface of an intrusive list\<close>

text \<open>
  What the program relies on when it keeps its clients on a list: appending, deleting, and that
  other lists in the same heap are not disturbed. Everything a client of the list needs follows
  from these laws.
\<close>

locale intrusive_list =
  fixes rep :: "'h \<Rightarrow> addr \<Rightarrow> addr list \<Rightarrow> bool"
    and cells :: "'h \<Rightarrow> addr set"
    and add :: "addr \<Rightarrow> addr \<Rightarrow> 'h \<Rightarrow> 'h option"
    and del :: "addr \<Rightarrow> 'h \<Rightarrow> 'h option"
  assumes rep_distinct: "rep h l xs \<Longrightarrow> distinct (l # xs)"
    and rep_cells: "rep h l xs \<Longrightarrow> set xs \<subseteq> cells h"
    and add_law: "rep h l xs \<Longrightarrow> x \<notin> set (l # xs) \<Longrightarrow> x \<in> cells h \<Longrightarrow>
      \<exists>h'. add x l h = Some h' \<and> rep h' l (xs @ [x]) \<and> cells h' = cells h
        \<and> (\<forall>m ys. rep h m ys \<longrightarrow> set (m # ys) \<inter> set (l # x # xs) = {} \<longrightarrow> rep h' m ys)"
    and del_law: "rep h l (us @ x # vs) \<Longrightarrow>
      \<exists>h'. del x h = Some h' \<and> rep h' l (us @ vs) \<and> cells h' = cells h
        \<and> (\<forall>m ys. rep h m ys \<longrightarrow> set (m # ys) \<inter> set (l # us @ x # vs) = {} \<longrightarrow> rep h' m ys)"
begin

lemma add_all:
  assumes "rep h l xs" and "distinct ys" and "set ys \<inter> set (l # xs) = {}" and "set ys \<subseteq> cells h"
  shows "\<exists>h'. fold_option (\<lambda>x. add x l) ys h = Some h' \<and> rep h' l (xs @ ys)
           \<and> (\<forall>m zs. rep h m zs \<longrightarrow> set (m # zs) \<inter> set (l # xs @ ys) = {} \<longrightarrow> rep h' m zs)"
  using assms
proof (induction ys arbitrary: h xs)
  case Nil
  then show ?case by simp
next
  case (Cons y ys)
  obtain h1 where h1: "add y l h = Some h1" "rep h1 l (xs @ [y])" "cells h1 = cells h"
    and fr1: "\<And>m zs. rep h m zs \<Longrightarrow> set (m # zs) \<inter> set (l # y # xs) = {} \<Longrightarrow> rep h1 m zs"
    using add_law [OF Cons.prems(1), of y] Cons.prems by auto
  obtain h2 where h2: "fold_option (\<lambda>x. add x l) ys h1 = Some h2" "rep h2 l ((xs @ [y]) @ ys)"
    and fr2: "\<And>m zs. rep h1 m zs \<Longrightarrow> set (m # zs) \<inter> set (l # (xs @ [y]) @ ys) = {} \<Longrightarrow> rep h2 m zs"
    using Cons.IH [OF h1(2)] Cons.prems h1(3) by auto
  have "rep h2 m zs" if "rep h m zs" "set (m # zs) \<inter> set (l # xs @ y # ys) = {}" for m zs
    using that by (intro fr2 fr1) auto
  with h1 h2 show ?case by auto
qed

text \<open>Deleting entries in any order leaves the others, in their order.\<close>

lemma del_all:
  assumes "rep h l xs" and "distinct ys" and "set ys \<subseteq> set xs"
  shows "\<exists>h'. fold_option del ys h = Some h' \<and> rep h' l (filter (\<lambda>x. x \<notin> set ys) xs)
           \<and> (\<forall>m zs. rep h m zs \<longrightarrow> set (m # zs) \<inter> set (l # xs) = {} \<longrightarrow> rep h' m zs)"
  using assms
proof (induction ys arbitrary: h xs)
  case Nil
  then show ?case by simp
next
  case (Cons y ys)
  obtain us vs where xs: "xs = us @ y # vs"
    using Cons.prems(3) by (auto dest: split_list)
  then have y: "y \<notin> set us" "y \<notin> set vs"
    using rep_distinct [OF Cons.prems(1)] by auto
  obtain h1 where h1: "del y h = Some h1" "rep h1 l (us @ vs)"
    and fr1: "\<And>m zs. rep h m zs \<Longrightarrow> set (m # zs) \<inter> set (l # us @ y # vs) = {} \<Longrightarrow> rep h1 m zs"
    using del_law [of h l us y vs] Cons.prems(1) xs by blast
  obtain h2 where h2: "fold_option del ys h1 = Some h2" "rep h2 l (filter (\<lambda>x. x \<notin> set ys) (us @ vs))"
    and fr2: "\<And>m zs. rep h1 m zs \<Longrightarrow> set (m # zs) \<inter> set (l # us @ vs) = {} \<Longrightarrow> rep h2 m zs"
    using Cons.IH [OF h1(2)] Cons.prems(2,3) xs by auto
  have "rep h2 m zs" if "rep h m zs" "set (m # zs) \<inter> set (l # xs) = {}" for m zs
    using that xs by (intro fr2 fr1) auto
  moreover have "filter (\<lambda>x. x \<notin> set (y # ys)) xs = filter (\<lambda>x. x \<notin> set ys) (us @ vs)"
    using xs y by (auto intro!: arg_cong2 [where f = "(@)"] filter_cong)
  ultimately show ?case using h1 h2 by auto
qed

lemma add_then_del:
  assumes "rep h l xs" and "distinct ys" and "set ys \<inter> set (l # xs) = {}" and "set ys \<subseteq> cells h"
    and "set zs = set ys" and "distinct zs"
  shows "\<exists>h'. fold_option (\<lambda>x. add x l) ys h \<bind> fold_option del zs = Some h' \<and> rep h' l xs"
proof -
  obtain h1 where h1: "fold_option (\<lambda>x. add x l) ys h = Some h1" "rep h1 l (xs @ ys)"
    using add_all [OF assms(1-4)] by auto
  obtain h2 where h2: "fold_option del zs h1 = Some h2" "rep h2 l (filter (\<lambda>x. x \<notin> set zs) (xs @ ys))"
    using del_all [OF h1(2), of zs] assms(5,6) by auto
  have "filter (\<lambda>x. x \<notin> set zs) (xs @ ys) = xs"
    using assms(3,5) by (auto simp: filter_id_conv filter_empty_conv)
  with h1(1) h2 show ?thesis by auto
qed

end

lemma list_add_tail_law:
  assumes "dlist h l xs" and "x \<notin> set (l # xs)" and "x \<in> dom h"
  shows "\<exists>h'. list_add_tail x l h = Some h' \<and> dlist h' l (xs @ [x]) \<and> dom h' = dom h
        \<and> (\<forall>m ys. dlist h m ys \<longrightarrow> set (m # ys) \<inter> set (l # x # xs) = {} \<longrightarrow> dlist h' m ys)"
proof -
  obtain h' where h': "list_add_tail x l h = Some h'" "dlist h' l (xs @ [x])"
    "same_except ({x, l} \<union> set xs) h h'"
    using list_add_tail_dlist [OF assms] by blast
  moreover have "dlist h' m ys" if "dlist h m ys" "set (m # ys) \<inter> set (l # x # xs) = {}" for m ys
    using that by (intro dlist_same_except [OF _ h'(3)]) auto
  ultimately show ?thesis by (auto simp: same_except_def)
qed

lemma list_del_law:
  assumes "dlist h l (us @ x # vs)"
  shows "\<exists>h'. list_del x h = Some h' \<and> dlist h' l (us @ vs) \<and> dom h' = dom h
        \<and> (\<forall>m ys. dlist h m ys \<longrightarrow> set (m # ys) \<inter> set (l # us @ x # vs) = {} \<longrightarrow> dlist h' m ys)"
proof -
  obtain h' where h': "list_del x h = Some h'" "dlist h' l (us @ vs)"
    "same_except (set (l # us @ x # vs)) h h'"
    using list_del_dlist [OF assms] by blast
  moreover have "dlist h' m ys" if "dlist h m ys" "set (m # ys) \<inter> set (l # us @ x # vs) = {}" for m ys
    using that by (intro dlist_same_except [OF _ h'(3)]) auto
  ultimately show ?thesis by (auto simp: same_except_def)
qed

interpretation cl: intrusive_list dlist dom list_add_tail list_del
proof (unfold_locales, goal_cases)
  case (1 h l xs)
  then show ?case by (rule dlist_distinct)
next
  case (2 h l xs)
  then show ?case using dlist_dom [of h l xs] by auto
next
  case (3 h l xs x)
  then show ?case by (rule list_add_tail_law)
next
  case (4 h l us x vs)
  then show ?case by (rule list_del_law)
qed

end
