(* ===== verification/World.thy ===== *)
theory World
  imports Platform Linux_List
begin

text \<open>
  The memory of the program: the structures of \<^verbatim>\<open>src/src/context.h\<close> and
  \<^verbatim>\<open>src/src/splicepump.h\<close>, one heap per type, and what the program has registered with libevent.

  A pointer is an address; a heap maps the addresses of live objects to their contents. Reading or
  writing through an address without an object is undefined behaviour and yields \<^const>\<open>None\<close>.
  Addresses are never reused, so a dangling pointer never finds another object.

  The list entry embedded in a client is its first member and therefore has the address of the
  client itself; the list head embedded in the global environment has an address of its own,
  kept in the field \<open>current_clients_dlinklist\<close>.
\<close>

subsection \<open>Structures\<close>

datatype transocks_client_state =
    client_NEW
  | client_relay_connected
  | client_socks5_finish_handshake
  | client_pumping_data
  | client_DESTROYING
  | client_DESTROYED

record transocks_global_env =
  pump_method_name :: "string option"
  bind_addr :: addr
  relay_addr :: addr
  bind_addr_len :: nat
  relay_addr_len :: nat
  eventBaseLoop :: addr
  listener :: addr
  sigterm_ev :: addr
  sigint_ev :: addr
  sighup_ev :: addr
  sigusr1_ev :: addr
  current_clients_dlinklist :: addr

record transocks_client =
  global_env :: addr
  client_addr :: addr
  dest_addr :: addr
  client_fd :: int
  relay_fd :: int
  client_addr_len :: nat
  dest_addr_len :: nat
  client_bev :: addr
  relay_bev :: addr
  timeout_ev :: addr
  user_arg :: addr
  client_state :: transocks_client_state
  client_shutdown_read :: bool
  client_shutdown_write :: bool
  relay_shutdown_read :: bool
  relay_shutdown_write :: bool

record transocks_listener =
  listener_fd :: int
  listener_ev :: addr

record transocks_splicepipe =
  pipe_readfd :: int
  pipe_writefd :: int
  data_in_pipe :: "64 word"
  capacity :: "64 word"

record transocks_splicepump =
  client_read_ev :: addr
  client_write_ev :: addr
  relay_read_ev :: addr
  relay_write_ev :: addr
  inbound_pipe :: addr
  outbound_pipe :: addr

datatype transocks_splicepump_data_direction = inbound | outbound

datatype transocks_splicepump_splice_result =
  normal_transfer | can_retry | fatal_failure | read_eof

datatype pump_impl = Splicepump_ops | Bufferpump_ops

text \<open>What has been registered for a bufferevent or an event.\<close>

record bev_reg =
  bev_fd :: int
  bev_readcb :: callback
  bev_writecb :: callback
  bev_eventcb :: callback
  bev_arg :: addr
  bev_enabled :: "16 word"

record ev_reg =
  ev_fd :: int
  ev_flags :: "16 word"
  ev_cb :: callback
  ev_arg :: addr
  ev_added :: bool

record world =
  brk :: addr
  envs :: "addr \<rightharpoonup> transocks_global_env"
  clients :: "addr \<rightharpoonup> transocks_client"
  nodes :: lheap
  listeners :: "addr \<rightharpoonup> transocks_listener"
  sockaddrs :: "addr \<rightharpoonup> sockaddr_storage"
  splicepumps :: "addr \<rightharpoonup> transocks_splicepump"
  splicepipes :: "addr \<rightharpoonup> transocks_splicepipe"
  bases :: "addr set"
  events :: "addr \<rightharpoonup> ev_reg"
  bevs :: "addr \<rightharpoonup> bev_reg"
  pumpMethodImpl :: "pump_impl option"
  hist :: "call list"

subsection \<open>Calls and allocation\<close>

definition emit :: "call \<Rightarrow> world \<Rightarrow> world" where
  "emit c w = w\<lparr>hist := hist w @ [c]\<rparr>"

definition sys :: "os \<Rightarrow> call \<Rightarrow> world \<Rightarrow> int \<times> world" where
  "sys os c w = (os_ret os (hist w) c, emit c w)"

text \<open>A call that returns a new object: a fresh address, or \<^const>\<open>NULL\<close>.\<close>

definition alloc :: "os \<Rightarrow> call \<Rightarrow> world \<Rightarrow> addr \<times> world" where
  "alloc os c w =
     (if os_alloc os (hist w) c then (brk w, emit c (w\<lparr>brk := Suc (brk w)\<rparr>)) else (NULL, emit c w))"

definition on_client :: "addr \<Rightarrow> (transocks_client \<Rightarrow> transocks_client) \<Rightarrow> world \<Rightarrow> world option" where
  "on_client p f w = do { c \<leftarrow> clients w p; Some (w\<lparr>clients := (clients w)(p \<mapsto> f c)\<rparr>) }"

definition on_env :: "addr \<Rightarrow> (transocks_global_env \<Rightarrow> transocks_global_env) \<Rightarrow> world \<Rightarrow> world option" where
  "on_env p f w = do { e \<leftarrow> envs w p; Some (w\<lparr>envs := (envs w)(p \<mapsto> f e)\<rparr>) }"

definition on_splicepump :: "addr \<Rightarrow> (transocks_splicepump \<Rightarrow> transocks_splicepump) \<Rightarrow> world \<Rightarrow> world option" where
  "on_splicepump p f w = do { e \<leftarrow> splicepumps w p; Some (w\<lparr>splicepumps := (splicepumps w)(p \<mapsto> f e)\<rparr>) }"

definition on_splicepipe :: "addr \<Rightarrow> (transocks_splicepipe \<Rightarrow> transocks_splicepipe) \<Rightarrow> world \<Rightarrow> world option" where
  "on_splicepipe p f w = do { e \<leftarrow> splicepipes w p; Some (w\<lparr>splicepipes := (splicepipes w)(p \<mapsto> f e)\<rparr>) }"

definition on_nodes :: "(lheap \<Rightarrow> lheap option) \<Rightarrow> world \<Rightarrow> world option" where
  "on_nodes f w = do { h \<leftarrow> f (nodes w); Some (w\<lparr>nodes := h\<rparr>) }"

text \<open>\<^verbatim>\<open>tr_free\<close>, one function per type of object.\<close>

definition free_sockaddr :: "addr \<Rightarrow> world \<Rightarrow> world option" where
  "free_sockaddr p w = do {
     _ \<leftarrow> sockaddrs w p;
     Some (emit (Free p) (w\<lparr>sockaddrs := (sockaddrs w)(p := None)\<rparr>))
   }"

definition free_client_mem :: "addr \<Rightarrow> world \<Rightarrow> world option" where
  "free_client_mem p w = do {
     _ \<leftarrow> clients w p;
     Some (emit (Free p) (w\<lparr>clients := (clients w)(p := None), nodes := (nodes w)(p := None)\<rparr>))
   }"

definition free_splicepipe :: "addr \<Rightarrow> world \<Rightarrow> world option" where
  "free_splicepipe p w = do {
     _ \<leftarrow> splicepipes w p;
     Some (emit (Free p) (w\<lparr>splicepipes := (splicepipes w)(p := None)\<rparr>))
   }"

definition free_splicepump_mem :: "addr \<Rightarrow> world \<Rightarrow> world option" where
  "free_splicepump_mem p w = do {
     _ \<leftarrow> splicepumps w p;
     Some (emit (Free p) (w\<lparr>splicepumps := (splicepumps w)(p := None)\<rparr>))
   }"

definition free_listener_mem :: "addr \<Rightarrow> world \<Rightarrow> world option" where
  "free_listener_mem p w = do {
     _ \<leftarrow> listeners w p;
     Some (emit (Free p) (w\<lparr>listeners := (listeners w)(p := None)\<rparr>))
   }"

definition free_env_mem :: "addr \<Rightarrow> world \<Rightarrow> world option" where
  "free_env_mem p w = do {
     e \<leftarrow> envs w p;
     Some (emit (Free p) (w\<lparr>envs := (envs w)(p := None),
       nodes := (nodes w)(current_clients_dlinklist e := None)\<rparr>))
   }"

subsection \<open>libevent as the program uses it\<close>

text \<open>
  Each wrapper checks that the object it is given is live, records the call, asks the environment
  for the result and updates what is registered. A failed call leaves the registration as it was.
\<close>

definition event_new :: "os \<Rightarrow> addr \<Rightarrow> int \<Rightarrow> 16 word \<Rightarrow> callback \<Rightarrow> addr \<Rightarrow> world \<Rightarrow> addr \<times> world" where
  "event_new os base fd flags cb arg w =
     (let (p, w) = alloc os (Event_new base fd flags cb arg) w in
      if p = NULL then (NULL, w)
      else (p, w\<lparr>events := (events w)(p \<mapsto>
        \<lparr>ev_fd = fd, ev_flags = flags, ev_cb = cb, ev_arg = arg, ev_added = False\<rparr>)\<rparr>))"

definition event_assign :: "os \<Rightarrow> addr \<Rightarrow> addr \<Rightarrow> int \<Rightarrow> 16 word \<Rightarrow> callback \<Rightarrow> addr \<Rightarrow> world \<Rightarrow> (int \<times> world) option" where
  "event_assign os ev base fd flags cb arg w = do {
     _ \<leftarrow> events w ev;
     let (r, w) = sys os (Event_assign ev base fd flags cb arg) w;
     Some (r, if r = 0 then w\<lparr>events := (events w)(ev \<mapsto>
        \<lparr>ev_fd = fd, ev_flags = flags, ev_cb = cb, ev_arg = arg, ev_added = False\<rparr>)\<rparr> else w)
   }"

definition event_add :: "os \<Rightarrow> addr \<Rightarrow> nat option \<Rightarrow> world \<Rightarrow> (int \<times> world) option" where
  "event_add os ev tv w = do {
     e \<leftarrow> events w ev;
     let (r, w) = sys os (Event_add ev tv) w;
     Some (r, if r = 0 then w\<lparr>events := (events w)(ev \<mapsto> e\<lparr>ev_added := True\<rparr>)\<rparr> else w)
   }"

definition event_del :: "addr \<Rightarrow> world \<Rightarrow> world option" where
  "event_del ev w = do {
     e \<leftarrow> events w ev;
     Some ((emit (Event_del ev) w)\<lparr>events := (events w)(ev \<mapsto> e\<lparr>ev_added := False\<rparr>)\<rparr>)
   }"

definition event_free :: "addr \<Rightarrow> world \<Rightarrow> world option" where
  "event_free ev w = do {
     _ \<leftarrow> events w ev;
     Some ((emit (Event_free ev) w)\<lparr>events := (events w)(ev := None)\<rparr>)
   }"

definition event_active :: "addr \<Rightarrow> 16 word \<Rightarrow> world \<Rightarrow> world option" where
  "event_active ev fl w = do {
     _ \<leftarrow> events w ev;
     Some (emit (Event_active ev fl) w)
   }"

definition bufferevent_socket_new :: "os \<Rightarrow> addr \<Rightarrow> int \<Rightarrow> world \<Rightarrow> addr \<times> world" where
  "bufferevent_socket_new os base fd w =
     (let (p, w) = alloc os (Bufferevent_socket_new base fd) w in
      if p = NULL then (NULL, w)
      else (p, w\<lparr>bevs := (bevs w)(p \<mapsto>
        \<lparr>bev_fd = fd, bev_readcb = No_callback, bev_writecb = No_callback,
         bev_eventcb = No_callback, bev_arg = NULL, bev_enabled = EV_WRITE\<rparr>)\<rparr>))"

definition bufferevent_free :: "addr \<Rightarrow> world \<Rightarrow> world option" where
  "bufferevent_free b w = do {
     _ \<leftarrow> bevs w b;
     Some ((emit (Bufferevent_free b) w)\<lparr>bevs := (bevs w)(b := None)\<rparr>)
   }"

definition on_bev :: "os \<Rightarrow> addr \<Rightarrow> call \<Rightarrow> (bev_reg \<Rightarrow> bev_reg) \<Rightarrow> world \<Rightarrow> (int \<times> world) option" where
  "on_bev os b c f w = do {
     r \<leftarrow> bevs w b;
     let (n, w) = sys os c w;
     Some (n, if n = 0 then w\<lparr>bevs := (bevs w)(b \<mapsto> f r)\<rparr> else w)
   }"

definition bufferevent_enable :: "os \<Rightarrow> addr \<Rightarrow> 16 word \<Rightarrow> world \<Rightarrow> (int \<times> world) option" where
  "bufferevent_enable os b fl w =
     on_bev os b (Bufferevent_enable b fl) (\<lambda>r. r\<lparr>bev_enabled := bev_enabled r OR fl\<rparr>) w"

definition bufferevent_disable :: "os \<Rightarrow> addr \<Rightarrow> 16 word \<Rightarrow> world \<Rightarrow> (int \<times> world) option" where
  "bufferevent_disable os b fl w =
     on_bev os b (Bufferevent_disable b fl) (\<lambda>r. r\<lparr>bev_enabled := bev_enabled r AND NOT fl\<rparr>) w"

definition bufferevent_setfd :: "os \<Rightarrow> addr \<Rightarrow> int \<Rightarrow> world \<Rightarrow> (int \<times> world) option" where
  "bufferevent_setfd os b fd w = on_bev os b (Bufferevent_setfd b fd) (\<lambda>r. r\<lparr>bev_fd := fd\<rparr>) w"

definition bufferevent_write :: "os \<Rightarrow> addr \<Rightarrow> byte list \<Rightarrow> world \<Rightarrow> (int \<times> world) option" where
  "bufferevent_write os b bs w = on_bev os b (Bufferevent_write b bs) id w"

definition bufferevent_socket_connect :: "os \<Rightarrow> addr \<Rightarrow> sockaddr_storage \<Rightarrow> nat \<Rightarrow> world \<Rightarrow> (int \<times> world) option" where
  "bufferevent_socket_connect os b ss len w = on_bev os b (Bufferevent_socket_connect b ss len) id w"

definition bufferevent_setcb :: "addr \<Rightarrow> callback \<Rightarrow> callback \<Rightarrow> callback \<Rightarrow> addr \<Rightarrow> world \<Rightarrow> world option" where
  "bufferevent_setcb b rcb wcb ecb arg w = do {
     r \<leftarrow> bevs w b;
     Some ((emit (Bufferevent_setcb b rcb wcb ecb arg) w)\<lparr>bevs := (bevs w)(b \<mapsto>
       r\<lparr>bev_readcb := rcb, bev_writecb := wcb, bev_eventcb := ecb, bev_arg := arg\<rparr>)\<rparr>)
   }"

definition bufferevent_setwatermark :: "addr \<Rightarrow> 16 word \<Rightarrow> nat \<Rightarrow> nat \<Rightarrow> world \<Rightarrow> world option" where
  "bufferevent_setwatermark b fl low high w = do {
     _ \<leftarrow> bevs w b;
     Some (emit (Bufferevent_setwatermark b fl low high) w)
   }"

fun evbuffer_bev :: "evbuffer \<Rightarrow> addr" where
  "evbuffer_bev (Input b) = b"
| "evbuffer_bev (Output b) = b"

definition evbuffer_get_length :: "os \<Rightarrow> evbuffer \<Rightarrow> world \<Rightarrow> nat option" where
  "evbuffer_get_length os buf w = do {
     _ \<leftarrow> bevs w (evbuffer_bev buf);
     Some (length (os_data os (hist w) buf))
   }"

text \<open>The first \<open>n\<close> bytes as one block of memory, or \<^const>\<open>None\<close> inside for a \<open>NULL\<close> result.\<close>

definition evbuffer_pullup :: "os \<Rightarrow> evbuffer \<Rightarrow> nat \<Rightarrow> world \<Rightarrow> (byte list option \<times> world) option" where
  "evbuffer_pullup os buf n w = do {
     _ \<leftarrow> bevs w (evbuffer_bev buf);
     let d = os_data os (hist w) buf;
     Some (if n \<le> length d \<and> os_alloc os (hist w) (Evbuffer_pullup buf n) then Some (take n d) else None,
           emit (Evbuffer_pullup buf n) w)
   }"

definition evbuffer_drain :: "os \<Rightarrow> evbuffer \<Rightarrow> nat \<Rightarrow> world \<Rightarrow> (int \<times> world) option" where
  "evbuffer_drain os buf n w = do {
     _ \<leftarrow> bevs w (evbuffer_bev buf);
     Some (sys os (Evbuffer_drain buf n) w)
   }"

definition evbuffer_remove_buffer :: "os \<Rightarrow> evbuffer \<Rightarrow> evbuffer \<Rightarrow> nat \<Rightarrow> world \<Rightarrow> (int \<times> world) option" where
  "evbuffer_remove_buffer os src dst n w = do {
     _ \<leftarrow> bevs w (evbuffer_bev src);
     _ \<leftarrow> bevs w (evbuffer_bev dst);
     Some (sys os (Evbuffer_remove_buffer src dst n) w)
   }"

subsection \<open>A normal form for states\<close>

text \<open>
  Symbolic execution keeps a state in the form \<open>after_calls cs (w\<lparr>\<dots>\<rparr>)\<close>: the memory that was
  written, and the calls that were made, in order. The rules below rewrite every primitive
  operation on a live object to this form.
\<close>

text \<open>\<open>w'\<close> is \<open>w\<close> after the calls \<open>cs\<close>: no memory and no registration has changed.\<close>

definition after_calls :: "call list \<Rightarrow> world \<Rightarrow> world" where
  "after_calls cs w = w\<lparr>hist := hist w @ cs\<rparr>"

lemma after_calls_simps [simp]:
  "after_calls [] w = w"
  "after_calls ds (after_calls cs w) = after_calls (cs @ ds) w"
  "hist (after_calls cs w) = hist w @ cs"
  "brk (after_calls cs w) = brk w"
  "envs (after_calls cs w) = envs w"
  "clients (after_calls cs w) = clients w"
  "nodes (after_calls cs w) = nodes w"
  "listeners (after_calls cs w) = listeners w"
  "sockaddrs (after_calls cs w) = sockaddrs w"
  "splicepumps (after_calls cs w) = splicepumps w"
  "splicepipes (after_calls cs w) = splicepipes w"
  "bases (after_calls cs w) = bases w"
  "events (after_calls cs w) = events w"
  "bevs (after_calls cs w) = bevs w"
  "pumpMethodImpl (after_calls cs w) = pumpMethodImpl w"
  by (simp_all add: after_calls_def)

lemma emit_after_calls: "emit c w = after_calls [c] w"
  by (simp add: emit_def after_calls_def)

lemma sys_after_calls: "sys os c w = (os_ret os (hist w) c, after_calls [c] w)"
  by (simp add: sys_def emit_after_calls)

lemma after_calls_update [simp]:
  "brk_update f1 (after_calls cs w) = after_calls cs (brk_update f1 w)"
  "envs_update f2 (after_calls cs w) = after_calls cs (envs_update f2 w)"
  "clients_update f3 (after_calls cs w) = after_calls cs (clients_update f3 w)"
  "nodes_update f4 (after_calls cs w) = after_calls cs (nodes_update f4 w)"
  "listeners_update f5 (after_calls cs w) = after_calls cs (listeners_update f5 w)"
  "sockaddrs_update f6 (after_calls cs w) = after_calls cs (sockaddrs_update f6 w)"
  "splicepumps_update f7 (after_calls cs w) = after_calls cs (splicepumps_update f7 w)"
  "splicepipes_update f8 (after_calls cs w) = after_calls cs (splicepipes_update f8 w)"
  "bases_update f9 (after_calls cs w) = after_calls cs (bases_update f9 w)"
  "events_update f10 (after_calls cs w) = after_calls cs (events_update f10 w)"
  "bevs_update f11 (after_calls cs w) = after_calls cs (bevs_update f11 w)"
  "pumpMethodImpl_update f12 (after_calls cs w) = after_calls cs (pumpMethodImpl_update f12 w)"
  by (simp_all add: after_calls_def)

text \<open>No object lives at \<^const>\<open>NULL\<close>, and every live object is below the allocation mark.\<close>

definition wf_world :: "world \<Rightarrow> bool" where
  "wf_world w \<longleftrightarrow> 0 < brk w
     \<and> dom (envs w) \<subseteq> {0<..<brk w}
     \<and> dom (clients w) \<subseteq> {0<..<brk w}
     \<and> dom (nodes w) \<subseteq> {0<..<brk w}
     \<and> dom (listeners w) \<subseteq> {0<..<brk w}
     \<and> dom (sockaddrs w) \<subseteq> {0<..<brk w}
     \<and> dom (splicepumps w) \<subseteq> {0<..<brk w}
     \<and> dom (splicepipes w) \<subseteq> {0<..<brk w}
     \<and> bases w \<subseteq> {0<..<brk w}
     \<and> dom (events w) \<subseteq> {0<..<brk w}
     \<and> dom (bevs w) \<subseteq> {0<..<brk w}"

lemma wf_world_null [simp]:
  assumes "wf_world w"
  shows "envs w NULL = None" "clients w NULL = None" "nodes w NULL = None"
    "listeners w NULL = None" "sockaddrs w NULL = None" "splicepumps w NULL = None"
    "splicepipes w NULL = None" "events w NULL = None" "bevs w NULL = None"
  using assms by (auto simp: wf_world_def)

lemma wf_world_fresh [simp]:
  assumes "wf_world w"
  shows "envs w (brk w) = None" "clients w (brk w) = None" "nodes w (brk w) = None"
    "listeners w (brk w) = None" "sockaddrs w (brk w) = None" "splicepumps w (brk w) = None"
    "splicepipes w (brk w) = None" "events w (brk w) = None" "bevs w (brk w) = None"
  using assms by (auto simp: wf_world_def)

lemma wf_world_after_calls [simp]: "wf_world (after_calls cs w) = wf_world w"
  by (simp add: wf_world_def)

text \<open>Primitive operations on live objects.\<close>

lemma alloc_simp:
  "alloc os c w = (if os_alloc os (hist w) c
     then (brk w, after_calls [c] (w\<lparr>brk := Suc (brk w)\<rparr>)) else (NULL, after_calls [c] w))"
  by (simp add: alloc_def emit_after_calls)

lemma on_client_simp: "clients w p = Some c \<Longrightarrow> on_client p f w = Some (w\<lparr>clients := (clients w)(p \<mapsto> f c)\<rparr>)"
  by (simp add: on_client_def)

lemma on_splicepump_simp: "splicepumps w p = Some c \<Longrightarrow> on_splicepump p f w = Some (w\<lparr>splicepumps := (splicepumps w)(p \<mapsto> f c)\<rparr>)"
  by (simp add: on_splicepump_def)

lemma on_splicepipe_simp: "splicepipes w p = Some c \<Longrightarrow> on_splicepipe p f w = Some (w\<lparr>splicepipes := (splicepipes w)(p \<mapsto> f c)\<rparr>)"
  by (simp add: on_splicepipe_def)

lemma on_env_simp: "envs w p = Some c \<Longrightarrow> on_env p f w = Some (w\<lparr>envs := (envs w)(p \<mapsto> f c)\<rparr>)"
  by (simp add: on_env_def)

lemmas prim_defs =
  free_sockaddr_def free_client_mem_def free_splicepipe_def free_splicepump_mem_def
  free_listener_mem_def free_env_mem_def
  event_del_def event_free_def event_active_def event_add_def event_assign_def
  bufferevent_free_def on_bev_def bufferevent_enable_def bufferevent_disable_def
  bufferevent_setfd_def bufferevent_write_def bufferevent_socket_connect_def
  bufferevent_setcb_def bufferevent_setwatermark_def
  evbuffer_get_length_def evbuffer_pullup_def evbuffer_drain_def evbuffer_remove_buffer_def

lemmas run_simps = on_client_simp on_splicepump_simp on_splicepipe_simp on_env_simp
  sys_after_calls emit_after_calls alloc_simp

subsection \<open>A system in which nothing fails\<close>

definition demo_sockaddr :: sockaddr_storage where
  "demo_sockaddr = \<lparr>ss_family = AF_INET, ss_data = [0x1f, 0x90, 10, 0, 0, 1] @ replicate 120 0\<rparr>"

definition demo_os :: os where
  "demo_os = \<lparr>os_ret = (\<lambda>h c. case c of Accept _ \<Rightarrow> 20 | Socket _ \<Rightarrow> 21 | _ \<Rightarrow> 0), os_errno = (\<lambda>_. 0),
     os_alloc = (\<lambda>_ _. True), os_data = (\<lambda>_ _. []), os_sockaddr = (\<lambda>_ _. demo_sockaddr),
     os_socklen = (\<lambda>_ _. 16), os_pipe = (\<lambda>_. (22, 23)), os_pending = (\<lambda>_ _ _. False),
     os_inet_ntop = (\<lambda>_ _. Some ''10.0.0.1''), os_junk_string = [], os_garbage = 0\<rparr>"

text \<open>An empty memory.\<close>

definition demo_start :: world where
  "demo_start = \<lparr>brk = 1, envs = Map.empty, clients = Map.empty, nodes = Map.empty, listeners = Map.empty,
     sockaddrs = Map.empty, splicepumps = Map.empty, splicepipes = Map.empty, bases = {}, events = Map.empty,
     bevs = Map.empty, pumpMethodImpl = None, hist = []\<rparr>"

end
