(* ===== verification/Util.thy ===== *)
theory Util
  imports World
begin

text \<open>
  The helpers of \<^verbatim>\<open>src/src/util.h\<close> and \<^verbatim>\<open>src/src/util.c\<close>: bit macros, socket options, pipes,
  the original destination of a redirected connection, validation and printing of addresses.
  They change nothing but the list of calls made; \<open>only_calls\<close> states this once for all of them.
\<close>

unbundle bit_operations_syntax

subsection \<open>Macros of util.h\<close>

definition TRANSOCKS_INET_PORTSTRLEN :: nat where
  "TRANSOCKS_INET_PORTSTRLEN = 5 + 1"

definition INET_ADDRSTRLEN :: nat where "INET_ADDRSTRLEN = 16"
definition INET6_ADDRSTRLEN :: nat where "INET6_ADDRSTRLEN = 46"

definition TRANSOCKS_INET_ADDRPORTSTRLEN :: nat where
  "TRANSOCKS_INET_ADDRPORTSTRLEN = 1 + INET6_ADDRSTRLEN + 1 + 1 + TRANSOCKS_INET_PORTSTRLEN + 1"

definition TRANSOCKS_CHKBIT :: "'a::len word \<Rightarrow> 'a word \<Rightarrow> bool" where
  "TRANSOCKS_CHKBIT val flag \<longleftrightarrow> (val AND flag) = flag"

definition TRANSOCKS_SETBIT :: "'a::len word \<Rightarrow> 'a word \<Rightarrow> 'a word" where
  "TRANSOCKS_SETBIT val flag = val OR flag"

definition TRANSOCKS_CLRBIT :: "'a::len word \<Rightarrow> 'a word \<Rightarrow> 'a word" where
  "TRANSOCKS_CLRBIT val flag = val AND NOT flag"

definition TRANSOCKS_TOGGLEBIT :: "'a::len word \<Rightarrow> 'a word \<Rightarrow> 'a word" where
  "TRANSOCKS_TOGGLEBIT val flag = val XOR flag"

definition TRANSOCKS_BUFSIZE :: nat where "TRANSOCKS_BUFSIZE = 4096"

definition TRANSOCKS_IS_RETRIABLE :: "int \<Rightarrow> bool" where
  "TRANSOCKS_IS_RETRIABLE err \<longleftrightarrow> err = EAGAIN \<or> err = EWOULDBLOCK \<or> err = EINTR"

text \<open>
  \<^verbatim>\<open>TRANSOCKS_FREE\<close> calls the given function on a pointer that is not \<^const>\<open>NULL\<close>; resetting
  the pointer variable is written out where that variable is a field that can be read again.
  \<^verbatim>\<open>TRANSOCKS_CLOSE\<close> returns the new value of the descriptor variable.
\<close>

definition TRANSOCKS_FREE :: "(addr \<Rightarrow> world \<Rightarrow> world option) \<Rightarrow> addr \<Rightarrow> world \<Rightarrow> world option" where
  "TRANSOCKS_FREE free_fn ptr w = (if ptr \<noteq> NULL then free_fn ptr w else Some w)"

definition TRANSOCKS_CLOSE :: "int \<Rightarrow> world \<Rightarrow> int \<times> world" where
  "TRANSOCKS_CLOSE fd w = (if fd \<ge> 0 then (-1, emit (Close fd) w) else (fd, w))"

definition TRANSOCKS_SHUTDOWN :: "os \<Rightarrow> int \<Rightarrow> shut_how \<Rightarrow> world \<Rightarrow> int \<times> world" where
  "TRANSOCKS_SHUTDOWN os fd how w = sys os (Shutdown fd how) w"

definition TRANSOCKS_IS_INVALID_FD :: "int \<Rightarrow> bool" where
  "TRANSOCKS_IS_INVALID_FD fd \<longleftrightarrow> fd = -1"

subsection \<open>Socket options\<close>

definition apply_tcp_keepalive :: "os \<Rightarrow> int \<Rightarrow> world \<Rightarrow> int \<times> world" where
  "apply_tcp_keepalive os fd w =
     (if fd < 0 then (-1, w)
      else let keepAlive = 1; keepIdle = 40; keepInterval = 20; keepCount = 5;
        (r, w) = sys os (Setsockopt fd SOL_SOCKET SO_KEEPALIVE keepAlive) w in
      if r < 0 then (-1, w)
      else let (r, w) = sys os (Setsockopt fd IPPROTO_TCP TCP_KEEPIDLE keepIdle) w in
      if r < 0 then (-1, w)
      else let (r, w) = sys os (Setsockopt fd IPPROTO_TCP TCP_KEEPINTVL keepInterval) w in
      if r < 0 then (-1, w)
      else let (r, w) = sys os (Setsockopt fd IPPROTO_TCP TCP_KEEPCNT keepCount) w in
      if r < 0 then (-1, w)
      else (0, w))"

definition apply_ipv6only :: "os \<Rightarrow> int \<Rightarrow> int \<Rightarrow> world \<Rightarrow> int \<times> world" where
  "apply_ipv6only os fd on w =
     (if fd < 0 then (-1, w)
      else let (r, w) = sys os (Setsockopt fd IPPROTO_IPV6 IPV6_V6ONLY on) w in
      if r < 0 then (-1, w) else (0, w))"

definition apply_tcp_nodelay :: "os \<Rightarrow> int \<Rightarrow> world \<Rightarrow> int \<times> world" where
  "apply_tcp_nodelay os fd w =
     (if fd < 0 then (-1, w)
      else let (r, w) = sys os (Setsockopt fd IPPROTO_TCP TCP_NODELAY 1) w in
      if r < 0 then (-1, w) else (0, w))"

definition setnonblocking :: "os \<Rightarrow> int \<Rightarrow> bool \<Rightarrow> world \<Rightarrow> int \<times> world" where
  "setnonblocking os fd isenable w =
     (if fd < 0 then (-1, w)
      else let (flags, w) = sys os (Fcntl_getfl fd) w in
      if flags = -1 then (-1, w)
      else let flags' = (if isenable then TRANSOCKS_SETBIT (word_of_int flags) O_NONBLOCK
                         else TRANSOCKS_CLRBIT (word_of_int flags) O_NONBLOCK);
        (r, w) = sys os (Fcntl_setfl fd flags') w in
      if r \<noteq> 0 then (-1, w) else (0, w))"

text \<open>The out-parameters are set on success only: \<^const>\<open>None\<close> in the result leaves them alone.\<close>

definition createpipe :: "os \<Rightarrow> world \<Rightarrow> (int \<times> int) option \<times> world" where
  "createpipe os w =
     (let (readEndFd, writeEndFd) = os_pipe os (hist w); (ret, w) = sys os Pipe w in
      if ret = -1 then (None, w)
      else let (r, w) = setnonblocking os readEndFd True w in
      if r \<noteq> 0 then (None, w)
      else let (r, w) = setnonblocking os writeEndFd True w in
      if r \<noteq> 0 then (None, w)
      else (Some (readEndFd, writeEndFd), w))"

text \<open>The destination address and its length, if one of the two queries answers.\<close>

definition getorigdst :: "os \<Rightarrow> int \<Rightarrow> world \<Rightarrow> (sockaddr_storage \<times> nat) option \<times> world" where
  "getorigdst os fd w =
     (let c6 = Getsockopt fd SOL_IPV6 IP6T_SO_ORIGINAL_DST;
          a6 = os_sockaddr os (hist w) c6; l6 = os_socklen os (hist w) c6;
          (err, w) = sys os c6 w in
      if err \<noteq> 0 then
        let c4 = Getsockopt fd SOL_IP SO_ORIGINAL_DST;
            a4 = os_sockaddr os (hist w) c4; l4 = os_socklen os (hist w) c4;
            (err, w) = sys os c4 w in
        if err \<noteq> 0 then (None, w) else (Some (a4, l4), w)
      else (Some (a6, l6), w))"

subsection \<open>Validation and parsing of addresses\<close>

definition IN6_IS_ADDR_V4MAPPED :: "byte list \<Rightarrow> bool" where
  "IN6_IS_ADDR_V4MAPPED a \<longleftrightarrow> take 12 a = replicate 10 0 @ [0xff, 0xff]"

definition validateAddrPort :: "sockaddr_storage \<Rightarrow> bool" where
  "validateAddrPort ss =
     (if ss_family ss = AF_INET then
        (if sin_port ss = [0, 0] then False else True)
      else if ss_family ss = AF_INET6 then
        (if sin6_port ss = [0, 0] then False
         else if IN6_IS_ADDR_V4MAPPED (sin6_addr ss) then False
         else True)
      else False)"

text \<open>
  \<open>evutil_parse\<close> stands for \<^verbatim>\<open>evutil_parse_sockaddr_port\<close>: from the text and the size of the
  output buffer to the address and its length, or \<^const>\<open>None\<close> for a result other than 0.
\<close>

definition transocks_parse_sockaddr_port ::
  "(string \<Rightarrow> nat \<Rightarrow> (sockaddr_storage \<times> nat) option) \<Rightarrow> string \<Rightarrow> (sockaddr_storage \<times> nat) option" where
  "transocks_parse_sockaddr_port evutil_parse str =
     (case evutil_parse str sizeof_sockaddr_in6 of
        None \<Rightarrow>
          (case evutil_parse str sizeof_sockaddr_in of
             None \<Rightarrow> None
           | Some (sa, v4len) \<Rightarrow> Some (sa, v4len))
      | Some (sa, v6len) \<Rightarrow> Some (sa, v6len))"

subsection \<open>Printing addresses\<close>

fun dec_digits :: "nat \<Rightarrow> string" where
  "dec_digits n = (if n < 10 then [char_of (48 + n)] else dec_digits (n div 10) @ [char_of (48 + n mod 10)])"

declare dec_digits.simps [simp del]

definition ntohs :: "byte list \<Rightarrow> nat" where
  "ntohs bs = 256 * unat (bs ! 0) + unat (bs ! 1)"

text \<open>At most \<open>n - 1\<close> characters are stored, then the terminating zero.\<close>

definition snprintf :: "nat \<Rightarrow> string \<Rightarrow> string" where
  "snprintf n s = take (n - 1) s"

text \<open>
  \<open>inet_ntop\<close> is the C library function, \<open>junk\<close> the contents of the local buffer \<open>ipstr\<close> when it
  fails. The result is what the output buffer holds, \<^const>\<open>None\<close> if it was not written.
\<close>

definition generate_sockaddr_port_str ::
  "(16 word \<Rightarrow> byte list \<Rightarrow> string option) \<Rightarrow> string \<Rightarrow> nat \<Rightarrow> sockaddr_storage \<Rightarrow> nat \<Rightarrow> string option" where
  "generate_sockaddr_port_str inet_ntop junk strbufsize sa socklen =
     (if socklen = sizeof_sockaddr_in \<or> ss_family sa = AF_INET then
        let ipstr = (case inet_ntop AF_INET (sin_addr sa) of None \<Rightarrow> junk | Some s \<Rightarrow> s);
            port = ntohs (sin_port sa)
        in Some (snprintf strbufsize (ipstr @ '':'' @ dec_digits port))
      else if socklen = sizeof_sockaddr_in6 \<or> ss_family sa = AF_INET6 then
        let ipstr = (case inet_ntop AF_INET6 (sin6_addr sa) of None \<Rightarrow> junk | Some s \<Rightarrow> s);
            port = ntohs (sin6_port sa)
        in Some (snprintf strbufsize (''['' @ ipstr @ '']:'' @ dec_digits port))
      else None)"

subsection \<open>Bit macros\<close>

lemma CHKBIT_SETBIT: "TRANSOCKS_CHKBIT (TRANSOCKS_SETBIT v f) f"
  unfolding TRANSOCKS_CHKBIT_def TRANSOCKS_SETBIT_def
  by (rule bit_eqI) (auto simp: bit_simps)

lemma CHKBIT_CLRBIT: "f \<noteq> 0 \<Longrightarrow> \<not> TRANSOCKS_CHKBIT (TRANSOCKS_CLRBIT v f) f"
proof -
  have "(v AND NOT f) AND f = 0"
    by (rule bit_eqI) (auto simp: bit_simps)
  then show "f \<noteq> 0 \<Longrightarrow> ?thesis"
    by (simp add: TRANSOCKS_CHKBIT_def TRANSOCKS_CLRBIT_def)
qed

lemma CHKBIT_other:
  assumes "f AND g = 0"
  shows "TRANSOCKS_CHKBIT (TRANSOCKS_SETBIT v f) g = TRANSOCKS_CHKBIT v g"
    and "TRANSOCKS_CHKBIT (TRANSOCKS_CLRBIT v f) g = TRANSOCKS_CHKBIT v g"
proof -
  have g: "\<not> (bit f n \<and> bit g n)" for n
    using arg_cong [OF assms, of "\<lambda>x. bit x n"] by (simp add: bit_simps)
  have "(v OR f) AND g = v AND g" "(v AND NOT f) AND g = v AND g"
    by (rule bit_eqI, use g in \<open>auto simp: bit_simps dest: bit_imp_le_length\<close>)+
  then show "TRANSOCKS_CHKBIT (TRANSOCKS_SETBIT v f) g = TRANSOCKS_CHKBIT v g"
    and "TRANSOCKS_CHKBIT (TRANSOCKS_CLRBIT v f) g = TRANSOCKS_CHKBIT v g"
    by (simp_all add: TRANSOCKS_CHKBIT_def TRANSOCKS_SETBIT_def TRANSOCKS_CLRBIT_def)
qed

subsection \<open>The helpers only make calls\<close>

definition only_calls :: "world \<Rightarrow> world \<Rightarrow> bool" where
  "only_calls w w' \<longleftrightarrow> (\<exists>cs. w' = after_calls cs w)"

lemma only_callsI [intro]: "only_calls w (after_calls cs w)"
  by (auto simp: only_calls_def)

lemma only_calls_refl [simp]: "only_calls w w"
  unfolding only_calls_def by (rule exI [of _ "[]"]) simp

lemma only_calls_trans: "only_calls w w' \<Longrightarrow> only_calls w' w'' \<Longrightarrow> only_calls w w''"
  by (auto simp: only_calls_def)

lemmas util_defs = apply_tcp_keepalive_def apply_ipv6only_def apply_tcp_nodelay_def
  setnonblocking_def createpipe_def getorigdst_def TRANSOCKS_SHUTDOWN_def TRANSOCKS_CLOSE_def

lemma only_calls_sys [frame]: "only_calls w (snd (sys os c w))"
  by (auto simp: sys_after_calls)

lemma only_calls_close [frame]: "only_calls w (snd (TRANSOCKS_CLOSE fd w))"
  by (auto simp: TRANSOCKS_CLOSE_def emit_after_calls)

lemma only_calls_setnonblocking [frame]: "only_calls w (snd (setnonblocking os fd e w))"
  by (auto simp: util_defs sys_after_calls Let_def)

lemma only_calls_keepalive [frame]: "only_calls w (snd (apply_tcp_keepalive os fd w))"
  by (auto simp: util_defs sys_after_calls Let_def)

lemma only_calls_nodelay [frame]: "only_calls w (snd (apply_tcp_nodelay os fd w))"
  by (auto simp: util_defs sys_after_calls Let_def)

lemma only_calls_ipv6only [frame]: "only_calls w (snd (apply_ipv6only os fd on w))"
  by (auto simp: util_defs sys_after_calls Let_def)

lemma only_calls_getorigdst [frame]: "only_calls w (snd (getorigdst os fd w))"
  by (auto simp: util_defs sys_after_calls Let_def)

lemma only_calls_createpipe [frame]: "only_calls w (snd (createpipe os w))"
proof -
  obtain a b where p: "os_pipe os (hist w) = (a, b)" by fastforce
  show ?thesis
    by (auto simp: util_defs sys_after_calls Let_def p)
qed

subsection \<open>Sequences of fallible calls\<close>

text \<open>The reference for the socket options: make the calls in order, stop at the first negative result.\<close>

fun try_calls :: "os \<Rightarrow> call list \<Rightarrow> world \<Rightarrow> int \<times> world" where
  "try_calls os [] w = (0, w)"
| "try_calls os (c # cs) w =
     (if os_ret os (hist w) c < 0 then (-1, after_calls [c] w) else try_calls os cs (after_calls [c] w))"

lemma try_calls_ok: "fst (try_calls os cs w) = 0 \<Longrightarrow> snd (try_calls os cs w) = after_calls cs w"
  by (induction cs arbitrary: w) (simp_all split: if_split_asm)

lemma try_calls_fail:
  "fst (try_calls os cs w) \<noteq> 0 \<Longrightarrow> \<exists>n < length cs. snd (try_calls os cs w) = after_calls (take (Suc n) cs) w
     \<and> os_ret os (hist w @ take n cs) (cs ! n) < 0"
proof (induction os cs w rule: try_calls.induct)
  case (2 os c cs w)
  show ?case
  proof (cases "os_ret os (hist w) c < 0")
    case True
    then show ?thesis by (intro exI [of _ 0]) simp
  next
    case False
    with 2 obtain n where "n < length cs" "snd (try_calls os cs (after_calls [c] w)) = after_calls (take (Suc n) cs) (after_calls [c] w)"
      "os_ret os (hist (after_calls [c] w) @ take n cs) (cs ! n) < 0"
      by auto
    with False show ?thesis by (intro exI [of _ "Suc n"]) simp
  qed
qed simp

definition keepalive_options :: "int \<Rightarrow> call list" where
  "keepalive_options fd = [Setsockopt fd SOL_SOCKET SO_KEEPALIVE 1, Setsockopt fd IPPROTO_TCP TCP_KEEPIDLE 40,
     Setsockopt fd IPPROTO_TCP TCP_KEEPINTVL 20, Setsockopt fd IPPROTO_TCP TCP_KEEPCNT 5]"

lemma keepalive_try_calls: "fd \<ge> 0 \<Longrightarrow> apply_tcp_keepalive os fd w = try_calls os (keepalive_options fd) w"
  by (simp add: apply_tcp_keepalive_def keepalive_options_def sys_after_calls)

text \<open>
  Keep-alive is all or nothing: success means that all four options were set in order; failure is
  reported as -1 and means that a prefix of them was tried whose last call failed. An invalid
  descriptor makes no call.
\<close>

theorem keepalive_all_or_error:
  "(case apply_tcp_keepalive os fd w of (r, w') \<Rightarrow>
      if fd < 0 then r = -1 \<and> w' = w
      else if r = 0 then w' = after_calls (keepalive_options fd) w
      else r = -1 \<and> (\<exists>n < 4. w' = after_calls (take (Suc n) (keepalive_options fd)) w
        \<and> os_ret os (hist w @ take n (keepalive_options fd)) (keepalive_options fd ! n) < 0))"
proof (cases "fd < 0")
  case True
  then show ?thesis by (simp add: apply_tcp_keepalive_def)
next
  case False
  have r: "fst (try_calls os cs w) = 0 \<or> fst (try_calls os cs w) = -1" for cs
    by (induction cs arbitrary: w) simp_all
  have len: "length (keepalive_options fd) = 4" by (simp add: keepalive_options_def)
  show ?thesis
    using False keepalive_try_calls [of fd os w] try_calls_ok [of os "keepalive_options fd" w]
      try_calls_fail [of os "keepalive_options fd" w] r [of "keepalive_options fd"] len
    by (auto split: prod.splits)
qed

subsection \<open>Non-blocking mode\<close>

text \<open>
  \<^verbatim>\<open>setnonblocking\<close> reads the flags of the descriptor and writes them back with exactly the bit
  \<^verbatim>\<open>O_NONBLOCK\<close> set or cleared; every other bit keeps its value. It succeeds iff both calls do.
\<close>

theorem setnonblocking_only_bit:
  assumes "fd \<ge> 0" and "os_ret os (hist w) (Fcntl_getfl fd) \<noteq> -1"
  shows "\<exists>f. setnonblocking os fd en w =
      (if os_ret os (hist w @ [Fcntl_getfl fd]) (Fcntl_setfl fd f) = 0 then 0 else -1,
       after_calls [Fcntl_getfl fd, Fcntl_setfl fd f] w)
    \<and> TRANSOCKS_CHKBIT f O_NONBLOCK = en
    \<and> (\<forall>g. g AND O_NONBLOCK = 0 \<longrightarrow> TRANSOCKS_CHKBIT f g = TRANSOCKS_CHKBIT (word_of_int (os_ret os (hist w) (Fcntl_getfl fd))) g)"
proof -
  let ?old = "word_of_int (os_ret os (hist w) (Fcntl_getfl fd)) :: 32 word"
  let ?f = "if en then TRANSOCKS_SETBIT ?old O_NONBLOCK else TRANSOCKS_CLRBIT ?old O_NONBLOCK"
  have "TRANSOCKS_CHKBIT ?f g = TRANSOCKS_CHKBIT ?old g" if "g AND O_NONBLOCK = 0" for g
    using CHKBIT_other [of O_NONBLOCK g ?old] that by (simp add: and.commute)
  moreover have "TRANSOCKS_CHKBIT ?f O_NONBLOCK = en"
    using CHKBIT_SETBIT [of ?old O_NONBLOCK] CHKBIT_CLRBIT [of O_NONBLOCK ?old] by simp
  ultimately show ?thesis
    using assms by (intro exI [of _ ?f]) (auto simp: setnonblocking_def sys_after_calls Let_def)
qed

theorem setnonblocking_only_bit_witness:
  "\<exists>f. setnonblocking demo_os 7 True demo_start = (0, after_calls [Fcntl_getfl 7, Fcntl_setfl 7 f] demo_start)
     \<and> TRANSOCKS_CHKBIT f O_NONBLOCK"
  using setnonblocking_only_bit [of 7 demo_os demo_start True] by (auto simp: demo_os_def)

subsection \<open>Printing addresses\<close>

definition dec_value :: "string \<Rightarrow> nat" where
  "dec_value s = foldl (\<lambda>n c. 10 * n + (of_char c - 48)) 0 s"

lemma dec_value_snoc: "dec_value (s @ [c]) = 10 * dec_value s + (of_char c - 48)"
  by (simp add: dec_value_def)

lemma dec_value_digits: "dec_value (dec_digits n) = n"
proof (induction n rule: dec_digits.induct)
  case (1 n)
  show ?case
  proof (cases "n < 10")
    case True
    then show ?thesis by (simp add: dec_digits.simps [of n] dec_value_def)
  next
    case False
    with 1 show ?thesis by (simp add: dec_digits.simps [of n] dec_value_snoc)
  qed
qed

lemma dec_digits_length: "n < 10 ^ k \<Longrightarrow> 0 < k \<Longrightarrow> length (dec_digits n) \<le> k"
proof (induction n arbitrary: k rule: dec_digits.induct)
  case (1 n)
  show ?case
  proof (cases "n < 10")
    case True
    with 1 show ?thesis by (simp add: dec_digits.simps [of n])
  next
    case False
    then obtain j where k: "k = Suc j" "0 < j" using 1(2,3) by (cases k; cases "k - 1") auto
    then have "n div 10 < 10 ^ j" using 1(2) by (simp add: less_mult_imp_div_less mult.commute)
    with False k 1(1) [of j] show ?thesis by (simp add: dec_digits.simps [of n])
  qed
qed

lemma dec_digits_no_colon: "CHR '':'' \<notin> set (dec_digits n)"
proof (induction n rule: dec_digits.induct)
  case (1 n)
  have nc: "CHR '':'' \<noteq> char_of (48 + d)" if "d < 10" for d :: nat
  proof -
    have "(of_char (char_of (48 + d) :: char) :: nat) \<noteq> of_char (CHR '':'')" using that by simp
    then show ?thesis by metis
  qed
  show ?case using 1 nc [of n] nc [of "n mod 10"] by (subst dec_digits.simps) simp
qed

lemma ntohs_bound: "ntohs bs < 65536"
  using unsigned_less [of "bs ! 0", where 'a = nat] unsigned_less [of "bs ! 1", where 'a = nat] by (simp add: ntohs_def)

lemma port_length: "length (dec_digits (ntohs bs)) \<le> 5"
  using ntohs_bound [of bs] by (intro dec_digits_length) simp_all

text \<open>The part of a string behind its last colon.\<close>

definition after_last_colon :: "string \<Rightarrow> string" where
  "after_last_colon s = rev (takeWhile (\<lambda>c. c \<noteq> CHR '':'') (rev s))"

lemma after_last_colon_append:
  assumes "CHR '':'' \<notin> set t"
  shows "after_last_colon (s @ '':'' @ t) = t"
proof -
  have "takeWhile (\<lambda>c. c \<noteq> CHR '':'') (rev t @ CHR '':'' # rev s) = rev t"
    using assms by (subst takeWhile_append2) auto
  then show ?thesis by (simp add: after_last_colon_def)
qed

text \<open>
  C36: The buffer of \<^const>\<open>TRANSOCKS_INET_ADDRPORTSTRLEN\<close> bytes is large enough for every address that
  \<^verbatim>\<open>inet_ntop\<close> can print (at most \<^const>\<open>INET6_ADDRSTRLEN\<close> bytes with the terminator): nothing is cut off, so
  the text behind the last colon is the port number. (\<^verbatim>\<open>inet_ntop\<close> is documented not to fail for the two families.)
\<close>

theorem sockaddr_port_str_complete:
  assumes ntop: "\<And>f a. f = AF_INET \<or> f = AF_INET6 \<Longrightarrow> \<exists>s. inet_ntop f a = Some s \<and> length s < INET6_ADDRSTRLEN"
    and fam: "ss_family sa = AF_INET \<or> ss_family sa = AF_INET6"
  shows "\<exists>s. generate_sockaddr_port_str inet_ntop junk TRANSOCKS_INET_ADDRPORTSTRLEN sa len = Some s
    \<and> length s < TRANSOCKS_INET_ADDRPORTSTRLEN
    \<and> dec_value (after_last_colon s) = ntohs (take 2 (ss_data sa))"
proof -
  let ?ip = "\<lambda>f a. case inet_ntop f a of None \<Rightarrow> junk | Some s \<Rightarrow> s" and ?port = "dec_digits (ntohs (take 2 (ss_data sa)))"
  have sizes: "TRANSOCKS_INET_ADDRPORTSTRLEN = 56" "INET6_ADDRSTRLEN = 46"
    by (simp_all add: TRANSOCKS_INET_ADDRPORTSTRLEN_def TRANSOCKS_INET_PORTSTRLEN_def INET6_ADDRSTRLEN_def)
  have fits: "length (?ip f a) + length ?port \<le> 50" if "f = AF_INET \<or> f = AF_INET6" for f a
    using ntop [OF that, of a] port_length [of "take 2 (ss_data sa)"] sizes by auto
  have last: "dec_value (after_last_colon (x @ '':'' @ ?port)) = ntohs (take 2 (ss_data sa))" for x
    using after_last_colon_append [OF dec_digits_no_colon] by (simp add: dec_value_digits)
  have v4: "snprintf 56 (?ip AF_INET a @ '':'' @ ?port) = ?ip AF_INET a @ '':'' @ ?port" for a
    using fits [of AF_INET a] by (simp add: snprintf_def)
  have v6: "snprintf 56 (''['' @ ?ip AF_INET6 a @ '']:'' @ ?port) = (''['' @ ?ip AF_INET6 a @ '']'') @ '':'' @ ?port" for a
    using fits [of AF_INET6 a] by (simp add: snprintf_def)
  define ip4 ip6 where "ip4 = ?ip AF_INET (sin_addr sa)" and "ip6 = ''['' @ ?ip AF_INET6 (sin6_addr sa) @ '']''"
  have "generate_sockaddr_port_str inet_ntop junk TRANSOCKS_INET_ADDRPORTSTRLEN sa len = Some (ip4 @ '':'' @ ?port)
      \<or> generate_sockaddr_port_str inet_ntop junk TRANSOCKS_INET_ADDRPORTSTRLEN sa len = Some (ip6 @ '':'' @ ?port)"
    using fam unfolding generate_sockaddr_port_str_def sizes Let_def sin_port_def sin6_port_def v4 v6 ip4_def ip6_def
    by auto
  moreover have "length (ip4 @ '':'' @ ?port) < 56" "length (ip6 @ '':'' @ ?port) < 56"
    using fits [of AF_INET "sin_addr sa"] fits [of AF_INET6 "sin6_addr sa"] by (simp_all add: ip4_def ip6_def)
  ultimately show ?thesis using last [of ip4] last [of ip6] unfolding sizes by blast
qed

theorem sockaddr_port_str_complete_witness:
  "\<exists>s. generate_sockaddr_port_str (os_inet_ntop demo_os) [] TRANSOCKS_INET_ADDRPORTSTRLEN demo_sockaddr 16 = Some s
    \<and> length s < TRANSOCKS_INET_ADDRPORTSTRLEN \<and> dec_value (after_last_colon s) = 8080"
  using sockaddr_port_str_complete [where inet_ntop = "os_inet_ntop demo_os" and junk = "[]" and sa = demo_sockaddr and len = 16]
  by (simp add: demo_os_def demo_sockaddr_def INET6_ADDRSTRLEN_def ntohs_def)

subsection \<open>Validation\<close>

lemma v4mapped_iff:
  assumes "length x = 16"
  shows "IN6_IS_ADDR_V4MAPPED x \<longleftrightarrow> (\<exists>v4. length v4 = 4 \<and> x = replicate 10 0 @ [0xff, 0xff] @ v4)"
proof
  assume "IN6_IS_ADDR_V4MAPPED x"
  then have "x = (replicate 10 0 @ [0xff, 0xff]) @ drop 12 x"
    unfolding IN6_IS_ADDR_V4MAPPED_def by (metis append_take_drop_id)
  moreover have "length (drop 12 x) = 4" using assms by simp
  ultimately show "\<exists>v4. length v4 = 4 \<and> x = replicate 10 0 @ [0xff, 0xff] @ v4"
    by (metis append_assoc)
qed (auto simp: IN6_IS_ADDR_V4MAPPED_def)

lemma port_zero_iff:
  assumes "length bs = 2"
  shows "bs = [0, 0] \<longleftrightarrow> ntohs bs = 0"
proof -
  obtain a b where "bs = [a, b]" using assms by (auto simp: numeral_2_eq_2 length_Suc_conv)
  then show ?thesis by (simp add: ntohs_def unat_eq_0)
qed

text \<open>
  C37: An address is accepted iff it is an IPv4 address with a port other than 0, or an IPv6 address with a
  port other than 0 that does not stand for an IPv4 address.
\<close>

theorem validateAddrPort_iff:
  assumes "wf_sockaddr ss"
  shows "validateAddrPort ss \<longleftrightarrow>
    (ss_family ss = AF_INET \<and> 0 < ntohs (sin_port ss))
    \<or> (ss_family ss = AF_INET6 \<and> 0 < ntohs (sin6_port ss)
        \<and> \<not> (\<exists>v4. length v4 = 4 \<and> sin6_addr ss = replicate 10 0 @ [0xff, 0xff] @ v4))"
  using v4mapped_iff [of "sin6_addr ss"] port_zero_iff [of "sin_port ss"] port_zero_iff [of "sin6_port ss"] assms
  by (simp add: validateAddrPort_def)

theorem validateAddrPort_iff_witness: "wf_sockaddr demo_sockaddr \<and> validateAddrPort demo_sockaddr"
proof -
  have wf: "wf_sockaddr demo_sockaddr" by (simp add: wf_sockaddr_def demo_sockaddr_def)
  moreover have "ss_family demo_sockaddr = AF_INET \<and> 0 < ntohs (sin_port demo_sockaddr)"
    by (simp add: demo_sockaddr_def ntohs_def sin_port_def)
  ultimately show ?thesis using validateAddrPort_iff [OF wf] by blast
qed

subsection \<open>Pipes and the original destination\<close>

text \<open>
  The original destination is asked for with the IPv6 option first and with the IPv4 option only
  if that fails; there is no answer iff both queries fail, and the answer is that of the query that succeeded.
\<close>

theorem getorigdst_fallback:
  "getorigdst os fd w =
     (let q6 = Getsockopt fd SOL_IPV6 IP6T_SO_ORIGINAL_DST; q4 = Getsockopt fd SOL_IP SO_ORIGINAL_DST;
          h6 = hist w; h4 = hist w @ [q6] in
      if os_ret os h6 q6 = 0 then (Some (os_sockaddr os h6 q6, os_socklen os h6 q6), after_calls [q6] w)
      else if os_ret os h4 q4 = 0 then (Some (os_sockaddr os h4 q4, os_socklen os h4 q4), after_calls [q6, q4] w)
      else (None, after_calls [q6, q4] w))"
  by (simp add: getorigdst_def sys_after_calls Let_def)

lemma setnonblocking_calls:
  "\<exists>cs. snd (setnonblocking os fd b w) = after_calls cs w \<and> (\<forall>x. Close x \<notin> set cs)"
  unfolding setnonblocking_def
  by (auto simp: sys_after_calls Let_def intro: exI [of _ "[]"])

text \<open>
  When \<^verbatim>\<open>pipe\<close> succeeded but \<^verbatim>\<open>createpipe\<close> reports failure, neither of the two new descriptors has
  been closed, and the caller does not learn them: both leak.
\<close>

theorem createpipe_failure_leaks:
  assumes "os_ret os (hist w) Pipe \<noteq> -1" and "createpipe os w = (None, w')"
  shows "\<exists>cs. w' = after_calls (Pipe # cs) w \<and> (\<forall>x. Close x \<notin> set cs)"
proof -
  obtain r x where p: "os_pipe os (hist w) = (r, x)" by fastforce
  let ?w = "after_calls [Pipe] w"
  obtain cs where cs: "snd (setnonblocking os r True ?w) = after_calls cs ?w" "\<forall>x. Close x \<notin> set cs"
    using setnonblocking_calls by blast
  obtain ds where ds: "snd (setnonblocking os x True (after_calls cs ?w)) = after_calls ds (after_calls cs ?w)"
    "\<forall>x. Close x \<notin> set ds"
    using setnonblocking_calls by blast
  have "w' = after_calls (Pipe # cs) w \<or> w' = after_calls (Pipe # cs @ ds) w"
    using assms cs(1) ds(1) p by (auto simp: createpipe_def sys_after_calls Let_def split: prod.splits if_splits)
  with cs(2) ds(2) show ?thesis by (metis UnE set_append)
qed

theorem createpipe_failure_leaks_witness:
  "\<exists>os w' cs. createpipe os demo_start = (None, w') \<and> w' = after_calls (Pipe # cs) demo_start \<and> (\<forall>x. Close x \<notin> set cs)"
proof -
  let ?os = "demo_os\<lparr>os_ret := \<lambda>h c. if c = Pipe then 0 else -1\<rparr>"
  have "createpipe ?os demo_start = (None, after_calls [Pipe, Fcntl_getfl 22] demo_start)"
    by (simp add: createpipe_def setnonblocking_def sys_after_calls demo_os_def Let_def)
  with createpipe_failure_leaks [OF _ this] show ?thesis by fastforce
qed

end
