(* ===== verification/Context.thy ===== *)
theory Context
  imports Util
begin

text \<open>
  Clients and their life cycle, from \<^verbatim>\<open>src/src/context.c\<close>: allocation, destruction and the
  handshake timer. (The functions there that go through the pump are in theory \<open>Pump\<close>, the
  global environment is in theory \<open>Program\<close>.)
\<close>

subsection \<open>Operations\<close>

definition garbage_sockaddr :: "os \<Rightarrow> sockaddr_storage" where
  "garbage_sockaddr os = \<lparr>ss_family = of_nat (os_garbage os), ss_data = replicate 126 (of_nat (os_garbage os))\<rparr>"

definition garbage_client :: "os \<Rightarrow> transocks_client" where
  "garbage_client os = (let g = os_garbage os in
     \<lparr>global_env = g, client_addr = g, dest_addr = g, client_fd = int g, relay_fd = int g,
      client_addr_len = g, dest_addr_len = g, client_bev = g, relay_bev = g, timeout_ev = g,
      user_arg = g, client_state = client_NEW, client_shutdown_read = odd g,
      client_shutdown_write = odd g, relay_shutdown_read = odd g, relay_shutdown_write = odd g\<rparr>)"

definition malloc_sockaddr :: "os \<Rightarrow> world \<Rightarrow> addr \<times> world" where
  "malloc_sockaddr os w =
     (let (p, w) = alloc os (Malloc T_sockaddr_storage) w in
      if p = NULL then (NULL, w)
      else (p, w\<lparr>sockaddrs := (sockaddrs w)(p \<mapsto> garbage_sockaddr os)\<rparr>))"

definition malloc_client :: "os \<Rightarrow> world \<Rightarrow> addr \<times> world" where
  "malloc_client os w =
     (let (p, w) = alloc os (Malloc T_client) w in
      if p = NULL then (NULL, w)
      else (p, w\<lparr>clients := (clients w)(p \<mapsto> garbage_client os),
                  nodes := (nodes w)(p \<mapsto> \<lparr>lh_next = os_garbage os, lh_prev = os_garbage os\<rparr>)\<rparr>))"

text \<open>The code behind the label \<^verbatim>\<open>fail\<close>; it reads the client also when its allocation failed.\<close>

definition client_new_fail :: "addr \<Rightarrow> world \<Rightarrow> (addr \<times> world) option" where
  "client_new_fail p w = do {
     c \<leftarrow> clients w p;
     w \<leftarrow> TRANSOCKS_FREE free_sockaddr (client_addr c) w;
     w \<leftarrow> on_client p (\<lambda>c. c\<lparr>client_addr := NULL\<rparr>) w;
     w \<leftarrow> TRANSOCKS_FREE free_sockaddr (dest_addr c) w;
     w \<leftarrow> on_client p (\<lambda>c. c\<lparr>dest_addr := NULL\<rparr>) w;
     w \<leftarrow> TRANSOCKS_FREE free_client_mem p w;
     Some (NULL, w)
   }"

definition transocks_client_new :: "os \<Rightarrow> addr \<Rightarrow> world \<Rightarrow> (addr \<times> world) option" where
  "transocks_client_new os env w = do {
     let (p, w) = malloc_client os w;
     if p = NULL then client_new_fail p w
     else do {
       w \<leftarrow> on_nodes (INIT_LIST_HEAD p) w;
       w \<leftarrow> on_client p (\<lambda>c. c\<lparr>global_env := NULL, client_addr := NULL, dest_addr := NULL,
              client_fd := -1, relay_fd := -1, client_bev := NULL, relay_bev := NULL,
              timeout_ev := NULL, user_arg := NULL, client_shutdown_read := False,
              client_shutdown_write := False, relay_shutdown_read := False,
              relay_shutdown_write := False, client_state := client_NEW\<rparr>) w;
       let (a, w) = malloc_sockaddr os w;
       w \<leftarrow> on_client p (\<lambda>c. c\<lparr>client_addr := a\<rparr>) w;
       let (d, w) = malloc_sockaddr os w;
       w \<leftarrow> on_client p (\<lambda>c. c\<lparr>dest_addr := d\<rparr>) w;
       if a = NULL \<or> d = NULL then client_new_fail p w
       else do {
         w \<leftarrow> on_client p (\<lambda>c. c\<lparr>global_env := env\<rparr>) w;
         Some (p, w)
       }
     }
   }"

definition transocks_client_free :: "os \<Rightarrow> addr \<Rightarrow> world \<Rightarrow> world option" where
  "transocks_client_free os p w =
     (if p = NULL then Some w
      else do {
        c \<leftarrow> clients w p;
        if client_state c = client_DESTROYED \<or> client_state c = client_DESTROYING then Some w
        else do {
          w \<leftarrow> on_client p (\<lambda>c. c\<lparr>client_state := client_DESTROYING\<rparr>) w;
          let w = (if client_fd c \<ge> 0 then snd (TRANSOCKS_SHUTDOWN os (client_fd c) SHUT_RDWR w) else w);
          let w = (if relay_fd c \<ge> 0 then snd (TRANSOCKS_SHUTDOWN os (relay_fd c) SHUT_RDWR w) else w);
          let (fd, w) = TRANSOCKS_CLOSE (client_fd c) w;
          w \<leftarrow> on_client p (\<lambda>c. c\<lparr>client_fd := fd\<rparr>) w;
          let (fd, w) = TRANSOCKS_CLOSE (relay_fd c) w;
          w \<leftarrow> on_client p (\<lambda>c. c\<lparr>relay_fd := fd\<rparr>) w;
          w \<leftarrow> (if timeout_ev c \<noteq> NULL then event_del (timeout_ev c) w else Some w);
          w \<leftarrow> TRANSOCKS_FREE event_free (timeout_ev c) w;
          w \<leftarrow> on_client p (\<lambda>c. c\<lparr>timeout_ev := NULL\<rparr>) w;
          w \<leftarrow> (if relay_bev c \<noteq> NULL
               then map_option snd (bufferevent_disable os (relay_bev c) EV_READ_WRITE w) else Some w);
          w \<leftarrow> (if client_bev c \<noteq> NULL
               then map_option snd (bufferevent_disable os (client_bev c) EV_READ_WRITE w) else Some w);
          w \<leftarrow> TRANSOCKS_FREE bufferevent_free (relay_bev c) w;
          w \<leftarrow> on_client p (\<lambda>c. c\<lparr>relay_bev := NULL\<rparr>) w;
          w \<leftarrow> TRANSOCKS_FREE bufferevent_free (client_bev c) w;
          w \<leftarrow> on_client p (\<lambda>c. c\<lparr>client_bev := NULL\<rparr>) w;
          w \<leftarrow> TRANSOCKS_FREE free_sockaddr (client_addr c) w;
          w \<leftarrow> on_client p (\<lambda>c. c\<lparr>client_addr := NULL\<rparr>) w;
          w \<leftarrow> TRANSOCKS_FREE free_sockaddr (dest_addr c) w;
          w \<leftarrow> on_client p (\<lambda>c. c\<lparr>dest_addr := NULL\<rparr>) w;
          w \<leftarrow> on_nodes (list_del p) w;
          w \<leftarrow> on_client p (\<lambda>c. c\<lparr>client_state := client_DESTROYED\<rparr>) w;
          TRANSOCKS_FREE free_client_mem p w
        }
      })"

definition transocks_client_set_timeout ::
  "os \<Rightarrow> addr \<Rightarrow> nat \<Rightarrow> callback \<Rightarrow> addr \<Rightarrow> world \<Rightarrow> (int \<times> world) option" where
  "transocks_client_set_timeout os p timeout ev_fn arg w = do {
     c \<leftarrow> clients w p;
     env \<leftarrow> envs w (global_env c);
     if timeout_ev c = NULL then do {
       let (ev, w) = event_new os (eventBaseLoop env) (-1) 0 ev_fn arg w;
       w \<leftarrow> on_client p (\<lambda>c. c\<lparr>timeout_ev := ev\<rparr>) w;
       if ev = NULL then Some (-1, w)
       else event_add os ev (Some timeout) w
     } else do {
       w \<leftarrow> event_del (timeout_ev c) w;
       (ret, w) \<leftarrow> event_assign os (timeout_ev c) (eventBaseLoop env) (-1) 0 ev_fn arg w;
       if ret \<noteq> 0 then Some (ret, w)
       else event_add os (timeout_ev c) (Some timeout) w
     }
   }"

text \<open>
  The report on one client, as printed on standard output; the two address buffers hold whatever
  was there before if the family is unknown.
\<close>

definition client_state_str :: "transocks_client_state \<Rightarrow> string" where
  "client_state_str st = (case st of
       client_NEW \<Rightarrow> ''client_NEW''
     | client_relay_connected \<Rightarrow> ''client_relay_connected''
     | client_socks5_finish_handshake \<Rightarrow> ''client_socks5_finish_handshake''
     | client_pumping_data \<Rightarrow> ''client_pumping_data''
     | client_DESTROYING \<Rightarrow> ''client_DESTROYING''
     | client_DESTROYED \<Rightarrow> ''client_DESTROYED'')"

definition nl :: string where
  "nl = [char_of (10 :: nat)]"

definition nl_tab :: string where
  "nl_tab = [char_of (10 :: nat), char_of (9 :: nat)]"

definition dec_int :: "int \<Rightarrow> string" where
  "dec_int i = (if i < 0 then ''-'' @ dec_digits (nat (- i)) else dec_digits (nat i))"

definition dec_bool :: "bool \<Rightarrow> string" where
  "dec_bool b = (if b then ''1'' else ''0'')"

definition sockaddr_str :: "os \<Rightarrow> sockaddr_storage \<Rightarrow> nat \<Rightarrow> string" where
  "sockaddr_str os ss len =
     (case generate_sockaddr_port_str (os_inet_ntop os) (os_junk_string os)
             TRANSOCKS_INET_ADDRPORTSTRLEN ss len of
        None \<Rightarrow> os_junk_string os
      | Some s \<Rightarrow> s)"

definition transocks_client_dump_info :: "os \<Rightarrow> addr \<Rightarrow> world \<Rightarrow> world option" where
  "transocks_client_dump_info os p w = do {
     c \<leftarrow> clients w p;
     src \<leftarrow> sockaddrs w (client_addr c);
     dst \<leftarrow> sockaddrs w (dest_addr c);
     let srcaddrstr = sockaddr_str os src (client_addr_len c);
     let destaddrstr = sockaddr_str os dst (dest_addr_len c);
     let w = emit (Fprintf_stdout (nl_tab @ srcaddrstr @ '' -> '' @ destaddrstr)) w;
     let w = emit (Fprintf_stdout (nl_tab @ ''fd: client '' @ dec_int (client_fd c)
               @ '' relay '' @ dec_int (relay_fd c))) w;
     let w = emit (Fprintf_stdout (nl_tab @ ''client shut R '' @ dec_bool (client_shutdown_read c)
               @ '' W '' @ dec_bool (client_shutdown_write c))) w;
     let w = emit (Fprintf_stdout (nl_tab @ ''relay shut R '' @ dec_bool (relay_shutdown_read c)
               @ '' W '' @ dec_bool (relay_shutdown_write c))) w;
     let w = emit (Fprintf_stdout (nl_tab @ ''client state: '' @ client_state_str (client_state c))) w;
     Some (emit (Fprintf_stdout (nl @ ''----------'' @ nl)) w)
   }"

subsection \<open>Destruction\<close>

text \<open>A pointer that is either \<^const>\<open>NULL\<close> or live.\<close>

definition null_or_live :: "(addr \<rightharpoonup> 'a) \<Rightarrow> addr \<Rightarrow> bool" where
  "null_or_live h p \<longleftrightarrow> p = NULL \<or> p \<in> dom h"

text \<open>
  What the code keeps true of a client between two callbacks: what it owns is live and owned once,
  it is not being destroyed, and its list entry is linked (in the list of the environment, or, before
  the listener adds it there, to itself).
\<close>

definition client_ok :: "world \<Rightarrow> addr \<Rightarrow> transocks_client \<Rightarrow> bool" where
  "client_ok w p c \<longleftrightarrow> p \<noteq> NULL \<and> clients w p = Some c
     \<and> client_state c \<noteq> client_DESTROYED \<and> client_state c \<noteq> client_DESTROYING
     \<and> null_or_live (sockaddrs w) (client_addr c) \<and> null_or_live (sockaddrs w) (dest_addr c)
     \<and> (client_addr c = dest_addr c \<longrightarrow> client_addr c = NULL)
     \<and> null_or_live (events w) (timeout_ev c)
     \<and> null_or_live (bevs w) (relay_bev c) \<and> null_or_live (bevs w) (client_bev c)
     \<and> (relay_bev c = client_bev c \<longrightarrow> relay_bev c = NULL)
     \<and> p \<in> dom (nodes w)"

text \<open>The calls made by the destruction of a client, in order.\<close>

definition client_free_calls :: "addr \<Rightarrow> transocks_client \<Rightarrow> call list" where
  "client_free_calls p c =
     (if client_fd c \<ge> 0 then [Shutdown (client_fd c) SHUT_RDWR] else [])
     @ (if relay_fd c \<ge> 0 then [Shutdown (relay_fd c) SHUT_RDWR] else [])
     @ (if client_fd c \<ge> 0 then [Close (client_fd c)] else [])
     @ (if relay_fd c \<ge> 0 then [Close (relay_fd c)] else [])
     @ (if timeout_ev c \<noteq> NULL then [Event_del (timeout_ev c)] else [])
     @ (if timeout_ev c \<noteq> NULL then [Event_free (timeout_ev c)] else [])
     @ (if relay_bev c \<noteq> NULL then [Bufferevent_disable (relay_bev c) EV_READ_WRITE] else [])
     @ (if client_bev c \<noteq> NULL then [Bufferevent_disable (client_bev c) EV_READ_WRITE] else [])
     @ (if relay_bev c \<noteq> NULL then [Bufferevent_free (relay_bev c)] else [])
     @ (if client_bev c \<noteq> NULL then [Bufferevent_free (client_bev c)] else [])
     @ (if client_addr c \<noteq> NULL then [Free (client_addr c)] else [])
     @ (if dest_addr c \<noteq> NULL then [Free (dest_addr c)] else [])
     @ [Free p]"


text \<open>The memory after the destruction of a client, given the unlinked list.\<close>

definition client_removed :: "addr \<Rightarrow> transocks_client \<Rightarrow> lheap \<Rightarrow> world \<Rightarrow> world" where
  "client_removed p c h' w = w\<lparr>clients := (clients w)(p := None), nodes := h'(p := None),
     sockaddrs := (sockaddrs w)(client_addr c := None, dest_addr c := None),
     events := (events w)(timeout_ev c := None),
     bevs := (bevs w)(relay_bev c := None, client_bev c := None)\<rparr>"

text \<open>Conditional releases in normal form: no case split, the condition is in the calls.\<close>

lemma cond_SHUTDOWN_simp:
  "(if fd \<ge> 0 then snd (TRANSOCKS_SHUTDOWN os fd how w) else w) =
     after_calls (if fd \<ge> 0 then [Shutdown fd how] else []) w"
  by (simp add: TRANSOCKS_SHUTDOWN_def sys_after_calls)

lemma TRANSOCKS_CLOSE_simp:
  "TRANSOCKS_CLOSE fd w = (if fd \<ge> 0 then -1 else fd, after_calls (if fd \<ge> 0 then [Close fd] else []) w)"
  by (simp add: TRANSOCKS_CLOSE_def emit_after_calls)

lemma FREE_sockaddr_simp:
  "null_or_live (sockaddrs w) a \<Longrightarrow> sockaddrs w NULL = None \<Longrightarrow>
   TRANSOCKS_FREE free_sockaddr a w =
     Some (after_calls (if a \<noteq> NULL then [Free a] else []) (w\<lparr>sockaddrs := (sockaddrs w)(a := None)\<rparr>))"
  by (auto simp: TRANSOCKS_FREE_def free_sockaddr_def emit_after_calls null_or_live_def fun_upd_idem)

definition events_deleted :: "addr \<Rightarrow> (addr \<rightharpoonup> ev_reg) \<Rightarrow> (addr \<rightharpoonup> ev_reg)" where
  "events_deleted e E = E(e := map_option (\<lambda>r. r\<lparr>ev_added := False\<rparr>) (E e))"

lemma events_deleted_other [simp]: "x \<noteq> e \<Longrightarrow> events_deleted e E x = E x"
  by (simp add: events_deleted_def)

lemma events_deleted_None [simp]: "events_deleted e E x = None \<longleftrightarrow> E x = None"
  by (simp add: events_deleted_def)

lemma null_or_live_deleted [simp]: "null_or_live (events_deleted e E) x = null_or_live E x"
  by (auto simp: null_or_live_def domIff)

lemma events_deleted_upd [simp]: "(events_deleted e E)(e := None) = E(e := None)"
  by (simp add: events_deleted_def)

lemma event_del_simp:
  "null_or_live (events w) e \<Longrightarrow> events w NULL = None \<Longrightarrow>
   (if e \<noteq> NULL then event_del e w else Some w) =
     Some (after_calls (if e \<noteq> NULL then [Event_del e] else []) (w\<lparr>events := events_deleted e (events w)\<rparr>))"
  by (auto simp: event_del_def emit_after_calls null_or_live_def events_deleted_def fun_upd_idem)

lemma FREE_event_simp:
  "null_or_live (events w) e \<Longrightarrow> events w NULL = None \<Longrightarrow>
   TRANSOCKS_FREE event_free e w =
     Some (after_calls (if e \<noteq> NULL then [Event_free e] else []) (w\<lparr>events := (events w)(e := None)\<rparr>))"
  by (auto simp: TRANSOCKS_FREE_def event_free_def emit_after_calls null_or_live_def fun_upd_idem)

lemma FREE_bev_simp:
  "null_or_live (bevs w) b \<Longrightarrow> bevs w NULL = None \<Longrightarrow>
   TRANSOCKS_FREE bufferevent_free b w =
     Some (after_calls (if b \<noteq> NULL then [Bufferevent_free b] else []) (w\<lparr>bevs := (bevs w)(b := None)\<rparr>))"
  by (auto simp: TRANSOCKS_FREE_def bufferevent_free_def emit_after_calls null_or_live_def fun_upd_idem)

definition bevs_disabled :: "os \<Rightarrow> call list \<Rightarrow> addr \<Rightarrow> 16 word \<Rightarrow> (addr \<rightharpoonup> bev_reg) \<Rightarrow> (addr \<rightharpoonup> bev_reg)" where
  "bevs_disabled os h b fl B =
     (if os_ret os h (Bufferevent_disable b fl) = 0
      then B(b := map_option (\<lambda>r. r\<lparr>bev_enabled := bev_enabled r AND NOT fl\<rparr>) (B b)) else B)"

lemma bevs_disabled_other [simp]: "x \<noteq> b \<Longrightarrow> bevs_disabled os h b fl B x = B x"
  by (simp add: bevs_disabled_def)

lemma bevs_disabled_None [simp]: "bevs_disabled os h b fl B x = None \<longleftrightarrow> B x = None"
  by (simp add: bevs_disabled_def)

lemma dom_bevs_disabled [simp]: "dom (bevs_disabled os h b fl B) = dom B"
  by (auto simp: bevs_disabled_def split: if_splits)

lemma null_or_live_disabled [simp]: "null_or_live (bevs_disabled os h b fl B) x = null_or_live B x"
  by (simp add: null_or_live_def)

lemma disable_bev_simp:
  "null_or_live (bevs w) b \<Longrightarrow> bevs w NULL = None \<Longrightarrow>
   (if b \<noteq> NULL then map_option snd (bufferevent_disable os b fl w) else Some w) =
     Some (after_calls (if b \<noteq> NULL then [Bufferevent_disable b fl] else [])
       (w\<lparr>bevs := bevs_disabled os (hist w) b fl (bevs w)\<rparr>))"
  by (auto simp: bufferevent_disable_def on_bev_def sys_after_calls null_or_live_def bevs_disabled_def fun_upd_idem)

lemma null_or_live_upd: "a \<noteq> b \<or> a = NULL \<Longrightarrow> null_or_live (h(b := None)) a = null_or_live h a"
  by (auto simp: null_or_live_def)

lemma if_None_eq_None: "((if b then None else x) = None) = (b \<or> x = None)"
  by simp

lemma transocks_client_free_run:
  assumes wf: "wf_world w" and ok: "client_ok w p c" and del: "list_del p (nodes w) = Some h'"
  shows "transocks_client_free os p w =
           Some (after_calls (client_free_calls p c) (client_removed p c h' w))"
proof -
  have live: "p \<noteq> NULL" "clients w p = Some c" "null_or_live (sockaddrs w) (client_addr c)"
    "null_or_live (sockaddrs w) (dest_addr c)" "null_or_live (events w) (timeout_ev c)"
    "null_or_live (bevs w) (relay_bev c)" "null_or_live (bevs w) (client_bev c)"
    "client_addr c = dest_addr c \<longrightarrow> client_addr c = NULL"
    "relay_bev c = client_bev c \<longrightarrow> relay_bev c = NULL"
    "client_state c \<noteq> client_DESTROYED" "client_state c \<noteq> client_DESTROYING"
    using ok by (simp_all add: client_ok_def)
  have sep: "null_or_live (B(relay_bev c := None)) (client_bev c) = null_or_live B (client_bev c)"
    "null_or_live (A(client_addr c := None)) (dest_addr c) = null_or_live A (dest_addr c)" for A B
    using ok by (auto simp: client_ok_def null_or_live_upd)
  have bevs_eq: "((bevs_disabled os i (client_bev c) fl (bevs_disabled os j (relay_bev c) fl B))
      (relay_bev c := None, client_bev c := None)) = B(relay_bev c := None, client_bev c := None)" for i j fl B
    by (rule ext) simp
  show ?thesis
    unfolding transocks_client_free_def
    using live wf del
    by (simp split del: if_split del: neq0_conv add: run_simps Let_def if_None_eq_None sep bevs_eq on_nodes_def
       cond_SHUTDOWN_simp TRANSOCKS_CLOSE_simp event_del_simp FREE_event_simp disable_bev_simp FREE_bev_simp
       FREE_sockaddr_simp TRANSOCKS_FREE_def [of free_client_mem] free_client_mem_def
       client_free_calls_def client_removed_def)
qed

text \<open>
  C11: The destruction of a client on the list of the environment is defined and makes exactly the calls
  of \<^const>\<open>client_free_calls\<close>, in that order: both sockets are shut down before either is closed, and every object
  the client owns is released once. The client, its addresses, its timer and its bufferevents are gone,
  nothing else is, and the list is the old one without this client.
\<close>

theorem client_free_exact:
  assumes "wf_world w" and "client_ok w p c" and d: "dlist (nodes w) head (us @ p # vs)"
  shows "\<exists>w'. transocks_client_free os p w = Some w' \<and> hist w' = hist w @ client_free_calls p c
    \<and> clients w' = (clients w)(p := None)
    \<and> sockaddrs w' = (sockaddrs w)(client_addr c := None, dest_addr c := None)
    \<and> events w' = (events w)(timeout_ev c := None)
    \<and> bevs w' = (bevs w)(relay_bev c := None, client_bev c := None)
    \<and> dlist (nodes w') head (us @ vs) \<and> dom (nodes w') = dom (nodes w) - {p}"
proof -
  obtain h' where h': "list_del p (nodes w) = Some h'" "dlist h' head (us @ vs)" "dom h' = dom (nodes w)"
    using list_del_law [OF d] by blast
  have "dlist (h'(p := None)) head (us @ vs)"
    using dlist_distinct [OF d] by (auto intro: dlist_agree [OF h'(2)])
  with transocks_client_free_run [OF assms(1,2) h'(1), of os] h'(3) show ?thesis
    by (simp add: client_removed_def)
qed

text \<open>A client as it is between two callbacks, alone on a list.\<close>

definition sample_client :: transocks_client where
  "sample_client = \<lparr>global_env = 1, client_addr = 4, dest_addr = 5, client_fd = 20, relay_fd = 21,
     client_addr_len = 16, dest_addr_len = 16, client_bev = 6, relay_bev = 7, timeout_ev = 8,
     user_arg = NULL, client_state = client_NEW, client_shutdown_read = False,
     client_shutdown_write = False, relay_shutdown_read = False, relay_shutdown_write = False\<rparr>"

definition sample_env :: transocks_global_env where
  "sample_env = \<lparr>pump_method_name = None, bind_addr = NULL, relay_addr = NULL, bind_addr_len = 0,
     relay_addr_len = 0, eventBaseLoop = 5, listener = NULL, sigterm_ev = NULL, sigint_ev = NULL,
     sighup_ev = NULL, sigusr1_ev = NULL, current_clients_dlinklist = 2\<rparr>"

definition sample_world :: world where
  "sample_world = demo_start\<lparr>brk := 9, clients := [3 \<mapsto> sample_client],
     nodes := [2 \<mapsto> \<lparr>lh_next = 3, lh_prev = 3\<rparr>, 3 \<mapsto> \<lparr>lh_next = 2, lh_prev = 2\<rparr>],
     sockaddrs := [4 \<mapsto> demo_sockaddr, 5 \<mapsto> demo_sockaddr],
     events := [8 \<mapsto> \<lparr>ev_fd = -1, ev_flags = 0, ev_cb = Socks5_timeout_cb, ev_arg = 3, ev_added = True\<rparr>],
     bevs := [6 \<mapsto> \<lparr>bev_fd = 20, bev_readcb = No_callback, bev_writecb = No_callback,
           bev_eventcb = No_callback, bev_arg = NULL, bev_enabled = EV_WRITE\<rparr>,
         7 \<mapsto> \<lparr>bev_fd = 21, bev_readcb = No_callback, bev_writecb = No_callback,
           bev_eventcb = Relay_onconnect_eventcb, bev_arg = 3, bev_enabled = EV_WRITE\<rparr>]\<rparr>"

lemma sample_ok: "wf_world sample_world" "client_ok sample_world 3 sample_client" "dlist (nodes sample_world) 2 [3]"
  by (simp_all add: sample_world_def sample_client_def demo_start_def wf_world_def client_ok_def null_or_live_def
      dlist_def path_def link_def get_next_def get_prev_def)

theorem client_free_exact_witness:
  "\<exists>w'. transocks_client_free demo_os 3 sample_world = Some w' \<and> dlist (nodes w') 2 [] \<and> clients w' = Map.empty
     \<and> hist w' = [Shutdown 20 SHUT_RDWR, Shutdown 21 SHUT_RDWR, Close 20, Close 21, Event_del 8, Event_free 8,
         Bufferevent_disable 7 EV_READ_WRITE, Bufferevent_disable 6 EV_READ_WRITE, Bufferevent_free 7,
         Bufferevent_free 6, Free 4, Free 5, Free 3]"
  using client_free_exact [OF sample_ok(1,2), of 2 "[]" "[]" demo_os] sample_ok(3)
  by (auto simp: client_free_calls_def sample_world_def sample_client_def demo_start_def)

subsection \<open>Allocation\<close>




text \<open>
  Without memory for the client, \<^verbatim>\<open>transocks_client_new\<close> reads the fields of the \<^const>\<open>NULL\<close> pointer on its error path
  instead of returning \<^const>\<open>NULL\<close>.
\<close>

theorem client_new_out_of_memory:
  assumes "wf_world w" and "\<not> os_alloc os (hist w) (Malloc T_client)"
  shows "transocks_client_new os e w = None"
  using assms by (simp add: transocks_client_new_def malloc_client_def alloc_simp client_new_fail_def)

theorem client_new_out_of_memory_witness:
  "transocks_client_new (demo_os\<lparr>os_alloc := \<lambda>h c. False\<rparr>) 1 sample_world = None"
  by (rule client_new_out_of_memory [OF sample_ok(1)]) simp

subsection \<open>The timer\<close>

text \<open>
  However often the handshake re-arms its timeout, the client has one timer: on success it is
  pending with the given function and argument, a timer that was there is reused after it has been
  deleted, and a failure is reported by a result other than 0. No other event and no other client changes.
\<close>

lemma set_timeout_single_timer:
  assumes wf: "wf_world w" and c: "clients w p = Some c" and env: "envs w (global_env c) = Some env"
    and t: "null_or_live (events w) (timeout_ev c)"
  shows "\<exists>r w' ev. transocks_client_set_timeout os p tv cb arg w = Some (r, w')
    \<and> clients w' = (clients w)(p \<mapsto> c\<lparr>timeout_ev := ev\<rparr>)
    \<and> (timeout_ev c \<noteq> NULL \<longrightarrow> ev = timeout_ev c)
    \<and> (\<forall>x. x \<noteq> ev \<longrightarrow> events w' x = events w x)
    \<and> (r = 0 \<longrightarrow> (\<exists>x. events w' ev = Some x \<and> ev_added x \<and> ev_cb x = cb \<and> ev_arg x = arg)
          \<and> last (hist w') = Event_add ev (Some tv))"
proof (cases "timeout_ev c = NULL")
  case True
  have b: "0 < brk w" using wf by (simp add: wf_world_def)
  let ?ev = "if os_alloc os (hist w) (Event_new (eventBaseLoop env) (-1) 0 cb arg) then brk w else NULL"
  show ?thesis
    unfolding transocks_client_set_timeout_def using True c env b
    by (simp add: event_new_def alloc_simp on_client_def event_add_def sys_after_calls Let_def)
      (auto intro!: exI [of _ ?ev])
next
  case False
  obtain x where x: "events w (timeout_ev c) = Some x" using t False by (auto simp: null_or_live_def)
  have same: "(clients w)(p \<mapsto> c) = clients w" using c by (simp add: fun_upd_idem)
  show ?thesis
    unfolding transocks_client_set_timeout_def using False c env x
    by (simp add: event_del_def event_assign_def on_client_def event_add_def sys_after_calls emit_after_calls Let_def)
      (auto intro!: exI [of _ "timeout_ev c"] simp: same)
qed

theorem set_timeout_single_timer_witness:
  "\<exists>r w' x. transocks_client_set_timeout demo_os 3 60 Socks5_timeout_cb 3 (sample_world\<lparr>envs := [1 \<mapsto> sample_env]\<rparr>) = Some (r, w')
     \<and> r = 0 \<and> events w' 8 = Some x \<and> ev_added x \<and> last (hist w') = Event_add 8 (Some 60)"
proof -
  let ?w = "sample_world\<lparr>envs := [1 \<mapsto> sample_env]\<rparr>"
  have "wf_world ?w" using sample_ok(1) by (simp add: wf_world_def sample_world_def)
  moreover have "clients ?w 3 = Some sample_client" "envs ?w (global_env sample_client) = Some sample_env"
    "null_or_live (events ?w) (timeout_ev sample_client)" "timeout_ev sample_client = 8"
    by (simp_all add: sample_world_def sample_client_def null_or_live_def)
  moreover have "\<exists>w'. transocks_client_set_timeout demo_os 3 60 Socks5_timeout_cb 3 ?w = Some (0, w')"
    by (simp add: transocks_client_set_timeout_def sample_world_def sample_client_def event_del_def event_assign_def
        event_add_def sys_after_calls emit_after_calls demo_os_def)
  ultimately show ?thesis
    using set_timeout_single_timer [of ?w 3 sample_client sample_env demo_os 60 Socks5_timeout_cb 3] by auto
qed

end
