(* ===== verification/Ownership.thy ===== *)
theory Ownership
  imports Context
begin

text \<open>
  Who owns which object. Each client owns the socket addresses, bufferevents and the timer its
  fields point to; \<open>owned_once\<close> says that the live objects of a kind are exactly those owned by
  some client together with a rest \<open>R\<close>, and that no object has two owners. The lemmas say how the
  partition changes when objects are created, handed over and released.
\<close>

definition own_sockaddrs :: "transocks_client \<Rightarrow> addr set" where
  "own_sockaddrs c = {client_addr c, dest_addr c} - {NULL}"

definition own_bevs :: "transocks_client \<Rightarrow> addr set" where
  "own_bevs c = {client_bev c, relay_bev c} - {NULL}"

definition own_events :: "transocks_client \<Rightarrow> addr set" where
  "own_events c = {timeout_ev c} - {NULL}"

lemmas own_defs = own_sockaddrs_def own_bevs_def own_events_def

text \<open>A family of disjoint parts and a rest that make up \<open>A\<close>.\<close>

definition parts :: "addr set \<Rightarrow> (addr \<Rightarrow> addr set) \<Rightarrow> addr set \<Rightarrow> bool" where
  "parts R f A \<longleftrightarrow> A = R \<union> (\<Union>p. f p) \<and> (\<forall>p. f p \<inter> R = {}) \<and> (\<forall>p q. p \<noteq> q \<longrightarrow> f p \<inter> f q = {})"

lemma parts_iff:
  "parts R f A \<longleftrightarrow> (\<forall>a. a \<in> A \<longleftrightarrow> a \<in> R \<or> (\<exists>p. a \<in> f p)) \<and> (\<forall>p a. a \<in> f p \<longrightarrow> a \<notin> R)
     \<and> (\<forall>p q a. a \<in> f p \<longrightarrow> a \<in> f q \<longrightarrow> p = q)"
  unfolding parts_def by blast

lemma parts_remove: "parts R f A \<Longrightarrow> parts R (f(p := {})) (A - f p)"
  unfolding parts_iff by (simp add: fun_upd_def) metis

lemma parts_create: "parts R f A \<Longrightarrow> a \<notin> A \<Longrightarrow> parts (insert a R) f (insert a A)"
  unfolding parts_iff by (metis insert_iff)

lemma parts_give: "parts (insert a R) f A \<Longrightarrow> a \<notin> R \<Longrightarrow> parts R (f(p := insert a (f p))) A"
  unfolding parts_iff fun_upd_apply
  apply (intro conjI allI)
    apply (metis insert_iff)
   apply (metis insert_iff)
  apply (metis insert_iff)
  done

lemma parts_release: "parts (insert a R) f A \<Longrightarrow> a \<notin> R \<Longrightarrow> parts R f (A - {a})"
  unfolding parts_iff by (metis Diff_iff insert_iff singletonD)

text \<open>What the client at an address owns.\<close>

definition owned_by :: "(addr \<rightharpoonup> transocks_client) \<Rightarrow> (transocks_client \<Rightarrow> addr set) \<Rightarrow> addr \<Rightarrow> addr set" where
  "owned_by cl own p = (case cl p of None \<Rightarrow> {} | Some c \<Rightarrow> own c)"

definition owned_once ::
  "addr set \<Rightarrow> (addr \<rightharpoonup> transocks_client) \<Rightarrow> (transocks_client \<Rightarrow> addr set) \<Rightarrow> addr set \<Rightarrow> bool" where
  "owned_once R cl own A \<longleftrightarrow> parts R (owned_by cl own) A"

lemma owned_by_Some [simp]: "cl p = Some c \<Longrightarrow> owned_by cl own p = own c"
  by (simp add: owned_by_def)

lemma owned_by_None [simp]: "cl p = None \<Longrightarrow> owned_by cl own p = {}"
  by (simp add: owned_by_def)

lemma owned_by_upd [simp]:
  "owned_by (cl(p \<mapsto> c)) own = (owned_by cl own)(p := own c)"
  "owned_by (cl(p := None)) own = (owned_by cl own)(p := {})"
  by (simp_all add: owned_by_def fun_eq_iff)

lemma owned_once_live: "owned_once R cl own A \<Longrightarrow> cl p = Some c \<Longrightarrow> own c \<subseteq> A"
  unfolding owned_once_def parts_iff by (metis owned_by_Some subsetI)

lemma owned_once_rest: "owned_once R cl own A \<Longrightarrow> R \<subseteq> A"
  unfolding owned_once_def parts_iff by blast

lemma owned_once_cases:
  assumes "owned_once R cl own A" and "a \<in> A"
  obtains "a \<in> R" | p c where "cl p = Some c" "a \<in> own c"
  using assms unfolding owned_once_def parts_iff owned_by_def by (auto split: option.splits)

lemma owned_once_unique:
  "owned_once R cl own A \<Longrightarrow> cl p = Some c \<Longrightarrow> cl q = Some d \<Longrightarrow> a \<in> own c \<Longrightarrow> a \<in> own d \<Longrightarrow> p = q"
  unfolding owned_once_def parts_iff by (metis owned_by_Some)

lemma owned_once_not_rest: "owned_once R cl own A \<Longrightarrow> cl p = Some c \<Longrightarrow> a \<in> own c \<Longrightarrow> a \<notin> R"
  unfolding owned_once_def parts_iff by (metis owned_by_Some)

lemma owned_once_upd:
  assumes "owned_once R cl own A" and "cl p = Some c" and "own c' = own c"
  shows "owned_once R (cl(p \<mapsto> c')) own A"
  using assms by (simp add: owned_once_def fun_upd_idem)

text \<open>A client goes away with everything it owns.\<close>

lemma owned_once_remove:
  assumes "owned_once R cl own A" and "cl p = Some c"
  shows "owned_once R (cl(p := None)) own (A - own c)"
  using parts_remove [of R "owned_by cl own" A p] assms by (simp add: owned_once_def)

text \<open>A new client owns nothing yet.\<close>

lemma owned_once_new:
  assumes "owned_once R cl own A" and "cl p = None" and "own c = {}"
  shows "owned_once R (cl(p \<mapsto> c)) own A"
  using assms by (simp add: owned_once_def fun_upd_idem)

text \<open>A new object belongs to the rest first, and is then handed to a client.\<close>

lemma owned_once_create:
  assumes "owned_once R cl own A" and "a \<notin> A"
  shows "owned_once (insert a R) cl own (insert a A)"
  using assms by (simp add: owned_once_def parts_create)

lemma owned_once_give:
  assumes "owned_once (insert a R) cl own A" and "a \<notin> R" and "cl p = Some c" and "own c' = insert a (own c)"
  shows "owned_once R (cl(p \<mapsto> c')) own A"
  using parts_give [of a R "owned_by cl own" A p] assms by (simp add: owned_once_def)

text \<open>An object of the rest is released.\<close>

lemma owned_once_release:
  assumes "owned_once (insert a R) cl own A" and "a \<notin> R"
  shows "owned_once R cl own (A - {a})"
  using assms by (simp add: owned_once_def parts_release)

end
