(* ===== verification/Socks5_Wire.thy ===== *)
theory Socks5_Wire
  imports Platform
begin

text \<open>
  The messages of \<^verbatim>\<open>src/src/socks5.h\<close>: packed structures, so the bytes on the wire are the fields
  in declaration order without padding. The contract of such a structure is the locale
  \<open>packed_struct\<close>. RFC 1928 is stated independently as a parser of client requests and of server
  replies, against which the messages of the program are checked.
\<close>

subsection \<open>Constants\<close>

definition SOCKS5_VERSION :: byte where "SOCKS5_VERSION = 0x05"
definition SOCKS5_METHOD_NOAUTH :: byte where "SOCKS5_METHOD_NOAUTH = 0x00"
definition SOCKS5_METHOD_UNACCEPTABLE :: byte where "SOCKS5_METHOD_UNACCEPTABLE = 0xff"
definition SOCKS5_CMD_CONNECT :: byte where "SOCKS5_CMD_CONNECT = 0x01"
definition SOCKS5_ATYP_IPV4 :: byte where "SOCKS5_ATYP_IPV4 = 0x01"
definition SOCKS5_ATYP_DOMAIN :: byte where "SOCKS5_ATYP_DOMAIN = 0x03"
definition SOCKS5_ATYP_IPV6 :: byte where "SOCKS5_ATYP_IPV6 = 0x04"
definition SOCKS5_REP_SUCCEEDED :: byte where "SOCKS5_REP_SUCCEEDED = 0x00"

lemmas socks5_consts = SOCKS5_VERSION_def SOCKS5_METHOD_NOAUTH_def SOCKS5_METHOD_UNACCEPTABLE_def
  SOCKS5_CMD_CONNECT_def SOCKS5_ATYP_IPV4_def SOCKS5_ATYP_DOMAIN_def SOCKS5_ATYP_IPV6_def
  SOCKS5_REP_SUCCEEDED_def

subsection \<open>Structures and their bytes\<close>

record socks_method_select_request =
  msr_ver :: byte
  msr_nmethods :: byte
  msr_methods :: "byte list"

record socks_request_ipv4 =
  r4_ver :: byte
  r4_cmd :: byte
  r4_rsv :: byte
  r4_atyp :: byte
  r4_addr :: "byte list"
  r4_port :: "byte list"

record socks_request_ipv6 =
  r6_ver :: byte
  r6_cmd :: byte
  r6_rsv :: byte
  r6_atyp :: byte
  r6_addr :: "byte list"
  r6_port :: "byte list"

record socks_response_header =
  rh_ver :: byte
  rh_rep :: byte
  rh_rsv :: byte
  rh_atyp :: byte

record socks_method_select_response =
  msp_ver :: byte
  msp_method :: byte

definition method_select_request_bytes :: "socks_method_select_request \<Rightarrow> byte list" where
  "method_select_request_bytes r = [msr_ver r, msr_nmethods r] @ msr_methods r"

definition request_ipv4_bytes :: "socks_request_ipv4 \<Rightarrow> byte list" where
  "request_ipv4_bytes r = [r4_ver r, r4_cmd r, r4_rsv r, r4_atyp r] @ r4_addr r @ r4_port r"

definition request_ipv6_bytes :: "socks_request_ipv6 \<Rightarrow> byte list" where
  "request_ipv6_bytes r = [r6_ver r, r6_cmd r, r6_rsv r, r6_atyp r] @ r6_addr r @ r6_port r"

text \<open>Overlaying a structure on received memory; reading past the end is undefined.\<close>

definition as_response_header :: "byte list \<Rightarrow> socks_response_header option" where
  "as_response_header m =
     (if length m < 4 then None
      else Some \<lparr>rh_ver = m ! 0, rh_rep = m ! 1, rh_rsv = m ! 2, rh_atyp = m ! 3\<rparr>)"

definition as_method_select_response :: "byte list \<Rightarrow> socks_method_select_response option" where
  "as_method_select_response m =
     (if length m < 2 then None else Some \<lparr>msp_ver = m ! 0, msp_method = m ! 1\<rparr>)"

subsection \<open>The contract of a packed structure\<close>

locale packed_struct =
  fixes sz :: nat
    and enc :: "'a \<Rightarrow> byte list"
    and dec :: "byte list \<Rightarrow> 'a"
    and wf :: "'a \<Rightarrow> bool"
  assumes enc_length: "wf x \<Longrightarrow> length (enc x) = sz"
    and dec_enc: "wf x \<Longrightarrow> dec (enc x) = x"
begin

lemma enc_inj: "wf x \<Longrightarrow> wf y \<Longrightarrow> enc x = enc y \<Longrightarrow> x = y"
  using dec_enc by metis

text \<open>On a byte stream, a structure is recovered whatever follows it.\<close>

lemma dec_stream: "wf x \<Longrightarrow> dec (take sz (enc x @ rest)) = x \<and> drop sz (enc x @ rest) = rest"
  by (simp add: enc_length dec_enc)

lemma stream_inj: "wf x \<Longrightarrow> wf y \<Longrightarrow> enc x @ r = enc y @ s \<Longrightarrow> x = y \<and> r = s"
  using dec_stream by metis

end

definition method_select_request_of :: "byte list \<Rightarrow> socks_method_select_request" where
  "method_select_request_of m = \<lparr>msr_ver = m ! 0, msr_nmethods = m ! 1, msr_methods = take 1 (drop 2 m)\<rparr>"

definition request_ipv4_of :: "byte list \<Rightarrow> socks_request_ipv4" where
  "request_ipv4_of m = \<lparr>r4_ver = m ! 0, r4_cmd = m ! 1, r4_rsv = m ! 2, r4_atyp = m ! 3,
     r4_addr = take 4 (drop 4 m), r4_port = take 2 (drop 8 m)\<rparr>"

definition request_ipv6_of :: "byte list \<Rightarrow> socks_request_ipv6" where
  "request_ipv6_of m = \<lparr>r6_ver = m ! 0, r6_cmd = m ! 1, r6_rsv = m ! 2, r6_atyp = m ! 3,
     r6_addr = take 16 (drop 4 m), r6_port = take 2 (drop 20 m)\<rparr>"

interpretation msr: packed_struct 3 method_select_request_bytes method_select_request_of
  "\<lambda>r. length (msr_methods r) = 1"
  by unfold_locales (auto simp: method_select_request_bytes_def method_select_request_of_def)

interpretation r4: packed_struct 10 request_ipv4_bytes request_ipv4_of
  "\<lambda>r. length (r4_addr r) = 4 \<and> length (r4_port r) = 2"
  by unfold_locales (auto simp: request_ipv4_bytes_def request_ipv4_of_def)

interpretation r6: packed_struct 22 request_ipv6_bytes request_ipv6_of
  "\<lambda>r. length (r6_addr r) = 16 \<and> length (r6_port r) = 2"
  by unfold_locales (auto simp: request_ipv6_bytes_def request_ipv6_of_def)

subsection \<open>RFC 1928\<close>

datatype socks_address = IPv4 "byte list" | IPv6 "byte list" | Domain "byte list"

text \<open>Address type, address and port: the common tail of requests and replies, and the rest of the input.\<close>

definition rfc1928_address :: "byte list \<Rightarrow> (socks_address \<times> byte list \<times> byte list) option" where
  "rfc1928_address bs = (case bs of
       [] \<Rightarrow> None
     | atyp # rest \<Rightarrow>
         if atyp = 1 then
           (if length rest < 6 then None else Some (IPv4 (take 4 rest), take 2 (drop 4 rest), drop 6 rest))
         else if atyp = 4 then
           (if length rest < 18 then None else Some (IPv6 (take 16 rest), take 2 (drop 16 rest), drop 18 rest))
         else if atyp = 3 then
           (case rest of
              [] \<Rightarrow> None
            | n # rest' \<Rightarrow> if length rest' < unat n + 2 then None
                else Some (Domain (take (unat n) rest'), take 2 (drop (unat n) rest'), drop (unat n + 2) rest'))
         else None)"

text \<open>A request: version, command, reserved zero byte, address. \<open>CONNECT\<close> is command 1.\<close>

definition rfc1928_connect :: "byte list \<Rightarrow> (socks_address \<times> byte list \<times> byte list) option" where
  "rfc1928_connect bs = (case bs of
       ver # cmd # rsv # rest \<Rightarrow> if ver = 5 \<and> cmd = 1 \<and> rsv = 0 then rfc1928_address rest else None
     | _ \<Rightarrow> None)"

text \<open>A successful reply: version, reply code 0, reserved byte, bound address; and what follows it.\<close>

definition rfc1928_success_reply :: "byte list \<Rightarrow> (socks_address \<times> byte list \<times> byte list) option" where
  "rfc1928_success_reply bs = (case bs of
       ver # rep # rsv # rest \<Rightarrow> if ver = 5 \<and> rep = 0 then rfc1928_address rest else None
     | _ \<Rightarrow> None)"

text \<open>Method negotiation: the methods a client offers.\<close>

definition rfc1928_methods :: "byte list \<Rightarrow> byte list option" where
  "rfc1928_methods bs = (case bs of
       ver # n # rest \<Rightarrow> if ver = 5 \<and> length rest = unat n then Some rest else None
     | _ \<Rightarrow> None)"

lemma rfc1928_connect_ipv4:
  assumes "length a = 4" and "length pt = 2"
  shows "rfc1928_connect ([5, 1, 0, 1] @ a @ pt @ rest) = Some (IPv4 a, pt, rest)"
  using assms by (simp add: rfc1928_connect_def rfc1928_address_def)

lemma rfc1928_connect_ipv6:
  assumes "length a = 16" and "length pt = 2"
  shows "rfc1928_connect ([5, 1, 0, 4] @ a @ pt @ rest) = Some (IPv6 a, pt, rest)"
  using assms by (simp add: rfc1928_connect_def rfc1928_address_def)

end
