(* ===== verification/Bufferpump.thy ===== *)
theory Bufferpump
  imports Context
begin

text \<open>
  The copying pump of \<^verbatim>\<open>src/src/bufferpump.c\<close>: two bufferevents whose callbacks move what was
  read on one side to the output buffer of the other, and which track the half-closed directions
  of the connection in the four shutdown flags of the client.
\<close>

unbundle bit_operations_syntax

subsection \<open>Operations\<close>

definition transocks_bufferpump_free :: "os \<Rightarrow> addr \<Rightarrow> world \<Rightarrow> world option" where
  "transocks_bufferpump_free os p w = do {
     c \<leftarrow> clients w p;
     (_, w) \<leftarrow> bufferevent_disable os (client_bev c) EV_READ_WRITE w;
     (_, w) \<leftarrow> bufferevent_disable os (relay_bev c) EV_READ_WRITE w;
     TRANSOCKS_FREE (transocks_client_free os) p w
   }"

definition transocks_check_close :: "transocks_client \<Rightarrow> bool" where
  "transocks_check_close c \<longleftrightarrow> client_shutdown_read c \<and> client_shutdown_write c
     \<and> relay_shutdown_read c \<and> relay_shutdown_write c"

text \<open>The common end of the callbacks: free the pump once all four directions are shut down.\<close>

definition bufferpump_check_close :: "os \<Rightarrow> addr \<Rightarrow> world \<Rightarrow> world option" where
  "bufferpump_check_close os p w = do {
     c \<leftarrow> clients w p;
     if transocks_check_close c then TRANSOCKS_FREE (transocks_bufferpump_free os) p w
     else Some w
   }"

definition transocks_client_readcb :: "os \<Rightarrow> addr \<Rightarrow> world \<Rightarrow> world option" where
  "transocks_client_readcb os p w = do {
     c \<leftarrow> clients w p;
     srclen \<leftarrow> evbuffer_get_length os (Input (client_bev c)) w;
     (_, w) \<leftarrow> evbuffer_remove_buffer os (Input (client_bev c)) (Output (relay_bev c)) srclen w;
     Some w
   }"

definition transocks_relay_writecb :: "os \<Rightarrow> addr \<Rightarrow> world \<Rightarrow> world option" where
  "transocks_relay_writecb os p w = do {
     c \<leftarrow> clients w p;
     n \<leftarrow> evbuffer_get_length os (Output (relay_bev c)) w;
     w \<leftarrow> (if 0 = n \<and> client_shutdown_read c then do {
            w \<leftarrow> on_client p (\<lambda>c. c\<lparr>relay_shutdown_write := True\<rparr>) w;
            Some (snd (TRANSOCKS_SHUTDOWN os (relay_fd c) SHUT_WR w))
          } else Some w);
     bufferpump_check_close os p w
   }"

definition transocks_relay_readcb :: "os \<Rightarrow> addr \<Rightarrow> world \<Rightarrow> world option" where
  "transocks_relay_readcb os p w = do {
     c \<leftarrow> clients w p;
     srclen \<leftarrow> evbuffer_get_length os (Input (relay_bev c)) w;
     (_, w) \<leftarrow> evbuffer_remove_buffer os (Input (relay_bev c)) (Output (client_bev c)) srclen w;
     Some w
   }"

definition transocks_client_writecb :: "os \<Rightarrow> addr \<Rightarrow> world \<Rightarrow> world option" where
  "transocks_client_writecb os p w = do {
     c \<leftarrow> clients w p;
     n \<leftarrow> evbuffer_get_length os (Output (client_bev c)) w;
     w \<leftarrow> (if 0 = n \<and> relay_shutdown_read c then do {
            w \<leftarrow> on_client p (\<lambda>c. c\<lparr>client_shutdown_write := True\<rparr>) w;
            Some (snd (TRANSOCKS_SHUTDOWN os (client_fd c) SHUT_WR w))
          } else Some w);
     bufferpump_check_close os p w
   }"

definition transocks_client_eventcb :: "os \<Rightarrow> 16 word \<Rightarrow> addr \<Rightarrow> world \<Rightarrow> world option" where
  "transocks_client_eventcb os bev_events p w = do {
     c \<leftarrow> clients w p;
     if TRANSOCKS_CHKBIT bev_events BEV_EVENT_READING \<and> TRANSOCKS_CHKBIT bev_events BEV_EVENT_EOF then do {
       w \<leftarrow> on_client p (\<lambda>c. c\<lparr>client_shutdown_read := True\<rparr>) w;
       (_, w) \<leftarrow> bufferevent_disable os (client_bev c) EV_READ w;
       let w = snd (TRANSOCKS_SHUTDOWN os (client_fd c) SHUT_RD w);
       n \<leftarrow> evbuffer_get_length os (Output (relay_bev c)) w;
       c \<leftarrow> clients w p;
       w \<leftarrow> (if 0 = n \<and> client_shutdown_read c then do {
              w \<leftarrow> on_client p (\<lambda>c. c\<lparr>relay_shutdown_write := True\<rparr>) w;
              Some (snd (TRANSOCKS_SHUTDOWN os (relay_fd c) SHUT_WR w))
            } else Some w);
       bufferpump_check_close os p w
     }
     else if TRANSOCKS_CHKBIT bev_events BEV_EVENT_WRITING
       \<and> ((TRANSOCKS_CHKBIT bev_events BEV_EVENT_ERROR \<and> os_errno os (hist w) = ECONNRESET)
          \<or> TRANSOCKS_CHKBIT bev_events BEV_EVENT_EOF) then do {
       w \<leftarrow> on_client p (\<lambda>c. c\<lparr>client_shutdown_write := True\<rparr>) w;
       (_, w) \<leftarrow> bufferevent_disable os (client_bev c) EV_WRITE w;
       let w = snd (TRANSOCKS_SHUTDOWN os (client_fd c) SHUT_WR w);
       bufferpump_check_close os p w
     }
     else if TRANSOCKS_CHKBIT bev_events BEV_EVENT_ERROR then
       TRANSOCKS_FREE (transocks_bufferpump_free os) p w
     else bufferpump_check_close os p w
   }"

definition transocks_relay_eventcb :: "os \<Rightarrow> 16 word \<Rightarrow> addr \<Rightarrow> world \<Rightarrow> world option" where
  "transocks_relay_eventcb os bev_events p w = do {
     c \<leftarrow> clients w p;
     if TRANSOCKS_CHKBIT bev_events BEV_EVENT_READING \<and> TRANSOCKS_CHKBIT bev_events BEV_EVENT_EOF then do {
       w \<leftarrow> on_client p (\<lambda>c. c\<lparr>relay_shutdown_read := True\<rparr>) w;
       (_, w) \<leftarrow> bufferevent_disable os (relay_bev c) EV_READ w;
       let w = snd (TRANSOCKS_SHUTDOWN os (relay_fd c) SHUT_RD w);
       n \<leftarrow> evbuffer_get_length os (Output (client_bev c)) w;
       c \<leftarrow> clients w p;
       w \<leftarrow> (if 0 = n \<and> relay_shutdown_read c then do {
              w \<leftarrow> on_client p (\<lambda>c. c\<lparr>client_shutdown_write := True\<rparr>) w;
              Some (snd (TRANSOCKS_SHUTDOWN os (client_fd c) SHUT_WR w))
            } else Some w);
       bufferpump_check_close os p w
     }
     else if TRANSOCKS_CHKBIT bev_events BEV_EVENT_WRITING
       \<and> ((TRANSOCKS_CHKBIT bev_events BEV_EVENT_ERROR \<and> os_errno os (hist w) = ECONNRESET)
          \<or> TRANSOCKS_CHKBIT bev_events BEV_EVENT_EOF) then do {
       w \<leftarrow> on_client p (\<lambda>c. c\<lparr>relay_shutdown_write := True\<rparr>) w;
       (_, w) \<leftarrow> bufferevent_disable os (relay_bev c) EV_WRITE w;
       let w = snd (TRANSOCKS_SHUTDOWN os (relay_fd c) SHUT_WR w);
       bufferpump_check_close os p w
     }
     else if TRANSOCKS_CHKBIT bev_events BEV_EVENT_ERROR then
       TRANSOCKS_FREE (transocks_bufferpump_free os) p w
     else bufferpump_check_close os p w
   }"

definition transocks_bufferpump_start_pump :: "os \<Rightarrow> addr \<Rightarrow> world \<Rightarrow> (int \<times> world) option" where
  "transocks_bufferpump_start_pump os p w = do {
     c \<leftarrow> clients w p;
     w \<leftarrow> bufferevent_setwatermark (client_bev c) EV_READ_WRITE 0 TRANSOCKS_BUFSIZE w;
     w \<leftarrow> bufferevent_setwatermark (relay_bev c) EV_READ_WRITE 0 TRANSOCKS_BUFSIZE w;
     w \<leftarrow> bufferevent_setcb (client_bev c) Bufferpump_client_readcb Bufferpump_client_writecb
            Bufferpump_client_eventcb p w;
     w \<leftarrow> bufferevent_setcb (relay_bev c) Bufferpump_relay_readcb Bufferpump_relay_writecb
            Bufferpump_relay_eventcb p w;
     (err, w) \<leftarrow> bufferevent_enable os (client_bev c) EV_READ_WRITE w;
     if err \<noteq> 0 then Some (-1, w)
     else do {
       (err, w) \<leftarrow> bufferevent_enable os (relay_bev c) EV_READ_WRITE w;
       if err \<noteq> 0 then Some (-1, w) else Some (0, w)
     }
   }"

subsection \<open>Half-closed connections\<close>

text \<open>
  The abstract view of the pump: which of the four half-connections have been shut down. A transition
  ends with the new flags, or with \<^const>\<open>None\<close> when the connection is over and has been released.
\<close>

record half_close =
  cl_read :: bool
  cl_write :: bool
  rl_read :: bool
  rl_write :: bool

definition flags_of :: "transocks_client \<Rightarrow> half_close" where
  "flags_of c = \<lparr>cl_read = client_shutdown_read c, cl_write = client_shutdown_write c,
     rl_read = relay_shutdown_read c, rl_write = relay_shutdown_write c\<rparr>"

definition with_flags :: "half_close \<Rightarrow> transocks_client \<Rightarrow> transocks_client" where
  "with_flags fl c = c\<lparr>client_shutdown_read := cl_read fl, client_shutdown_write := cl_write fl,
     relay_shutdown_read := rl_read fl, relay_shutdown_write := rl_write fl\<rparr>"

definition closing :: "half_close \<Rightarrow> half_close option" where
  "closing fl = (if cl_read fl \<and> cl_write fl \<and> rl_read fl \<and> rl_write fl then None else Some fl)"

text \<open>The output towards one side has been written; \<open>n\<close> bytes are left.\<close>

definition relay_written :: "nat \<Rightarrow> half_close \<Rightarrow> half_close option" where
  "relay_written n fl = closing (if n = 0 \<and> cl_read fl then fl\<lparr>rl_write := True\<rparr> else fl)"

definition client_written :: "nat \<Rightarrow> half_close \<Rightarrow> half_close option" where
  "client_written n fl = closing (if n = 0 \<and> rl_read fl then fl\<lparr>cl_write := True\<rparr> else fl)"

text \<open>What a condition reported by libevent amounts to.\<close>

datatype condition = Read_eof | Write_closed | Failed | Other

definition condition_of :: "16 word \<Rightarrow> int \<Rightarrow> condition" where
  "condition_of what err =
     (if TRANSOCKS_CHKBIT what BEV_EVENT_READING \<and> TRANSOCKS_CHKBIT what BEV_EVENT_EOF then Read_eof
      else if TRANSOCKS_CHKBIT what BEV_EVENT_WRITING
        \<and> (TRANSOCKS_CHKBIT what BEV_EVENT_ERROR \<and> err = ECONNRESET \<or> TRANSOCKS_CHKBIT what BEV_EVENT_EOF) then Write_closed
      else if TRANSOCKS_CHKBIT what BEV_EVENT_ERROR then Failed
      else Other)"

fun client_condition :: "condition \<Rightarrow> nat \<Rightarrow> half_close \<Rightarrow> half_close option" where
  "client_condition Read_eof n fl = relay_written n (fl\<lparr>cl_read := True\<rparr>)"
| "client_condition Write_closed n fl = closing (fl\<lparr>cl_write := True\<rparr>)"
| "client_condition Failed n fl = None"
| "client_condition Other n fl = closing fl"

fun relay_condition :: "condition \<Rightarrow> nat \<Rightarrow> half_close \<Rightarrow> half_close option" where
  "relay_condition Read_eof n fl = client_written n (fl\<lparr>rl_read := True\<rparr>)"
| "relay_condition Write_closed n fl = closing (fl\<lparr>rl_write := True\<rparr>)"
| "relay_condition Failed n fl = None"
| "relay_condition Other n fl = closing fl"

subsection \<open>A client the pump works on\<close>

definition pump_ok :: "addr \<Rightarrow> transocks_client \<Rightarrow> addr \<Rightarrow> addr list \<Rightarrow> addr list \<Rightarrow> world \<Rightarrow> bool" where
  "pump_ok p c head us vs w \<longleftrightarrow> wf_world w \<and> client_ok w p c \<and> client_bev c \<noteq> NULL \<and> relay_bev c \<noteq> NULL
     \<and> dlist (nodes w) head (us @ p # vs)"

text \<open>What a transition does to the memory, for a result in the abstract view.\<close>

definition pump_effect ::
  "addr \<Rightarrow> transocks_client \<Rightarrow> addr \<Rightarrow> addr list \<Rightarrow> addr list \<Rightarrow> world \<Rightarrow> half_close option \<Rightarrow> world \<Rightarrow> bool" where
  "pump_effect p c head us vs w res w' \<longleftrightarrow> wf_world w' \<and> (case res of
       None \<Rightarrow> clients w' = (clients w)(p := None) \<and> dlist (nodes w') head (us @ vs)
         \<and> sockaddrs w' = (sockaddrs w)(client_addr c := None, dest_addr c := None)
         \<and> events w' = (events w)(timeout_ev c := None)
         \<and> dom (bevs w') = dom (bevs w) - {client_bev c, relay_bev c}
     | Some fl \<Rightarrow> clients w' = (clients w)(p \<mapsto> with_flags fl c) \<and> nodes w' = nodes w
         \<and> sockaddrs w' = sockaddrs w \<and> events w' = events w \<and> dom (bevs w') = dom (bevs w))"

lemma pump_okD:
  assumes "pump_ok p c head us vs w"
  shows "clients w p = Some c" "p \<noteq> NULL" "client_bev c \<in> dom (bevs w)" "relay_bev c \<in> dom (bevs w)"
    "wf_world w"
  using assms by (auto simp: pump_ok_def client_ok_def null_or_live_def)

lemma pump_ok_calls [simp]: "pump_ok p c head us vs (after_calls cs w) = pump_ok p c head us vs w"
  by (simp add: pump_ok_def client_ok_def)

lemma pump_ok_bevs: "dom B = dom (bevs w) \<Longrightarrow> pump_ok p c head us vs (w\<lparr>bevs := B\<rparr>) = pump_ok p c head us vs w"
  by (simp add: pump_ok_def client_ok_def null_or_live_def wf_world_def)

lemma pump_ok_flags:
  "pump_ok p c head us vs w \<Longrightarrow> pump_ok p (with_flags fl c) head us vs (w\<lparr>clients := (clients w)(p \<mapsto> with_flags fl c)\<rparr>)"
  by (auto simp: pump_ok_def client_ok_def wf_world_def with_flags_def)

lemma flags_of_with_flags [simp]: "flags_of (with_flags fl c) = fl" "with_flags (flags_of c) c = c"
  "with_flags fl (with_flags fl' c) = with_flags fl c"
  by (simp_all add: flags_of_def with_flags_def)

lemma disable_run:
  assumes "b \<in> dom (bevs w)"
  shows "\<exists>n B. bufferevent_disable os b fl w = Some (n, after_calls [Bufferevent_disable b fl] (w\<lparr>bevs := B\<rparr>))
    \<and> dom B = dom (bevs w)"
proof -
  obtain r where "bevs w b = Some r" using assms by blast
  then have "bufferevent_disable os b fl w = Some (os_ret os (hist w) (Bufferevent_disable b fl),
      after_calls [Bufferevent_disable b fl] (w\<lparr>bevs := bevs_disabled os (hist w) b fl (bevs w)\<rparr>))"
    by (simp add: bufferevent_disable_def on_bev_def sys_after_calls bevs_disabled_def)
  then show ?thesis using dom_bevs_disabled by blast
qed

lemma wf_client_removed:
  assumes "wf_world w" and "dom h' = dom (nodes w)"
  shows "wf_world (client_removed p c h' w)"
  using assms by (auto simp: wf_world_def client_removed_def)

lemma bufferpump_free_effect:
  assumes P: "pump_ok p c head us vs w"
  shows "holds (transocks_bufferpump_free os p w) (pump_effect p c head us vs w None)"
proof -
  note D = pump_okD [OF P]
  obtain n B where B: "bufferevent_disable os (client_bev c) EV_READ_WRITE w =
      Some (n, after_calls [Bufferevent_disable (client_bev c) EV_READ_WRITE] (w\<lparr>bevs := B\<rparr>))" "dom B = dom (bevs w)"
    using disable_run [OF D(3)] by blast
  obtain n' B' where B': "bufferevent_disable os (relay_bev c) EV_READ_WRITE
      (after_calls [Bufferevent_disable (client_bev c) EV_READ_WRITE] (w\<lparr>bevs := B\<rparr>)) = Some (n',
      after_calls [Bufferevent_disable (client_bev c) EV_READ_WRITE, Bufferevent_disable (relay_bev c) EV_READ_WRITE] (w\<lparr>bevs := B'\<rparr>))"
    "dom B' = dom (bevs w)"
    using disable_run [of "relay_bev c" "after_calls [Bufferevent_disable (client_bev c) EV_READ_WRITE] (w\<lparr>bevs := B\<rparr>)" os EV_READ_WRITE]
      D(4) B(2) by auto
  let ?w = "after_calls [Bufferevent_disable (client_bev c) EV_READ_WRITE, Bufferevent_disable (relay_bev c) EV_READ_WRITE] (w\<lparr>bevs := B'\<rparr>)"
  have ok: "pump_ok p c head us vs ?w" using P B'(2) by (simp add: pump_ok_bevs)
  then obtain h' where h': "list_del p (nodes w) = Some h'" "dlist h' head (us @ vs)" "p \<notin> set (head # us @ vs)"
    "dom h' = dom (nodes w)"
    using list_del_law [of "nodes w" head us p vs] dlist_distinct [of "nodes w" head "us @ p # vs"]
    by (auto simp: pump_ok_def)
  have "transocks_client_free os p ?w = Some (after_calls (client_free_calls p c) (client_removed p c h' ?w))"
    using transocks_client_free_run [of ?w p c h' os] ok h'(1) by (simp add: pump_ok_def)
  moreover have "dlist (h'(p := None)) head (us @ vs)"
    using h'(3) by (auto intro: dlist_agree [OF h'(2)])
  moreover have "wf_world (client_removed p c h' ?w)"
    using ok h'(4) by (intro wf_client_removed) (simp_all add: pump_ok_def)
  ultimately show ?thesis
    using D(1,2) B B' h'
    by (auto simp: transocks_bufferpump_free_def TRANSOCKS_FREE_def pump_effect_def client_removed_def)
qed

lemma check_close_effect:
  assumes P: "pump_ok p c head us vs w"
  shows "holds (bufferpump_check_close os p w) (pump_effect p c head us vs w (closing (flags_of c)))"
proof (cases "transocks_check_close c")
  case True
  then have "closing (flags_of c) = None" by (simp add: transocks_check_close_def closing_def flags_of_def)
  with True pump_okD [OF P] bufferpump_free_effect [OF P] show ?thesis
    by (simp add: bufferpump_check_close_def TRANSOCKS_FREE_def)
next
  case False
  then have "closing (flags_of c) = Some (flags_of c)"
    by (auto simp: transocks_check_close_def closing_def flags_of_def)
  with False pump_okD [OF P] show ?thesis
    by (simp add: bufferpump_check_close_def pump_effect_def fun_upd_idem)
qed

text \<open>The effect seen from an earlier state that differs in the flags, the registrations and the calls.\<close>

lemma pump_effect_from:
  assumes "pump_effect p (with_flags fl c) head us vs
      (after_calls cs (w\<lparr>clients := (clients w)(p \<mapsto> with_flags fl c), bevs := B\<rparr>)) res w'"
    and "dom B = dom (bevs w)"
  shows "pump_effect p c head us vs w res w'"
  using assms by (auto simp: pump_effect_def with_flags_def split: option.splits)

lemma check_close_from:
  assumes P: "pump_ok p c head us vs w" and B: "dom B = dom (bevs w)"
  shows "holds (bufferpump_check_close os p
      (after_calls cs (w\<lparr>clients := (clients w)(p \<mapsto> with_flags fl c), bevs := B\<rparr>)))
    (pump_effect p c head us vs w (closing fl))"
proof -
  have "pump_ok p (with_flags fl c) head us vs
      (after_calls cs (w\<lparr>clients := (clients w)(p \<mapsto> with_flags fl c), bevs := B\<rparr>))"
    using pump_ok_flags [OF P, of fl] B by (simp add: pump_ok_bevs)
  from check_close_effect [OF this, of os] pump_effect_from [OF _ B] show ?thesis
    by (auto elim: holds_mono)
qed

lemma check_close_from_same:
  assumes P: "pump_ok p c head us vs w"
  shows "holds (bufferpump_check_close os p (after_calls cs (w\<lparr>clients := (clients w)(p \<mapsto> with_flags fl c)\<rparr>)))
    (pump_effect p c head us vs w (closing fl))"
proof -
  have "w\<lparr>clients := (clients w)(p \<mapsto> with_flags fl c), bevs := bevs w\<rparr> = w\<lparr>clients := (clients w)(p \<mapsto> with_flags fl c)\<rparr>"
    by simp
  with check_close_from [OF P, of "bevs w" os cs fl] show ?thesis by simp
qed

lemma flag_updates:
  "c\<lparr>client_shutdown_read := True\<rparr> = with_flags ((flags_of c)\<lparr>cl_read := True\<rparr>) c"
  "c\<lparr>client_shutdown_write := True\<rparr> = with_flags ((flags_of c)\<lparr>cl_write := True\<rparr>) c"
  "c\<lparr>relay_shutdown_read := True\<rparr> = with_flags ((flags_of c)\<lparr>rl_read := True\<rparr>) c"
  "c\<lparr>relay_shutdown_write := True\<rparr> = with_flags ((flags_of c)\<lparr>rl_write := True\<rparr>) c"
  by (simp_all add: with_flags_def flags_of_def)

lemma relay_written_effect:
  assumes P: "pump_ok p c head us vs w"
  shows "holds (transocks_relay_writecb os p w)
    (pump_effect p c head us vs w (relay_written (length (os_data os (hist w) (Output (relay_bev c)))) (flags_of c)))"
proof -
  note D = pump_okD [OF P]
  have cr: "client_shutdown_read c = cl_read (flags_of c)" by (simp add: flags_of_def)
  obtain r where "bevs w (relay_bev c) = Some r" using D(4) by blast
  with D(1) check_close_effect [OF P] check_close_from_same [OF P, where cs = "[Shutdown (relay_fd c) SHUT_WR]"]
  show ?thesis
    by (simp add: transocks_relay_writecb_def evbuffer_get_length_def on_client_def TRANSOCKS_SHUTDOWN_def
        sys_after_calls flag_updates relay_written_def cr)
qed

lemma client_written_effect:
  assumes P: "pump_ok p c head us vs w"
  shows "holds (transocks_client_writecb os p w)
    (pump_effect p c head us vs w (client_written (length (os_data os (hist w) (Output (client_bev c)))) (flags_of c)))"
proof -
  note D = pump_okD [OF P]
  have cr: "relay_shutdown_read c = rl_read (flags_of c)" by (simp add: flags_of_def)
  obtain r where "bevs w (client_bev c) = Some r" using D(3) by blast
  with D(1) check_close_effect [OF P] check_close_from_same [OF P, where cs = "[Shutdown (client_fd c) SHUT_WR]"]
  show ?thesis
    by (simp add: transocks_client_writecb_def evbuffer_get_length_def on_client_def TRANSOCKS_SHUTDOWN_def
        sys_after_calls flag_updates client_written_def cr)
qed

text \<open>The event callbacks by condition.\<close>

lemma cond_if:
  "(case (if a then Read_eof else if b then Write_closed else if d then Failed else Other) of
      Read_eof \<Rightarrow> x | Write_closed \<Rightarrow> y | Failed \<Rightarrow> z | Other \<Rightarrow> u) =
   (if a then x else if b then y else if d then z else u)"
  by simp

lemma client_eventcb_cases:
  "transocks_client_eventcb os what p w = clients w p \<bind> (\<lambda>c.
     case condition_of what (os_errno os (hist w)) of
       Read_eof \<Rightarrow> do {
         w \<leftarrow> on_client p (\<lambda>c. c\<lparr>client_shutdown_read := True\<rparr>) w;
         (_, w) \<leftarrow> bufferevent_disable os (client_bev c) EV_READ w;
         let w = snd (TRANSOCKS_SHUTDOWN os (client_fd c) SHUT_RD w);
         n \<leftarrow> evbuffer_get_length os (Output (relay_bev c)) w;
         c \<leftarrow> clients w p;
         w \<leftarrow> (if 0 = n \<and> client_shutdown_read c then do {
                w \<leftarrow> on_client p (\<lambda>c. c\<lparr>relay_shutdown_write := True\<rparr>) w;
                Some (snd (TRANSOCKS_SHUTDOWN os (relay_fd c) SHUT_WR w))
              } else Some w);
         bufferpump_check_close os p w
       }
     | Write_closed \<Rightarrow> do {
         w \<leftarrow> on_client p (\<lambda>c. c\<lparr>client_shutdown_write := True\<rparr>) w;
         (_, w) \<leftarrow> bufferevent_disable os (client_bev c) EV_WRITE w;
         let w = snd (TRANSOCKS_SHUTDOWN os (client_fd c) SHUT_WR w);
         bufferpump_check_close os p w
       }
     | Failed \<Rightarrow> TRANSOCKS_FREE (transocks_bufferpump_free os) p w
     | Other \<Rightarrow> bufferpump_check_close os p w)"
  by (simp only: transocks_client_eventcb_def condition_of_def cond_if)

lemma relay_eventcb_cases:
  "transocks_relay_eventcb os what p w = clients w p \<bind> (\<lambda>c.
     case condition_of what (os_errno os (hist w)) of
       Read_eof \<Rightarrow> do {
         w \<leftarrow> on_client p (\<lambda>c. c\<lparr>relay_shutdown_read := True\<rparr>) w;
         (_, w) \<leftarrow> bufferevent_disable os (relay_bev c) EV_READ w;
         let w = snd (TRANSOCKS_SHUTDOWN os (relay_fd c) SHUT_RD w);
         n \<leftarrow> evbuffer_get_length os (Output (client_bev c)) w;
         c \<leftarrow> clients w p;
         w \<leftarrow> (if 0 = n \<and> relay_shutdown_read c then do {
                w \<leftarrow> on_client p (\<lambda>c. c\<lparr>client_shutdown_write := True\<rparr>) w;
                Some (snd (TRANSOCKS_SHUTDOWN os (client_fd c) SHUT_WR w))
              } else Some w);
         bufferpump_check_close os p w
       }
     | Write_closed \<Rightarrow> do {
         w \<leftarrow> on_client p (\<lambda>c. c\<lparr>relay_shutdown_write := True\<rparr>) w;
         (_, w) \<leftarrow> bufferevent_disable os (relay_bev c) EV_WRITE w;
         let w = snd (TRANSOCKS_SHUTDOWN os (relay_fd c) SHUT_WR w);
         bufferpump_check_close os p w
       }
     | Failed \<Rightarrow> TRANSOCKS_FREE (transocks_bufferpump_free os) p w
     | Other \<Rightarrow> bufferpump_check_close os p w)"
  by (simp only: transocks_relay_eventcb_def condition_of_def cond_if)

lemma clients_bevs_swap: "clients_update f (bevs_update g w) = bevs_update g (clients_update f w)"
  by simp

lemma with_flags_fields [simp]:
  "client_fd (with_flags fl c) = client_fd c" "relay_fd (with_flags fl c) = relay_fd c"
  "client_bev (with_flags fl c) = client_bev c" "relay_bev (with_flags fl c) = relay_bev c"
  "client_shutdown_read (with_flags fl c) = cl_read fl" "relay_shutdown_read (with_flags fl c) = rl_read fl"
  by (simp_all add: with_flags_def)

lemma disable_flags_run:
  assumes "pump_ok p c head us vs w" and "b = client_bev c \<or> b = relay_bev c"
  shows "\<exists>n B. bufferevent_disable os b ev (w\<lparr>clients := (clients w)(p \<mapsto> with_flags fl c)\<rparr>) =
      Some (n, after_calls [Bufferevent_disable b ev] (w\<lparr>clients := (clients w)(p \<mapsto> with_flags fl c), bevs := B\<rparr>))
    \<and> dom B = dom (bevs w)"
  using disable_run [of b "w\<lparr>clients := (clients w)(p \<mapsto> with_flags fl c)\<rparr>" os ev] pump_okD(3,4) [OF assms(1)] assms(2)
  by auto

lemmas eventcb_simps = on_client_def flag_updates TRANSOCKS_SHUTDOWN_def sys_after_calls Let_def
  evbuffer_get_length_def clients_bevs_swap

lemma client_eventcb_effect:
  assumes P: "pump_ok p c head us vs w"
    and n: "n = length (os_data os (hist w @ [Bufferevent_disable (client_bev c) EV_READ, Shutdown (client_fd c) SHUT_RD]) (Output (relay_bev c)))"
  shows "holds (transocks_client_eventcb os what p w)
    (pump_effect p c head us vs w (client_condition (condition_of what (os_errno os (hist w))) n (flags_of c)))"
proof -
  note D = pump_okD [OF P]
  let ?fl = "flags_of c"
  show ?thesis
  proof (cases "condition_of what (os_errno os (hist w))")
    case Read_eof
    obtain m B where B: "bufferevent_disable os (client_bev c) EV_READ (w\<lparr>clients := (clients w)(p \<mapsto> with_flags (?fl\<lparr>cl_read := True\<rparr>) c)\<rparr>) =
        Some (m, after_calls [Bufferevent_disable (client_bev c) EV_READ] (w\<lparr>clients := (clients w)(p \<mapsto> with_flags (?fl\<lparr>cl_read := True\<rparr>) c), bevs := B\<rparr>))"
      "dom B = dom (bevs w)"
      using disable_flags_run [OF P] by blast
    obtain r where "B (relay_bev c) = Some r" using D(4) B(2) by blast
    with Read_eof D(1) B(1) check_close_from [OF P B(2)] show ?thesis
      by (simp add: client_eventcb_cases eventcb_simps relay_written_def n)
  next
    case Write_closed
    obtain m B where B: "bufferevent_disable os (client_bev c) EV_WRITE (w\<lparr>clients := (clients w)(p \<mapsto> with_flags (?fl\<lparr>cl_write := True\<rparr>) c)\<rparr>) =
        Some (m, after_calls [Bufferevent_disable (client_bev c) EV_WRITE] (w\<lparr>clients := (clients w)(p \<mapsto> with_flags (?fl\<lparr>cl_write := True\<rparr>) c), bevs := B\<rparr>))"
      "dom B = dom (bevs w)"
      using disable_flags_run [OF P] by blast
    with Write_closed D(1) check_close_from [OF P B(2)] show ?thesis
      by (simp add: client_eventcb_cases eventcb_simps)
  next
    case Failed
    with D bufferpump_free_effect [OF P] show ?thesis by (simp add: client_eventcb_cases TRANSOCKS_FREE_def)
  next
    case Other
    with D check_close_effect [OF P] show ?thesis by (simp add: client_eventcb_cases)
  qed
qed

lemma relay_eventcb_effect:
  assumes P: "pump_ok p c head us vs w"
    and n: "n = length (os_data os (hist w @ [Bufferevent_disable (relay_bev c) EV_READ, Shutdown (relay_fd c) SHUT_RD]) (Output (client_bev c)))"
  shows "holds (transocks_relay_eventcb os what p w)
    (pump_effect p c head us vs w (relay_condition (condition_of what (os_errno os (hist w))) n (flags_of c)))"
proof -
  note D = pump_okD [OF P]
  let ?fl = "flags_of c"
  show ?thesis
  proof (cases "condition_of what (os_errno os (hist w))")
    case Read_eof
    obtain m B where B: "bufferevent_disable os (relay_bev c) EV_READ (w\<lparr>clients := (clients w)(p \<mapsto> with_flags (?fl\<lparr>rl_read := True\<rparr>) c)\<rparr>) =
        Some (m, after_calls [Bufferevent_disable (relay_bev c) EV_READ] (w\<lparr>clients := (clients w)(p \<mapsto> with_flags (?fl\<lparr>rl_read := True\<rparr>) c), bevs := B\<rparr>))"
      "dom B = dom (bevs w)"
      using disable_flags_run [OF P] by blast
    obtain r where "B (client_bev c) = Some r" using D(3) B(2) by blast
    with Read_eof D(1) B(1) check_close_from [OF P B(2)] show ?thesis
      by (simp add: relay_eventcb_cases eventcb_simps client_written_def n)
  next
    case Write_closed
    obtain m B where B: "bufferevent_disable os (relay_bev c) EV_WRITE (w\<lparr>clients := (clients w)(p \<mapsto> with_flags (?fl\<lparr>rl_write := True\<rparr>) c)\<rparr>) =
        Some (m, after_calls [Bufferevent_disable (relay_bev c) EV_WRITE] (w\<lparr>clients := (clients w)(p \<mapsto> with_flags (?fl\<lparr>rl_write := True\<rparr>) c), bevs := B\<rparr>))"
      "dom B = dom (bevs w)"
      using disable_flags_run [OF P] by blast
    with Write_closed D(1) check_close_from [OF P B(2)] show ?thesis
      by (simp add: relay_eventcb_cases eventcb_simps)
  next
    case Failed
    with D bufferpump_free_effect [OF P] show ?thesis by (simp add: relay_eventcb_cases TRANSOCKS_FREE_def)
  next
    case Other
    with D check_close_effect [OF P] show ?thesis by (simp add: relay_eventcb_cases)
  qed
qed

subsection \<open>Properties\<close>

lemma sample_pump: "pump_ok 3 sample_client 2 [] [] sample_world"
  using sample_ok by (simp add: pump_ok_def sample_client_def)

text \<open>The output left for \<open>b'\<close> after reading from \<open>b\<close> has been disabled and \<open>fd\<close> shut down for reading.\<close>

definition unwritten :: "os \<Rightarrow> world \<Rightarrow> addr \<Rightarrow> int \<Rightarrow> addr \<Rightarrow> nat" where
  "unwritten os w b fd b' =
     length (os_data os (hist w @ [Bufferevent_disable b EV_READ, Shutdown fd SHUT_RD]) (Output b'))"

text \<open>
  C8: The event callbacks of both sides implement the abstract transitions on the four half-close flags: an end
  of input shuts the reading side and, once the output of the other side is empty, its writing side; a closed
  or reset writing side is recorded; any other error releases the connection; and the connection is released
  exactly when all four directions are shut down. On release the client, its addresses, timer and bufferevents
  are gone and its entry is unlinked; otherwise nothing but the flags and the enabled events changes.
\<close>

theorem bufferpump_events_refine:
  assumes P: "pump_ok p c head us vs w"
  shows "(\<exists>w'. transocks_client_eventcb os what p w = Some w' \<and> pump_effect p c head us vs w
      (client_condition (condition_of what (os_errno os (hist w))) (unwritten os w (client_bev c) (client_fd c) (relay_bev c)) (flags_of c)) w')
    \<and> (\<exists>w'. transocks_relay_eventcb os what p w = Some w' \<and> pump_effect p c head us vs w
      (relay_condition (condition_of what (os_errno os (hist w))) (unwritten os w (relay_bev c) (relay_fd c) (client_bev c)) (flags_of c)) w')"
  using client_eventcb_effect [OF P refl, of os what] relay_eventcb_effect [OF P refl, of os what]
  by (simp add: holds_def unwritten_def)

theorem bufferpump_events_refine_witness:
  "\<exists>w'. transocks_client_eventcb demo_os 0x11 3 sample_world = Some w'
     \<and> pump_effect 3 sample_client 2 [] [] sample_world
         (Some \<lparr>cl_read = True, cl_write = False, rl_read = False, rl_write = True\<rparr>) w'"
  using bufferpump_events_refine [OF sample_pump, of demo_os "0x11"]
  by (simp add: condition_of_def TRANSOCKS_CHKBIT_def relay_written_def closing_def flags_of_def sample_client_def
      unwritten_def demo_os_def)



text \<open>
  The read callbacks move everything that has arrived on one side to the output of the other side, in
  one call, and change nothing else.
\<close>

theorem bufferpump_reads_move_all:
  assumes P: "pump_ok p c head us vs w"
  shows "transocks_client_readcb os p w = Some (after_calls [Evbuffer_remove_buffer (Input (client_bev c)) (Output (relay_bev c))
      (length (os_data os (hist w) (Input (client_bev c))))] w)
    \<and> transocks_relay_readcb os p w = Some (after_calls [Evbuffer_remove_buffer (Input (relay_bev c)) (Output (client_bev c))
      (length (os_data os (hist w) (Input (relay_bev c))))] w)"
  using pump_okD [OF P]
  by (auto simp: transocks_client_readcb_def transocks_relay_readcb_def evbuffer_get_length_def
      evbuffer_remove_buffer_def sys_after_calls)

theorem bufferpump_reads_move_all_witness:
  "transocks_client_readcb demo_os 3 sample_world =
     Some (after_calls [Evbuffer_remove_buffer (Input 6) (Output 7) 0] sample_world)"
  using bufferpump_reads_move_all [OF sample_pump, of demo_os] by (simp add: sample_client_def demo_os_def)

lemma pump_effect_ok:
  assumes P: "pump_ok p c head us vs w" and E: "pump_effect p c head us vs w (Some fl) w'"
  shows "pump_ok p (with_flags fl c) head us vs w'"
  using P E by (auto simp: pump_ok_def pump_effect_def client_ok_def null_or_live_def with_flags_def)

text \<open>
  C10: A connection that both sides close is released: with both outputs written, an end of input from the
  client and one from the relay end the connection, in either order.
\<close>

theorem both_sides_closed_released:
  assumes P: "pump_ok p c head us vs w" and opened: "flags_of c = \<lparr>cl_read = False, cl_write = False, rl_read = False, rl_write = False\<rparr>"
    and eof: "TRANSOCKS_CHKBIT what BEV_EVENT_READING" "TRANSOCKS_CHKBIT what BEV_EVENT_EOF"
    and written: "\<And>h b. os_data os h (Output b) = []"
  shows "(\<exists>w'. transocks_client_eventcb os what p w \<bind> transocks_relay_eventcb os what p = Some w'
        \<and> clients w' = (clients w)(p := None) \<and> dlist (nodes w') head (us @ vs))
    \<and> (\<exists>w'. transocks_relay_eventcb os what p w \<bind> transocks_client_eventcb os what p = Some w'
        \<and> clients w' = (clients w)(p := None) \<and> dlist (nodes w') head (us @ vs))"
proof -
  have cond: "condition_of what err = Read_eof" for err using eof by (simp add: condition_of_def)
  note spec = cond written opened relay_written_def client_written_def closing_def
  obtain w1 where w1: "transocks_client_eventcb os what p w = Some w1"
    "pump_effect p c head us vs w (Some \<lparr>cl_read = True, cl_write = False, rl_read = False, rl_write = True\<rparr>) w1"
    using client_eventcb_effect [OF P refl, of os what] by (auto simp: holds_def spec)
  obtain w2 where w2: "transocks_relay_eventcb os what p w = Some w2"
    "pump_effect p c head us vs w (Some \<lparr>cl_read = False, cl_write = True, rl_read = True, rl_write = False\<rparr>) w2"
    using relay_eventcb_effect [OF P refl, of os what] by (auto simp: holds_def spec)
  show ?thesis
    using w1 w2 relay_eventcb_effect [OF pump_effect_ok [OF P w1(2)] refl, of os what]
      client_eventcb_effect [OF pump_effect_ok [OF P w2(2)] refl, of os what]
    by (auto simp: holds_def spec pump_effect_def)
qed

theorem both_sides_closed_released_witness:
  "\<exists>w'. transocks_client_eventcb demo_os 0x11 3 sample_world \<bind> transocks_relay_eventcb demo_os 0x11 3 = Some w'
     \<and> clients w' = Map.empty \<and> dlist (nodes w') 2 []"
proof -
  have "clients sample_world = [3 \<mapsto> sample_client]" by (simp add: sample_world_def)
  then show ?thesis
    using both_sides_closed_released [OF sample_pump, of "0x11" demo_os]
    by (auto simp: flags_of_def sample_client_def TRANSOCKS_CHKBIT_def demo_os_def)
qed

subsection \<open>Starting the pump\<close>

text \<open>
  When the pump reports that it has started, both bufferevents are enabled for reading and writing,
  call the functions of the pump for this client, and hold back input beyond 4096 bytes.
\<close>

lemma bufferpump_start_registers:
  assumes P: "pump_ok p c head us vs w" and s: "transocks_bufferpump_start_pump os p w = Some (0, w')"
  shows "\<exists>cr rr. bevs w' (client_bev c) = Some cr \<and> bevs w' (relay_bev c) = Some rr
    \<and> (bev_readcb cr, bev_writecb cr, bev_eventcb cr, bev_arg cr) =
        (Bufferpump_client_readcb, Bufferpump_client_writecb, Bufferpump_client_eventcb, p)
    \<and> (bev_readcb rr, bev_writecb rr, bev_eventcb rr, bev_arg rr) =
        (Bufferpump_relay_readcb, Bufferpump_relay_writecb, Bufferpump_relay_eventcb, p)
    \<and> TRANSOCKS_CHKBIT (bev_enabled cr) EV_READ_WRITE \<and> TRANSOCKS_CHKBIT (bev_enabled rr) EV_READ_WRITE
    \<and> {Bufferevent_setwatermark (client_bev c) EV_READ_WRITE 0 4096, Bufferevent_setwatermark (relay_bev c) EV_READ_WRITE 0 4096}
        \<subseteq> set (hist w')
    \<and> clients w' = clients w"
proof -
  note D = pump_okD [OF P]
  obtain r1 r2 where r: "bevs w (client_bev c) = Some r1" "bevs w (relay_bev c) = Some r2" using D(3,4) by blast
  have ne: "client_bev c \<noteq> relay_bev c" using P by (auto simp: pump_ok_def client_ok_def)
  have en: "TRANSOCKS_CHKBIT (x OR 6) (6 :: 16 word)" for x
    using CHKBIT_SETBIT [of x 6] by (simp add: TRANSOCKS_SETBIT_def)
  show ?thesis
    using s D(1) r ne en
    by (auto simp: transocks_bufferpump_start_pump_def bufferevent_setwatermark_def bufferevent_setcb_def bufferevent_enable_def
        on_bev_def sys_after_calls emit_after_calls TRANSOCKS_BUFSIZE_def split: if_splits)
qed

theorem bufferpump_start_registers_witness:
  "\<exists>w' cr. transocks_bufferpump_start_pump demo_os 3 sample_world = Some (0, w') \<and> bevs w' 6 = Some cr
     \<and> bev_readcb cr = Bufferpump_client_readcb \<and> TRANSOCKS_CHKBIT (bev_enabled cr) EV_READ_WRITE"
proof -
  have "\<exists>w'. transocks_bufferpump_start_pump demo_os 3 sample_world = Some (0, w')"
    by (simp add: transocks_bufferpump_start_pump_def bufferevent_setwatermark_def bufferevent_setcb_def bufferevent_enable_def
        on_bev_def sys_after_calls emit_after_calls demo_os_def sample_world_def sample_client_def)
  then obtain w' where w': "transocks_bufferpump_start_pump demo_os 3 sample_world = Some (0, w')" by blast
  show ?thesis using bufferpump_start_registers [OF sample_pump w'] w' by (auto simp: sample_client_def)
qed

end
