(* ===== verification/Splicepump.thy ===== *)
theory Splicepump
  imports Context
begin

text \<open>
  The zero-copy pump of \<^verbatim>\<open>src/src/splicepump.c\<close>: one kernel pipe per direction, filled from the
  source socket and emptied into the target socket with \<^verbatim>\<open>splice\<close>, and the number of bytes each
  pipe holds.
\<close>

unbundle bit_operations_syntax

subsection \<open>Operations\<close>

definition TRANSOCKS_SPLICE_SHOULD_LOG_ERR :: "int \<Rightarrow> bool" where
  "TRANSOCKS_SPLICE_SHOULD_LOG_ERR err \<longleftrightarrow> err \<noteq> EBADF \<and> err \<noteq> ENOTCONN"

definition TRANSOCKS_EVENT_ACTIVE :: "os \<Rightarrow> addr \<Rightarrow> 16 word \<Rightarrow> world \<Rightarrow> world option" where
  "TRANSOCKS_EVENT_ACTIVE os ev fl w = do {
     _ \<leftarrow> events w ev;
     if \<not> os_pending os (hist w) ev fl then event_active ev fl w else Some w
   }"

definition getpipesize :: "os \<Rightarrow> int \<Rightarrow> world \<Rightarrow> int \<times> world" where
  "getpipesize os fd w =
     (if fd < 0 then (-1, w)
      else let (ret, w) = sys os (Fcntl_getpipe_sz fd) w in
      if ret = -1 then (-1, w) else (ret, w))"

text \<open>
  The pump is freed through a local copy of the pointer, so the client keeps it in \<open>user_arg\<close>;
  the client itself is freed right after.
\<close>

definition close_and_free_splicepipe :: "addr \<Rightarrow> world \<Rightarrow> world option" where
  "close_and_free_splicepipe q w = do {
     pi \<leftarrow> splicepipes w q;
     let (fd, w) = TRANSOCKS_CLOSE (pipe_writefd pi) w;
     w \<leftarrow> on_splicepipe q (\<lambda>s. s\<lparr>pipe_writefd := fd\<rparr>) w;
     let (fd, w) = TRANSOCKS_CLOSE (pipe_readfd pi) w;
     w \<leftarrow> on_splicepipe q (\<lambda>s. s\<lparr>pipe_readfd := fd\<rparr>) w;
     TRANSOCKS_FREE free_splicepipe q w
   }"

definition transocks_splicepump_free :: "os \<Rightarrow> addr \<Rightarrow> world \<Rightarrow> world option" where
  "transocks_splicepump_free os p w =
     (if p = NULL then Some w
      else do {
        c \<leftarrow> clients w p;
        let ppump = user_arg c;
        if ppump = NULL then Some w
        else do {
          pump \<leftarrow> splicepumps w ppump;
          w \<leftarrow> close_and_free_splicepipe (inbound_pipe pump) w;
          w \<leftarrow> on_splicepump ppump (\<lambda>s. s\<lparr>inbound_pipe := NULL\<rparr>) w;
          w \<leftarrow> close_and_free_splicepipe (outbound_pipe pump) w;
          w \<leftarrow> on_splicepump ppump (\<lambda>s. s\<lparr>outbound_pipe := NULL\<rparr>) w;
          w \<leftarrow> (if client_read_ev pump \<noteq> NULL then event_del (client_read_ev pump) w else Some w);
          w \<leftarrow> (if client_write_ev pump \<noteq> NULL then event_del (client_write_ev pump) w else Some w);
          w \<leftarrow> (if relay_read_ev pump \<noteq> NULL then event_del (relay_read_ev pump) w else Some w);
          w \<leftarrow> (if relay_write_ev pump \<noteq> NULL then event_del (relay_write_ev pump) w else Some w);
          w \<leftarrow> TRANSOCKS_FREE event_free (client_read_ev pump) w;
          w \<leftarrow> on_splicepump ppump (\<lambda>s. s\<lparr>client_read_ev := NULL\<rparr>) w;
          w \<leftarrow> TRANSOCKS_FREE event_free (client_write_ev pump) w;
          w \<leftarrow> on_splicepump ppump (\<lambda>s. s\<lparr>client_write_ev := NULL\<rparr>) w;
          w \<leftarrow> TRANSOCKS_FREE event_free (relay_read_ev pump) w;
          w \<leftarrow> on_splicepump ppump (\<lambda>s. s\<lparr>relay_read_ev := NULL\<rparr>) w;
          w \<leftarrow> TRANSOCKS_FREE event_free (relay_write_ev pump) w;
          w \<leftarrow> on_splicepump ppump (\<lambda>s. s\<lparr>relay_write_ev := NULL\<rparr>) w;
          w \<leftarrow> TRANSOCKS_FREE free_splicepump_mem ppump w;
          TRANSOCKS_FREE (transocks_client_free os) p w
        }
      })"

definition transocks_on_fatal_failure :: "os \<Rightarrow> addr \<Rightarrow> world \<Rightarrow> world option" where
  "transocks_on_fatal_failure os p w = TRANSOCKS_FREE (transocks_splicepump_free os) p w"

definition transocks_check_normal_termination ::
  "os \<Rightarrow> addr \<Rightarrow> transocks_splicepump_data_direction \<Rightarrow> world \<Rightarrow> world option" where
  "transocks_check_normal_termination os p direction w = do {
     c \<leftarrow> clients w p;
     let flag = (if TRANSOCKS_IS_INVALID_FD (client_fd c) \<or> TRANSOCKS_IS_INVALID_FD (relay_fd c) then True
                 else (case direction of
                         inbound \<Rightarrow> relay_shutdown_read c \<and> client_shutdown_write c
                       | outbound \<Rightarrow> client_shutdown_read c \<and> relay_shutdown_write c));
     if flag then TRANSOCKS_FREE (transocks_splicepump_free os) p w else Some w
   }"

definition transocks_single_splice ::
  "os \<Rightarrow> int \<Rightarrow> int \<Rightarrow> 64 word \<Rightarrow> world \<Rightarrow> transocks_splicepump_splice_result \<times> int \<times> world" where
  "transocks_single_splice os from_fd to_fd want_len w =
     (let (n, w) = sys os (Splice from_fd to_fd want_len) w in
      if n = -1 then
        (if TRANSOCKS_IS_RETRIABLE (os_errno os (hist w)) then (can_retry, 0, w) else (fatal_failure, 0, w))
      else if n = 0 then (read_eof, 0, w)
      else (normal_transfer, n, w))"

definition transocks_write_to_pipe ::
  "os \<Rightarrow> addr \<Rightarrow> transocks_splicepump_data_direction \<Rightarrow> world \<Rightarrow> world option" where
  "transocks_write_to_pipe os p direction w = do {
     c \<leftarrow> clients w p;
     ppump \<leftarrow> splicepumps w (user_arg c);
     let (from_fd, ultimate_target_fd, pip, this_libevent_ev, ultimate_target_libevent_ev) =
       (case direction of
          inbound \<Rightarrow> (relay_fd c, client_fd c, inbound_pipe ppump, relay_read_ev ppump, client_write_ev ppump)
        | outbound \<Rightarrow> (client_fd c, relay_fd c, outbound_pipe ppump, client_read_ev ppump, relay_write_ev ppump));
     pi \<leftarrow> splicepipes w pip;
     let to_fd = pipe_writefd pi;
     let want_len = capacity pi;
     if TRANSOCKS_IS_INVALID_FD from_fd \<or> TRANSOCKS_IS_INVALID_FD to_fd then
       transocks_on_fatal_failure os p w
     else do {
       let (splice_ret, transfer_bytes, w) = transocks_single_splice os from_fd to_fd want_len w;
       case splice_ret of
         normal_transfer \<Rightarrow> do {
           w \<leftarrow> on_splicepipe pip (\<lambda>s. s\<lparr>data_in_pipe := data_in_pipe s + word_of_int transfer_bytes\<rparr>) w;
           transocks_check_normal_termination os p direction w
         }
       | can_retry \<Rightarrow> do {
           w \<leftarrow> (if \<not> TRANSOCKS_IS_INVALID_FD ultimate_target_fd \<and> data_in_pipe pi > 0
                then TRANSOCKS_EVENT_ACTIVE os ultimate_target_libevent_ev EV_READ w else Some w);
           transocks_check_normal_termination os p direction w
         }
       | fatal_failure \<Rightarrow> transocks_on_fatal_failure os p w
       | read_eof \<Rightarrow> do {
           w \<leftarrow> on_client p (\<lambda>c. case direction of inbound \<Rightarrow> c\<lparr>relay_shutdown_read := True\<rparr>
                                                 | outbound \<Rightarrow> c\<lparr>client_shutdown_read := True\<rparr>) w;
           let w = snd (TRANSOCKS_SHUTDOWN os from_fd SHUT_RD w);
           let (to_fd, w) = TRANSOCKS_CLOSE to_fd w;
           w \<leftarrow> event_del this_libevent_ev w;
           transocks_check_normal_termination os p direction w
         }
     }
   }"

definition transocks_read_from_pipe ::
  "os \<Rightarrow> addr \<Rightarrow> transocks_splicepump_data_direction \<Rightarrow> world \<Rightarrow> world option" where
  "transocks_read_from_pipe os p direction w = do {
     c \<leftarrow> clients w p;
     ppump \<leftarrow> splicepumps w (user_arg c);
     let (to_fd, pip) =
       (case direction of
          inbound \<Rightarrow> (client_fd c, inbound_pipe ppump)
        | outbound \<Rightarrow> (relay_fd c, outbound_pipe ppump));
     pi \<leftarrow> splicepipes w pip;
     let from_fd = pipe_readfd pi;
     let want_len = data_in_pipe pi;
     if TRANSOCKS_IS_INVALID_FD from_fd \<or> TRANSOCKS_IS_INVALID_FD to_fd then
       transocks_on_fatal_failure os p w
     else do {
       let (splice_ret, transfer_bytes, w) = transocks_single_splice os from_fd to_fd want_len w;
       case splice_ret of
         normal_transfer \<Rightarrow> do {
           w \<leftarrow> on_splicepipe pip (\<lambda>s. s\<lparr>data_in_pipe := data_in_pipe s - word_of_int transfer_bytes\<rparr>) w;
           transocks_check_normal_termination os p direction w
         }
       | can_retry \<Rightarrow> transocks_check_normal_termination os p direction w
       | fatal_failure \<Rightarrow> transocks_on_fatal_failure os p w
       | read_eof \<Rightarrow> do {
           w \<leftarrow> on_client p (\<lambda>c. case direction of inbound \<Rightarrow> c\<lparr>client_shutdown_write := True\<rparr>
                                                 | outbound \<Rightarrow> c\<lparr>relay_shutdown_write := True\<rparr>) w;
           let w = snd (TRANSOCKS_SHUTDOWN os to_fd SHUT_WR w);
           let (from_fd, w) = TRANSOCKS_CLOSE from_fd w;
           transocks_check_normal_termination os p direction w
         }
     }
   }"

definition transocks_splicepump_client_readcb :: "os \<Rightarrow> addr \<Rightarrow> world \<Rightarrow> world option" where
  "transocks_splicepump_client_readcb os p w = transocks_write_to_pipe os p outbound w"

definition transocks_splicepump_relay_writecb :: "os \<Rightarrow> addr \<Rightarrow> world \<Rightarrow> world option" where
  "transocks_splicepump_relay_writecb os p w = transocks_read_from_pipe os p outbound w"

definition transocks_splicepump_relay_readcb :: "os \<Rightarrow> addr \<Rightarrow> world \<Rightarrow> world option" where
  "transocks_splicepump_relay_readcb os p w = transocks_write_to_pipe os p inbound w"

definition transocks_splicepump_client_writecb :: "os \<Rightarrow> addr \<Rightarrow> world \<Rightarrow> world option" where
  "transocks_splicepump_client_writecb os p w = transocks_read_from_pipe os p inbound w"

subsection \<open>Starting the pump\<close>

definition malloc_splicepump :: "os \<Rightarrow> world \<Rightarrow> addr \<times> world" where
  "malloc_splicepump os w =
     (let (p, w) = alloc os (Malloc T_splicepump) w; g = os_garbage os in
      if p = NULL then (NULL, w)
      else (p, w\<lparr>splicepumps := (splicepumps w)(p \<mapsto> \<lparr>client_read_ev = g, client_write_ev = g,
        relay_read_ev = g, relay_write_ev = g, inbound_pipe = g, outbound_pipe = g\<rparr>)\<rparr>))"

definition malloc_splicepipe :: "os \<Rightarrow> world \<Rightarrow> addr \<times> world" where
  "malloc_splicepipe os w =
     (let (p, w) = alloc os (Malloc T_splicepipe) w; g = os_garbage os in
      if p = NULL then (NULL, w)
      else (p, w\<lparr>splicepipes := (splicepipes w)(p \<mapsto> \<lparr>pipe_readfd = int g, pipe_writefd = int g,
        data_in_pipe = of_nat g, capacity = of_nat g\<rparr>)\<rparr>))"

definition transocks_splicepump_new :: "os \<Rightarrow> addr \<Rightarrow> world \<Rightarrow> (addr \<times> world) option" where
  "transocks_splicepump_new os p w = do {
     let (pump, w) = malloc_splicepump os w;
     if pump = NULL then Some (NULL, w)
     else do {
       w \<leftarrow> on_splicepump pump (\<lambda>s. s\<lparr>client_read_ev := NULL, client_write_ev := NULL,
              relay_read_ev := NULL, relay_write_ev := NULL, inbound_pipe := NULL, outbound_pipe := NULL\<rparr>) w;
       let (ip, w) = malloc_splicepipe os w;
       w \<leftarrow> on_splicepump pump (\<lambda>s. s\<lparr>inbound_pipe := ip\<rparr>) w;
       if ip = NULL then Some (NULL, w)
       else do {
         w \<leftarrow> on_splicepipe ip (\<lambda>s. s\<lparr>pipe_writefd := -1, pipe_readfd := -1, data_in_pipe := 0\<rparr>) w;
         let (op, w) = malloc_splicepipe os w;
         w \<leftarrow> on_splicepump pump (\<lambda>s. s\<lparr>outbound_pipe := op\<rparr>) w;
         if op = NULL then Some (NULL, w)
         else do {
           w \<leftarrow> on_splicepipe op (\<lambda>s. s\<lparr>pipe_writefd := -1, pipe_readfd := -1, data_in_pipe := 0\<rparr>) w;
           w \<leftarrow> on_client p (\<lambda>c. c\<lparr>user_arg := pump\<rparr>) w;
           Some (pump, w)
         }
       }
     }
   }"

text \<open>The code behind the label \<^verbatim>\<open>fail\<close>.\<close>

definition splicepump_start_fail :: "os \<Rightarrow> addr \<Rightarrow> world \<Rightarrow> (int \<times> world) option" where
  "splicepump_start_fail os p w = do {
     w \<leftarrow> TRANSOCKS_FREE (transocks_splicepump_free os) p w;
     Some (-1, w)
   }"

text \<open>Creating the events for the four endpoints and adding them, in the order of the code.\<close>

definition splicepump_add_events :: "os \<Rightarrow> addr \<Rightarrow> addr \<Rightarrow> world \<Rightarrow> (int \<times> world) option" where
  "splicepump_add_events os p pump w = do {
     s \<leftarrow> splicepumps w pump;
     (r, w) \<leftarrow> event_add os (client_read_ev s) None w;
     if r \<noteq> 0 then splicepump_start_fail os p w
     else do {
       (r, w) \<leftarrow> event_add os (client_write_ev s) None w;
       if r \<noteq> 0 then splicepump_start_fail os p w
       else do {
         (r, w) \<leftarrow> event_add os (relay_read_ev s) None w;
         if r \<noteq> 0 then splicepump_start_fail os p w
         else do {
           (r, w) \<leftarrow> event_add os (relay_write_ev s) None w;
           if r \<noteq> 0 then splicepump_start_fail os p w
           else Some (0, w)
         }
       }
     }
   }"

definition splicepump_new_events :: "os \<Rightarrow> addr \<Rightarrow> addr \<Rightarrow> addr \<Rightarrow> world \<Rightarrow> (int \<times> world) option" where
  "splicepump_new_events os base p pump w = do {
     c \<leftarrow> clients w p;
     s \<leftarrow> splicepumps w pump;
     ip \<leftarrow> splicepipes w (inbound_pipe s);
     op \<leftarrow> splicepipes w (outbound_pipe s);
     let (ev, w) = event_new os base (client_fd c) EV_READ_PERSIST Splicepump_client_readcb p w;
     w \<leftarrow> on_splicepump pump (\<lambda>s. s\<lparr>client_read_ev := ev\<rparr>) w;
     if ev = NULL then splicepump_start_fail os p w
     else do {
       let (ev, w) = event_new os base (pipe_readfd ip) EV_READ_PERSIST Splicepump_client_writecb p w;
       w \<leftarrow> on_splicepump pump (\<lambda>s. s\<lparr>client_write_ev := ev\<rparr>) w;
       if ev = NULL then splicepump_start_fail os p w
       else do {
         let (ev, w) = event_new os base (relay_fd c) EV_READ_PERSIST Splicepump_relay_readcb p w;
         w \<leftarrow> on_splicepump pump (\<lambda>s. s\<lparr>relay_read_ev := ev\<rparr>) w;
         if ev = NULL then splicepump_start_fail os p w
         else do {
           let (ev, w) = event_new os base (pipe_readfd op) EV_READ_PERSIST Splicepump_relay_writecb p w;
           w \<leftarrow> on_splicepump pump (\<lambda>s. s\<lparr>relay_write_ev := ev\<rparr>) w;
           if ev = NULL then splicepump_start_fail os p w
           else splicepump_add_events os p pump w
         }
       }
     }
   }"

definition splicepump_open_pipes :: "os \<Rightarrow> addr \<Rightarrow> addr \<Rightarrow> addr \<Rightarrow> world \<Rightarrow> (int \<times> world) option" where
  "splicepump_open_pipes os base p pump w = do {
     s \<leftarrow> splicepumps w pump;
     let (fds, w) = createpipe os w;
     case fds of
       None \<Rightarrow> splicepump_start_fail os p w
     | Some (r, x) \<Rightarrow> do {
         w \<leftarrow> on_splicepipe (inbound_pipe s) (\<lambda>q. q\<lparr>pipe_readfd := r, pipe_writefd := x\<rparr>) w;
         let (fds, w) = createpipe os w;
         case fds of
           None \<Rightarrow> splicepump_start_fail os p w
         | Some (r', x') \<Rightarrow> do {
             w \<leftarrow> on_splicepipe (outbound_pipe s) (\<lambda>q. q\<lparr>pipe_readfd := r', pipe_writefd := x'\<rparr>) w;
             let (pipesz, w) = getpipesize os r w;
             if pipesz = -1 then splicepump_start_fail os p w
             else do {
               w \<leftarrow> on_splicepipe (inbound_pipe s) (\<lambda>q. q\<lparr>capacity := word_of_int pipesz\<rparr>) w;
               let (pipesz, w) = getpipesize os r' w;
               if pipesz = -1 then splicepump_start_fail os p w
               else do {
                 w \<leftarrow> on_splicepipe (outbound_pipe s) (\<lambda>q. q\<lparr>capacity := word_of_int pipesz\<rparr>) w;
                 splicepump_new_events os base p pump w
               }
             }
           }
       }
   }"

definition transocks_splicepump_start_pump :: "os \<Rightarrow> addr \<Rightarrow> world \<Rightarrow> (int \<times> world) option" where
  "transocks_splicepump_start_pump os p w = do {
     c \<leftarrow> clients w p;
     (error, w) \<leftarrow> bufferevent_disable os (client_bev c) EV_READ_WRITE w;
     if error \<noteq> 0 then splicepump_start_fail os p w
     else do {
       (error, w) \<leftarrow> bufferevent_disable os (relay_bev c) EV_READ_WRITE w;
       if error \<noteq> 0 then splicepump_start_fail os p w
       else do {
         (_, w) \<leftarrow> bufferevent_setfd os (client_bev c) (-1) w;
         (_, w) \<leftarrow> bufferevent_setfd os (relay_bev c) (-1) w;
         (pump, w) \<leftarrow> transocks_splicepump_new os p w;
         if pump = NULL then splicepump_start_fail os p w
         else do {
           penv \<leftarrow> envs w (global_env c);
           splicepump_open_pipes os (eventBaseLoop penv) p pump w
         }
       }
     }
   }"

subsection \<open>Destruction\<close>

text \<open>What the code keeps true of a client with a started pump.\<close>

definition splice_ok :: "addr \<Rightarrow> transocks_client \<Rightarrow> transocks_splicepump \<Rightarrow> transocks_splicepipe \<Rightarrow> transocks_splicepipe \<Rightarrow>
  world \<Rightarrow> bool" where
  "splice_ok p c s ip op w \<longleftrightarrow> wf_world w \<and> client_ok w p c \<and> user_arg c \<noteq> NULL
     \<and> splicepumps w (user_arg c) = Some s
     \<and> inbound_pipe s \<noteq> NULL \<and> outbound_pipe s \<noteq> NULL \<and> inbound_pipe s \<noteq> outbound_pipe s
     \<and> splicepipes w (inbound_pipe s) = Some ip \<and> splicepipes w (outbound_pipe s) = Some op
     \<and> null_or_live (events w) (client_read_ev s) \<and> null_or_live (events w) (client_write_ev s)
     \<and> null_or_live (events w) (relay_read_ev s) \<and> null_or_live (events w) (relay_write_ev s)
     \<and> distinct (filter (\<lambda>x. x \<noteq> NULL) [client_read_ev s, client_write_ev s, relay_read_ev s, relay_write_ev s, timeout_ev c])"

definition pipe_free_calls :: "addr \<Rightarrow> transocks_splicepipe \<Rightarrow> call list" where
  "pipe_free_calls q pi = (if pipe_writefd pi \<ge> 0 then [Close (pipe_writefd pi)] else [])
     @ (if pipe_readfd pi \<ge> 0 then [Close (pipe_readfd pi)] else []) @ [Free q]"

definition splicepump_free_calls :: "addr \<Rightarrow> transocks_client \<Rightarrow> transocks_splicepump \<Rightarrow> transocks_splicepipe \<Rightarrow> transocks_splicepipe \<Rightarrow> call list" where
  "splicepump_free_calls p c s ip op =
     pipe_free_calls (inbound_pipe s) ip @ pipe_free_calls (outbound_pipe s) op
     @ (if client_read_ev s \<noteq> NULL then [Event_del (client_read_ev s)] else [])
     @ (if client_write_ev s \<noteq> NULL then [Event_del (client_write_ev s)] else [])
     @ (if relay_read_ev s \<noteq> NULL then [Event_del (relay_read_ev s)] else [])
     @ (if relay_write_ev s \<noteq> NULL then [Event_del (relay_write_ev s)] else [])
     @ (if client_read_ev s \<noteq> NULL then [Event_free (client_read_ev s)] else [])
     @ (if client_write_ev s \<noteq> NULL then [Event_free (client_write_ev s)] else [])
     @ (if relay_read_ev s \<noteq> NULL then [Event_free (relay_read_ev s)] else [])
     @ (if relay_write_ev s \<noteq> NULL then [Event_free (relay_write_ev s)] else [])
     @ [Free (user_arg c)] @ client_free_calls p c"

lemma close_and_free_run:
  "splicepipes w q = Some pi \<Longrightarrow> q \<noteq> NULL \<Longrightarrow>
   close_and_free_splicepipe q w = Some (after_calls (pipe_free_calls q pi) (w\<lparr>splicepipes := (splicepipes w)(q := None)\<rparr>))"
  by (simp add: close_and_free_splicepipe_def TRANSOCKS_CLOSE_simp on_splicepipe_def TRANSOCKS_FREE_def free_splicepipe_def
      emit_after_calls pipe_free_calls_def)

text \<open>The memory without the pump; the client is still there.\<close>

definition pump_removed :: "transocks_client \<Rightarrow> transocks_splicepump \<Rightarrow> world \<Rightarrow> world" where
  "pump_removed c s w = w\<lparr>splicepipes := (splicepipes w)(inbound_pipe s := None, outbound_pipe s := None),
     events := (events w)(client_read_ev s := None, client_write_ev s := None, relay_read_ev s := None, relay_write_ev s := None),
     splicepumps := (splicepumps w)(user_arg c := None)\<rparr>"

lemma events_del_free:
  "(events_deleted d (events_deleted c (events_deleted b (events_deleted a E))))(a := None, b := None, c := None, d := None) =
   E(a := None, b := None, c := None, d := None)"
  by (rule ext) simp

lemma splicepump_free_run:
  assumes S: "splice_ok p c s ip op w" and d: "list_del p (nodes w) = Some h'"
  shows "transocks_splicepump_free os p w =
    Some (after_calls (splicepump_free_calls p c s ip op) (client_removed p c h' (pump_removed c s w)))"
proof -
  have wf: "wf_world w" and live: "p \<noteq> NULL" "clients w p = Some c" "user_arg c \<noteq> NULL" "splicepumps w (user_arg c) = Some s"
    "inbound_pipe s \<noteq> NULL" "outbound_pipe s \<noteq> NULL" "inbound_pipe s \<noteq> outbound_pipe s"
    "splicepipes w (inbound_pipe s) = Some ip" "splicepipes w (outbound_pipe s) = Some op"
    "null_or_live (events w) (client_read_ev s)" "null_or_live (events w) (client_write_ev s)"
    "null_or_live (events w) (relay_read_ev s)" "null_or_live (events w) (relay_write_ev s)"
    using S by (simp_all add: splice_ok_def client_ok_def)
  have ne: "client_write_ev s \<noteq> client_read_ev s \<or> client_write_ev s = NULL"
    "relay_read_ev s \<noteq> client_read_ev s \<or> relay_read_ev s = NULL" "relay_read_ev s \<noteq> client_write_ev s \<or> relay_read_ev s = NULL"
    "relay_write_ev s \<noteq> client_read_ev s \<or> relay_write_ev s = NULL" "relay_write_ev s \<noteq> client_write_ev s \<or> relay_write_ev s = NULL"
    "relay_write_ev s \<noteq> relay_read_ev s \<or> relay_write_ev s = NULL"
    "timeout_ev c \<noteq> client_read_ev s \<or> timeout_ev c = NULL" "timeout_ev c \<noteq> client_write_ev s \<or> timeout_ev c = NULL"
    "timeout_ev c \<noteq> relay_read_ev s \<or> timeout_ev c = NULL" "timeout_ev c \<noteq> relay_write_ev s \<or> timeout_ev c = NULL"
    using S by (auto simp: splice_ok_def split: if_splits)
  have "client_ok (pump_removed c s w) p c"
    using S ne by (simp add: splice_ok_def client_ok_def pump_removed_def null_or_live_upd)
  moreover have "wf_world (pump_removed c s w)" using wf by (auto simp: wf_world_def pump_removed_def)
  ultimately have free: "transocks_client_free os p (after_calls cs (pump_removed c s w)) =
      Some (after_calls (cs @ client_free_calls p c) (client_removed p c h' (pump_removed c s w)))" for cs
    using transocks_client_free_run [of "after_calls cs (pump_removed c s w)" p c h' os] d
    by (simp add: pump_removed_def client_removed_def client_ok_def)
  show ?thesis
    unfolding transocks_splicepump_free_def using wf live ne free
    by (simp split del: if_split del: neq0_conv add: Let_def close_and_free_run on_splicepump_def event_del_simp
      FREE_event_simp null_or_live_upd if_None_eq_None events_del_free TRANSOCKS_FREE_def [of free_splicepump_mem]
      free_splicepump_mem_def emit_after_calls TRANSOCKS_FREE_def [of "transocks_client_free os"])
      (fold pump_removed_def, simp split del: if_split del: neq0_conv add: free splicepump_free_calls_def)
qed

subsection \<open>Properties\<close>

text \<open>
  C25: Freeing the splice pump of a client on the list of the environment is defined and releases, once each and
  in the order of \<^const>\<open>splicepump_free_calls\<close>, both ends of both pipes, the pipes, the four events, the pump and then the
  client with all it owns; nothing else is touched and the list keeps all other clients.
\<close>

theorem splicepump_free_exact:
  assumes S: "splice_ok p c s ip op w" and d: "dlist (nodes w) head (us @ p # vs)"
  shows "\<exists>w'. transocks_splicepump_free os p w = Some w' \<and> hist w' = hist w @ splicepump_free_calls p c s ip op
    \<and> clients w' = (clients w)(p := None) \<and> splicepumps w' = (splicepumps w)(user_arg c := None)
    \<and> splicepipes w' = (splicepipes w)(inbound_pipe s := None, outbound_pipe s := None)
    \<and> events w' = (events w)(client_read_ev s := None, client_write_ev s := None, relay_read_ev s := None,
        relay_write_ev s := None, timeout_ev c := None)
    \<and> sockaddrs w' = (sockaddrs w)(client_addr c := None, dest_addr c := None)
    \<and> bevs w' = (bevs w)(relay_bev c := None, client_bev c := None)
    \<and> dlist (nodes w') head (us @ vs)"
proof -
  obtain h' where h': "list_del p (nodes w) = Some h'" "dlist h' head (us @ vs)"
    using list_del_law [OF d] by blast
  have "dlist (h'(p := None)) head (us @ vs)"
    using dlist_distinct [OF d] by (auto intro: dlist_agree [OF h'(2)])
  with splicepump_free_run [OF S h'(1), of os] show ?thesis
    by (simp add: client_removed_def pump_removed_def)
qed

text \<open>A client with a started pump: pump at 9, pipes at 10 and 11, events at 12 to 15.\<close>

definition sample_splicepump :: transocks_splicepump where
  "sample_splicepump = \<lparr>client_read_ev = 12, client_write_ev = 13, relay_read_ev = 14, relay_write_ev = 15,
     inbound_pipe = 10, outbound_pipe = 11\<rparr>"

definition sample_pipe :: "int \<Rightarrow> transocks_splicepipe" where
  "sample_pipe fd = \<lparr>pipe_readfd = fd, pipe_writefd = fd + 1, data_in_pipe = 100, capacity = 65536\<rparr>"

definition splice_client :: transocks_client where
  "splice_client = sample_client\<lparr>user_arg := 9, client_state := client_pumping_data\<rparr>"

definition splice_event :: "callback \<Rightarrow> ev_reg" where
  "splice_event cb = \<lparr>ev_fd = -1, ev_flags = EV_READ_PERSIST, ev_cb = cb, ev_arg = 3, ev_added = True\<rparr>"

definition splice_world :: world where
  "splice_world = sample_world\<lparr>brk := 16, clients := [3 \<mapsto> splice_client], splicepumps := [9 \<mapsto> sample_splicepump],
     splicepipes := [10 \<mapsto> sample_pipe 30, 11 \<mapsto> sample_pipe 40],
     events := (events sample_world)(12 \<mapsto> splice_event Splicepump_client_readcb, 13 \<mapsto> splice_event Splicepump_client_writecb,
       14 \<mapsto> splice_event Splicepump_relay_readcb, 15 \<mapsto> splice_event Splicepump_relay_writecb)\<rparr>"

lemma splice_sample:
  "splice_ok 3 splice_client sample_splicepump (sample_pipe 30) (sample_pipe 40) splice_world"
  "dlist (nodes splice_world) 2 [3]"
  using sample_ok(3)
  by (simp_all add: splice_ok_def wf_world_def client_ok_def null_or_live_def splice_world_def splice_client_def
      sample_splicepump_def sample_world_def sample_client_def demo_start_def)

theorem splicepump_free_exact_witness:
  "\<exists>w'. transocks_splicepump_free demo_os 3 splice_world = Some w' \<and> clients w' = Map.empty \<and> splicepumps w' = Map.empty
     \<and> splicepipes w' = Map.empty \<and> events w' = Map.empty \<and> bevs w' = Map.empty \<and> dlist (nodes w') 2 []"
  using splicepump_free_exact [OF splice_sample(1), of 2 "[]" "[]" demo_os] splice_sample(2)
  by (auto simp: splice_world_def splice_client_def sample_splicepump_def sample_world_def sample_client_def demo_start_def)

subsection \<open>Transfers\<close>

fun source_fd :: "transocks_splicepump_data_direction \<Rightarrow> transocks_client \<Rightarrow> int" where
  "source_fd inbound c = relay_fd c"
| "source_fd outbound c = client_fd c"

fun target_fd :: "transocks_splicepump_data_direction \<Rightarrow> transocks_client \<Rightarrow> int" where
  "target_fd inbound c = client_fd c"
| "target_fd outbound c = relay_fd c"

fun pipe_of :: "transocks_splicepump_data_direction \<Rightarrow> transocks_splicepump \<Rightarrow> addr" where
  "pipe_of inbound s = inbound_pipe s"
| "pipe_of outbound s = outbound_pipe s"

text \<open>The direction is over: nothing more is read from the source nor written to the target.\<close>

fun direction_over :: "transocks_splicepump_data_direction \<Rightarrow> transocks_client \<Rightarrow> bool" where
  "direction_over inbound c \<longleftrightarrow> relay_shutdown_read c \<and> client_shutdown_write c"
| "direction_over outbound c \<longleftrightarrow> client_shutdown_read c \<and> relay_shutdown_write c"

definition sockets_valid :: "transocks_client \<Rightarrow> bool" where
  "sockets_valid c \<longleftrightarrow> client_fd c \<noteq> -1 \<and> relay_fd c \<noteq> -1"

lemma splice_okD:
  assumes "splice_ok p c s ip op w"
  shows "clients w p = Some c" "p \<noteq> NULL" "splicepumps w (user_arg c) = Some s"
    "splicepipes w (inbound_pipe s) = Some ip" "splicepipes w (outbound_pipe s) = Some op" "wf_world w"
  using assms by (simp_all add: splice_ok_def client_ok_def)

lemma termination_continues:
  "clients w p = Some c \<Longrightarrow> sockets_valid c \<Longrightarrow> \<not> direction_over d c \<Longrightarrow> transocks_check_normal_termination os p d w = Some w"
  by (cases d) (auto simp: transocks_check_normal_termination_def sockets_valid_def TRANSOCKS_IS_INVALID_FD_def)


lemma splice_sample_fields:
  "sockets_valid splice_client" "\<not> direction_over inbound splice_client" "\<not> direction_over outbound splice_client" "client_fd splice_client = 20" "relay_fd splice_client = 21"
  "splicepipes splice_world (pipe_of inbound sample_splicepump) = Some (sample_pipe 30)"
  "splicepipes splice_world (pipe_of outbound sample_splicepump) = Some (sample_pipe 40)"
  "pipe_writefd (sample_pipe fd) = fd + 1" "pipe_readfd (sample_pipe fd) = fd"
  "data_in_pipe (sample_pipe fd) = 100" "capacity (sample_pipe fd) = 65536"
  by (simp_all add: sockets_valid_def splice_client_def sample_client_def splice_world_def sample_splicepump_def sample_pipe_def)


text \<open>
  C27: A transfer to the target takes out exactly the bytes moved. As \<^verbatim>\<open>splice\<close> moves at most as many bytes as it was
  asked for, which is what the pipe is known to hold, the count never wraps below zero.
\<close>

theorem pipe_drain_exact:
  assumes S: "splice_ok p c s ip op w" and v: "sockets_valid c" "\<not> direction_over d c"
    and pi: "splicepipes w (pipe_of d s) = Some pi" "pipe_readfd pi \<noteq> -1"
    and n: "n = os_ret os (hist w) (Splice (pipe_readfd pi) (target_fd d c) (data_in_pipe pi))" "n > 0"
    and kernel: "n \<le> uint (data_in_pipe pi)"
  shows "\<exists>pi'. transocks_read_from_pipe os p d w =
      Some (after_calls [Splice (pipe_readfd pi) (target_fd d c) (data_in_pipe pi)]
        (w\<lparr>splicepipes := (splicepipes w)(pipe_of d s \<mapsto> pi')\<rparr>))
    \<and> pi' = pi\<lparr>data_in_pipe := data_in_pipe pi'\<rparr>
    \<and> uint (data_in_pipe pi') = uint (data_in_pipe pi) - n"
proof -
  let ?pi' = "pi\<lparr>data_in_pipe := data_in_pipe pi - word_of_int n\<rparr>"
  have "transocks_read_from_pipe os p d w =
      Some (after_calls [Splice (pipe_readfd pi) (target_fd d c) (data_in_pipe pi)] (w\<lparr>splicepipes := (splicepipes w)(pipe_of d s \<mapsto> ?pi')\<rparr>))"
    using v pi n
    by (cases d) (simp_all add: splice_okD [OF S] transocks_read_from_pipe_def sockets_valid_def TRANSOCKS_IS_INVALID_FD_def
        transocks_single_splice_def sys_after_calls on_splicepipe_def termination_continues Let_def)
  then show ?thesis
    using uint_sub_exact [of n "data_in_pipe pi"] n(2) kernel by (intro exI [of _ ?pi']) simp
qed

theorem pipe_drain_exact_witness:
  "\<exists>os w' pi'. transocks_read_from_pipe os 3 outbound splice_world = Some w'
     \<and> splicepipes w' 11 = Some pi' \<and> uint (data_in_pipe pi') = 40"
proof -
  let ?os = "demo_os\<lparr>os_ret := \<lambda>h c. 60\<rparr>"
  have "pipe_of outbound sample_splicepump = 11" by (simp add: sample_splicepump_def)
  then have "\<exists>w' pi'. transocks_read_from_pipe ?os 3 outbound splice_world = Some w'
      \<and> splicepipes w' 11 = Some pi' \<and> uint (data_in_pipe pi') = 40"
    using pipe_drain_exact [OF splice_sample(1) splice_sample_fields(1,3,7), of 60 ?os]
    by (auto simp: splice_sample_fields)
  then show ?thesis by blast
qed

text \<open>
  C28: After every transfer the connection goes on unless one of its sockets is invalid or the direction is over; then
  the whole pump and the client are released, even if the other direction is still in use.
\<close>

theorem splice_termination_iff:
  assumes S: "splice_ok p c s ip op w" and d: "dlist (nodes w) head (us @ p # vs)"
  shows "\<exists>w'. transocks_check_normal_termination os p dir w = Some w'
    \<and> (if sockets_valid c \<and> \<not> direction_over dir c then w' = w
       else clients w' = (clients w)(p := None) \<and> splicepumps w' = (splicepumps w)(user_arg c := None)
         \<and> dlist (nodes w') head (us @ vs))"
proof (cases "sockets_valid c \<and> \<not> direction_over dir c")
  case True
  with S termination_continues show ?thesis by (auto simp: splice_ok_def client_ok_def)
next
  case False
  have p: "clients w p = Some c" "p \<noteq> NULL" using S by (simp_all add: splice_ok_def client_ok_def)
  have "transocks_check_normal_termination os p dir w = transocks_splicepump_free os p w"
    using False p
    by (cases dir) (auto simp: transocks_check_normal_termination_def sockets_valid_def TRANSOCKS_IS_INVALID_FD_def TRANSOCKS_FREE_def)
  moreover obtain h' where h': "list_del p (nodes w) = Some h'" "dlist h' head (us @ vs)"
    using list_del_law [OF d] by blast
  moreover have "dlist (h'(p := None)) head (us @ vs)"
    using dlist_distinct [OF d] by (auto intro: dlist_agree [OF h'(2)])
  ultimately show ?thesis
    using False splicepump_free_run [OF S h'(1), of os] by (auto simp: client_removed_def pump_removed_def)
qed

theorem splice_termination_iff_witness:
  "\<exists>w'. transocks_check_normal_termination demo_os 3 inbound splice_world = Some w' \<and> w' = splice_world"
  using splice_termination_iff [OF splice_sample(1), of 2 "[]" "[]" demo_os inbound] splice_sample(2)
  by (simp add: splice_sample_fields del: direction_over.simps)

text \<open>What the end of input from the source records.\<close>

fun source_ended :: "transocks_splicepump_data_direction \<Rightarrow> transocks_client \<Rightarrow> transocks_client" where
  "source_ended inbound c = c\<lparr>relay_shutdown_read := True\<rparr>"
| "source_ended outbound c = c\<lparr>client_shutdown_read := True\<rparr>"

fun source_ev :: "transocks_splicepump_data_direction \<Rightarrow> transocks_splicepump \<Rightarrow> addr" where
  "source_ev inbound s = relay_read_ev s"
| "source_ev outbound s = client_read_ev s"

lemma source_eof_run:
  assumes S: "splice_ok p c s ip op w" and v: "sockets_valid c" "\<not> direction_over d (source_ended d c)"
    and pi: "splicepipes w (pipe_of d s) = Some pi" "pipe_writefd pi \<ge> 0" and ev: "source_ev d s \<noteq> NULL"
    and n: "os_ret os (hist w) (Splice (source_fd d c) (pipe_writefd pi) (capacity pi)) = 0"
  shows "transocks_write_to_pipe os p d w = Some (after_calls [Splice (source_fd d c) (pipe_writefd pi) (capacity pi),
      Shutdown (source_fd d c) SHUT_RD, Close (pipe_writefd pi), Event_del (source_ev d s)]
    (w\<lparr>clients := (clients w)(p \<mapsto> source_ended d c), events := events_deleted (source_ev d s) (events w)\<rparr>))"
proof -
  obtain r where r: "events w (source_ev d s) = Some r"
    using S ev by (cases d) (auto simp: splice_ok_def null_or_live_def)
  have fd: "sockets_valid (source_ended d c)" using v(1) by (cases d) (simp_all add: sockets_valid_def)
  show ?thesis
    using v pi n r fd
    by (cases d) (simp_all add: splice_okD [OF S] transocks_write_to_pipe_def TRANSOCKS_IS_INVALID_FD_def sockets_valid_def
        transocks_single_splice_def sys_after_calls emit_after_calls on_client_def TRANSOCKS_SHUTDOWN_def TRANSOCKS_CLOSE_simp event_del_def
        events_deleted_def transocks_check_normal_termination_def Let_def)
qed

lemma splice_ok_source_ended:
  assumes "splice_ok p c s ip op w"
  shows "splice_ok p (source_ended d c) s ip op
    (after_calls cs (w\<lparr>clients := (clients w)(p \<mapsto> source_ended d c), events := events_deleted ev (events w)\<rparr>))"
proof -
  have "dom (events_deleted ev (events w)) = dom (events w)" by (simp add: dom_def)
  then show ?thesis
    using assms by (cases d) (auto simp: splice_ok_def client_ok_def wf_world_def)
qed

text \<open>
  C38: At the end of input the code closes the writing end of the pipe through a local copy of the descriptor and leaves
  the old number in the pipe. When the pump is freed later, the same descriptor number is closed a second time,
  by then possibly that of another connection.
\<close>

theorem splice_eof_double_close:
  assumes S: "splice_ok p c s ip op w" and d: "dlist (nodes w) head (us @ p # vs)"
    and v: "sockets_valid c" "\<not> direction_over dir (source_ended dir c)"
    and pi: "splicepipes w (pipe_of dir s) = Some pi" "pipe_writefd pi \<ge> 0" and ev: "source_ev dir s \<noteq> NULL"
    and eof: "os_ret os (hist w) (Splice (source_fd dir c) (pipe_writefd pi) (capacity pi)) = 0"
  shows "\<exists>cs ds w'. transocks_write_to_pipe os p dir w \<bind> transocks_splicepump_free os p = Some w'
    \<and> hist w' = hist w @ cs @ ds \<and> Close (pipe_writefd pi) \<in> set cs \<and> Close (pipe_writefd pi) \<in> set ds"
proof -
  let ?cs = "[Splice (source_fd dir c) (pipe_writefd pi) (capacity pi),
      Shutdown (source_fd dir c) SHUT_RD, Close (pipe_writefd pi), Event_del (source_ev dir s)]"
  let ?w = "after_calls ?cs (w\<lparr>clients := (clients w)(p \<mapsto> source_ended dir c), events := events_deleted (source_ev dir s) (events w)\<rparr>)"
  let ?ds = "splicepump_free_calls p (source_ended dir c) s ip op"
  obtain h' where "list_del p (nodes w) = Some h'" using list_del_law [OF d] by blast
  then have "transocks_splicepump_free os p ?w = Some (after_calls ?ds
      (client_removed p (source_ended dir c) h' (pump_removed (source_ended dir c) s ?w)))"
    using splicepump_free_run [OF splice_ok_source_ended [OF S], of _ _ _ h' os] by simp
  moreover have "Close (pipe_writefd pi) \<in> set ?ds"
    using pi S by (cases dir) (auto simp: splicepump_free_calls_def pipe_free_calls_def splice_ok_def)
  ultimately show ?thesis
    using source_eof_run [OF S v pi ev eof]
    by (intro exI [of _ ?cs] exI [of _ ?ds]) (simp add: client_removed_def pump_removed_def)
qed

theorem splice_eof_double_close_witness:
  "\<exists>os cs ds w'. transocks_write_to_pipe os 3 outbound splice_world \<bind> transocks_splicepump_free os 3 = Some w'
     \<and> hist w' = cs @ ds \<and> Close 41 \<in> set cs \<and> Close 41 \<in> set ds"
proof -
  have "hist splice_world = []" by (simp add: splice_world_def sample_world_def demo_start_def)
  moreover have "source_ev outbound sample_splicepump = 12" "\<not> direction_over outbound (source_ended outbound splice_client)"
    by (simp_all add: sample_splicepump_def splice_client_def sample_client_def)
  ultimately have "\<exists>cs ds w'. transocks_write_to_pipe demo_os 3 outbound splice_world \<bind> transocks_splicepump_free demo_os 3 = Some w'
     \<and> hist w' = cs @ ds \<and> Close 41 \<in> set cs \<and> Close 41 \<in> set ds"
    using splice_eof_double_close [OF splice_sample(1), of 2 "[]" "[]" outbound "sample_pipe 40" demo_os] splice_sample(2)
      splice_sample_fields
    by (simp add: demo_os_def)
  then show ?thesis by blast
qed

end
