(* ===== verification/Frame.thy ===== *)
theory Frame
  imports Bufferpump Splicepump
begin

text \<open>
  What the operations on one client leave alone, whatever the state they start in: the other clients, the
  environment and the selected pump.
\<close>

unbundle bit_operations_syntax

definition others :: "addr \<Rightarrow> world \<Rightarrow> world \<Rightarrow> bool" where
  "others p w w' \<longleftrightarrow> (\<forall>q. q \<noteq> p \<longrightarrow> clients w' q = clients w q) \<and> (clients w p = None \<longrightarrow> clients w' p = None)
     \<and> envs w' = envs w \<and> pumpMethodImpl w' = pumpMethodImpl w"

lemma others_refl [simp]: "others p w w"
  by (simp add: others_def)

lemma others_trans: "others p w w' \<Longrightarrow> others p w' w'' \<Longrightarrow> others p w w''"
  by (auto simp: others_def)

lemma others_calls [simp]: "others p w (after_calls cs w') = others p w w'"
  by (simp add: others_def)

named_theorems others_ops \<open>operations that leave the other clients alone\<close>

lemma others_yields [others_ops]:
  assumes "others p w w'"
  shows "yields (on_client p f w') (others p w)"
    "yields (event_del ev w') (others p w)" "yields (event_free ev w') (others p w)"
    "yields (event_active ev fl w') (others p w)"
    "yields (bufferevent_free b w') (others p w)" "yields (free_sockaddr a w') (others p w)"
    "yields (free_client_mem p w') (others p w)" "yields (on_nodes g w') (others p w)"
    "yields (on_splicepump q h w') (others p w)" "yields (on_splicepipe q k w') (others p w)"
    "yields (free_splicepipe q w') (others p w)" "yields (free_splicepump_mem q w') (others p w)"
    "yields (bufferevent_setwatermark b fl lo hi w') (others p w)" "yields (bufferevent_setcb b rcb wcb ecb arg w') (others p w)"
  using assms
  by (auto simp: yields_def others_def on_client_def on_nodes_def on_splicepump_def on_splicepipe_def prim_defs
      emit_after_calls bind_Some_iff split: if_splits)

lemma others_on_bev: "others p w w' \<Longrightarrow> yields (on_bev os b k f w') (\<lambda>x. others p w (snd x))"
  by (cases "bevs w' b") (simp_all add: on_bev_def sys_after_calls others_def)

lemma others_yields_int [others_ops]:
  assumes "others p w w'"
  shows "yields (bufferevent_disable os b fl w') (\<lambda>x. others p w (snd x))"
    "yields (bufferevent_enable os b fl w') (\<lambda>x. others p w (snd x))"
    "yields (bufferevent_setfd os b fd w') (\<lambda>x. others p w (snd x))"
    "yields (event_add os ev tv w') (\<lambda>x. others p w (snd x))"
  using assms others_on_bev
  by (simp_all add: bufferevent_disable_def bufferevent_enable_def bufferevent_setfd_def)
    (cases "events w' ev", simp_all add: event_add_def sys_after_calls others_def)

lemma yields_if: "(b \<Longrightarrow> yields m Q) \<Longrightarrow> (\<not> b \<Longrightarrow> yields n Q) \<Longrightarrow> yields (if b then m else n) Q"
  by simp

lemma yields_bind_read: "(\<And>x. yields (f x) Q) \<Longrightarrow> yields (m \<bind> f) Q"
  by (auto simp: yields_def bind_Some_iff)

lemma yields_bind_others:
  "yields m (others p w) \<Longrightarrow> (\<And>w'. others p w w' \<Longrightarrow> yields (f w') Q) \<Longrightarrow> yields (m \<bind> f) Q"
  by (auto simp: yields_def bind_Some_iff)

lemma yields_bind_others_snd:
  "yields m (\<lambda>x. others p w (snd x)) \<Longrightarrow> (\<And>n w'. others p w w' \<Longrightarrow> yields (f n w') Q) \<Longrightarrow>
   yields (m \<bind> (\<lambda>(n, w'). f n w')) Q"
  by (auto simp: yields_def bind_Some_iff)

lemma others_FREE [others_ops]:
  "others p w w' \<Longrightarrow> (a \<noteq> NULL \<Longrightarrow> yields (f a w') (others p w)) \<Longrightarrow> yields (TRANSOCKS_FREE f a w') (others p w)"
  by (simp add: TRANSOCKS_FREE_def)

lemma others_client_free [others_ops]:
  assumes "others p w w'"
  shows "yields (transocks_client_free os p w') (others p w)"
  using assms unfolding transocks_client_free_def Let_def TRANSOCKS_SHUTDOWN_def TRANSOCKS_CLOSE_simp sys_after_calls prod.case
  by - ((rule yields_if
    | (rule yields_bind_others [of _ p w], (auto intro!: others_ops; fail))
    | (rule yields_bind_read)
    | (auto intro!: others_ops; fail))+)

lemma others_bufferpump_free:
  assumes "others p w w'"
  shows "yields (transocks_bufferpump_free os p w') (others p w)"
  using assms unfolding transocks_bufferpump_free_def
  by - ((rule yields_bind_others_snd [of _ p w], (auto intro!: others_ops; fail))
    | (rule yields_bind_read)
    | (auto intro!: others_ops; fail))+

lemma others_close_and_free [others_ops]:
  assumes "others p w w'"
  shows "yields (close_and_free_splicepipe q w') (others p w)"
  using assms unfolding close_and_free_splicepipe_def Let_def TRANSOCKS_CLOSE_simp prod.case
  by - ((rule yields_bind_others [of _ p w], (auto intro!: others_ops; fail))
    | (rule yields_bind_read)
    | (auto intro!: others_ops; fail))+

lemma others_splicepump_free [others_ops]:
  assumes "others p w w'"
  shows "yields (transocks_splicepump_free os p w') (others p w)"
  using assms unfolding transocks_splicepump_free_def Let_def
  by - ((rule yields_if
    | (rule yields_bind_others [of _ p w], (auto intro!: others_ops; fail))
    | (rule yields_bind_read)
    | (auto intro!: others_ops; fail))+)

subsection \<open>Starting a pump\<close>

lemma yields_let_others:
  "others p w (snd x) \<Longrightarrow> (\<And>a w'. others p w w' \<Longrightarrow> yields (f a w') Q) \<Longrightarrow> yields (let (a, w') = x in f a w') Q"
  by (cases x) simp

lemma others_allocs:
  assumes "others p w w'"
  shows "others p w (snd (event_new os base fd fl cb arg w'))" "others p w (snd (malloc_splicepump os w'))"
    "others p w (snd (malloc_splicepipe os w'))" "others p w (snd (createpipe os w'))" "others p w (snd (getpipesize os fd w'))"
proof -
  obtain cs where "snd (createpipe os w') = after_calls cs w'"
    using only_calls_createpipe [of w' os] by (auto simp: only_calls_def)
  with assms show "others p w (snd (createpipe os w'))" by simp
qed (use assms in \<open>auto simp: event_new_def malloc_splicepump_def malloc_splicepipe_def alloc_simp getpipesize_def
    sys_after_calls Let_def others_def\<close>)

lemma others_start_fail [others_ops]:
  "others p w w' \<Longrightarrow> yields (splicepump_start_fail os p w') (\<lambda>x. others p w (snd x))"
  unfolding splicepump_start_fail_def
  by - ((rule yields_bind_others [of _ p w], (auto intro!: others_ops; fail)) | simp)+

lemma others_splicepump_new [others_ops]:
  assumes "others p w w'"
  shows "yields (transocks_splicepump_new os p w') (\<lambda>x. others p w (snd x))"
  using assms unfolding transocks_splicepump_new_def
  by - ((rule yields_if | (rule yields_let_others [of p w], (auto intro: others_allocs; fail))
    | (rule yields_bind_others [of _ p w], (auto intro!: others_ops; fail)) | (simp; fail))+)

lemma others_add_events [others_ops]:
  assumes "others p w w'"
  shows "yields (splicepump_add_events os p pump w') (\<lambda>x. others p w (snd x))"
  using assms unfolding splicepump_add_events_def
  by - ((rule yields_if | (rule yields_bind_others_snd [of _ p w], (auto intro!: others_ops; fail))
    | (rule yields_bind_read) | (auto intro!: others_ops; fail))+)

lemma others_new_events [others_ops]:
  assumes "others p w w'"
  shows "yields (splicepump_new_events os base p pump w') (\<lambda>x. others p w (snd x))"
  using assms unfolding splicepump_new_events_def
  by - ((rule yields_if | (rule yields_let_others [of p w], (auto intro: others_allocs; fail))
    | (rule yields_bind_others [of _ p w], (auto intro!: others_ops; fail))
    | (rule yields_bind_read) | (auto intro!: others_ops; fail))+)

lemma yields_case_option:
  "(x = None \<Longrightarrow> yields n Q) \<Longrightarrow> (\<And>a b. x = Some (a, b) \<Longrightarrow> yields (f a b) Q) \<Longrightarrow>
   yields (case x of None \<Rightarrow> n | Some (a, b) \<Rightarrow> f a b) Q"
  by (auto split: option.split)

lemma others_open_pipes [others_ops]:
  assumes "others p w w'"
  shows "yields (splicepump_open_pipes os base p pump w') (\<lambda>x. others p w (snd x))"
  using assms unfolding splicepump_open_pipes_def
  by - ((rule yields_if | rule yields_case_option | (rule yields_let_others [of p w], (auto intro: others_allocs; fail))
    | (rule yields_bind_others [of _ p w], (auto intro!: others_ops; fail))
    | (auto intro!: others_ops; fail) | (rule yields_bind_read))+)

lemma others_splicepump_start:
  assumes "others p w w'"
  shows "yields (transocks_splicepump_start_pump os p w') (\<lambda>x. others p w (snd x))"
  using assms unfolding transocks_splicepump_start_pump_def
  by - ((rule yields_if | (rule yields_bind_others_snd [of _ p w], (auto intro!: others_ops; fail))
    | (auto intro!: others_ops; fail) | (rule yields_bind_read))+)

lemma others_bufferpump_start:
  assumes "others p w w'"
  shows "yields (transocks_bufferpump_start_pump os p w') (\<lambda>x. others p w (snd x))"
  using assms unfolding transocks_bufferpump_start_pump_def
  by - ((rule yields_if | (rule yields_bind_others [of _ p w], (auto intro!: others_ops; fail))
    | (rule yields_bind_others_snd [of _ p w], (auto intro!: others_ops; fail))
    | (simp; fail) | (rule yields_bind_read))+)

end
