(* ===== verification/Pump.thy ===== *)
theory Pump
  imports Frame
begin

text \<open>
  The choice between the two pumps, \<^verbatim>\<open>src/src/pump.c\<close>, and the functions of
  \<^verbatim>\<open>src/src/context.c\<close> that visit all clients through it.
\<close>

subsection \<open>The table of pumps\<close>

definition transocks_bufferpump_dump_info :: "os \<Rightarrow> addr \<Rightarrow> world \<Rightarrow> world option" where
  "transocks_bufferpump_dump_info os p w = transocks_client_dump_info os p w"

definition splicepipe_str :: "string \<Rightarrow> transocks_splicepipe \<Rightarrow> string" where
  "splicepipe_str tag pi = nl_tab @ ''  '' @ tag @ '': R '' @ dec_int (pipe_readfd pi) @ '' W ''
     @ dec_int (pipe_writefd pi) @ '' DATALEN '' @ dec_int (sint (data_in_pipe pi))
     @ '' CAPACITY '' @ dec_int (sint (capacity pi))"

definition transocks_splicepump_dump_info :: "os \<Rightarrow> addr \<Rightarrow> world \<Rightarrow> world option" where
  "transocks_splicepump_dump_info os p w =
     (if p = NULL then Some w
      else do {
        c \<leftarrow> clients w p;
        if user_arg c = NULL then Some w
        else do {
          ppump \<leftarrow> splicepumps w (user_arg c);
          let w = emit (Fprintf_stdout (nl_tab @ ''pipe:'')) w;
          ip \<leftarrow> splicepipes w (inbound_pipe ppump);
          let w = emit (Fprintf_stdout (splicepipe_str ''IN'' ip)) w;
          op \<leftarrow> splicepipes w (outbound_pipe ppump);
          let w = emit (Fprintf_stdout (splicepipe_str ''OUT'' op)) w;
          transocks_client_dump_info os p w
        }
      })"

record transocks_pump =
  pump_name :: string
  start_pump_fn :: "(os \<Rightarrow> addr \<Rightarrow> world \<Rightarrow> (int \<times> world) option) option"
  free_pump_fn :: "(os \<Rightarrow> addr \<Rightarrow> world \<Rightarrow> world option) option"
  dump_info_fn :: "(os \<Rightarrow> addr \<Rightarrow> world \<Rightarrow> world option) option"

definition PUMPMETHOD_SPLICE :: string where "PUMPMETHOD_SPLICE = ''splicepump''"
definition PUMPMETHOD_BUFFER :: string where "PUMPMETHOD_BUFFER = ''bufferpump''"

definition transocks_bufferpump_ops :: transocks_pump where
  "transocks_bufferpump_ops = \<lparr>pump_name = PUMPMETHOD_BUFFER,
     start_pump_fn = Some transocks_bufferpump_start_pump,
     free_pump_fn = Some transocks_bufferpump_free,
     dump_info_fn = Some transocks_bufferpump_dump_info\<rparr>"

definition transocks_splicepump_ops :: transocks_pump where
  "transocks_splicepump_ops = \<lparr>pump_name = PUMPMETHOD_SPLICE,
     start_pump_fn = Some transocks_splicepump_start_pump,
     free_pump_fn = Some transocks_splicepump_free,
     dump_info_fn = Some transocks_splicepump_dump_info\<rparr>"

fun pump_ops :: "pump_impl \<Rightarrow> transocks_pump" where
  "pump_ops Splicepump_ops = transocks_splicepump_ops"
| "pump_ops Bufferpump_ops = transocks_bufferpump_ops"

definition transocks_pumps :: "pump_impl list" where
  "transocks_pumps = [Splicepump_ops, Bufferpump_ops]"

subsection \<open>Dispatch\<close>

definition transocks_pump_init :: "addr \<Rightarrow> world \<Rightarrow> (int \<times> world) option" where
  "transocks_pump_init e w = do {
     env \<leftarrow> envs w e;
     name \<leftarrow> pump_method_name env;
     let w = (case find (\<lambda>i. name = pump_name (pump_ops i)) transocks_pumps of
                None \<Rightarrow> w
              | Some i \<Rightarrow> w\<lparr>pumpMethodImpl := Some i\<rparr>);
     case pumpMethodImpl w of
       None \<Rightarrow> Some (-1, w)
     | Some i \<Rightarrow>
         if start_pump_fn (pump_ops i) = None then Some (-1, w)
         else if free_pump_fn (pump_ops i) = None then Some (-1, w)
         else if dump_info_fn (pump_ops i) = None then Some (-1, w)
         else Some (0, w)
   }"

definition transocks_start_pump :: "os \<Rightarrow> addr \<Rightarrow> world \<Rightarrow> (int \<times> world) option" where
  "transocks_start_pump os p w = do {
     i \<leftarrow> pumpMethodImpl w;
     start \<leftarrow> start_pump_fn (pump_ops i);
     (r, w) \<leftarrow> start os p w;
     if r \<noteq> 0 then Some (-1, w)
     else do {
       w \<leftarrow> on_client p (\<lambda>c. c\<lparr>client_state := client_pumping_data\<rparr>) w;
       Some (0, w)
     }
   }"

definition transocks_pump_free :: "os \<Rightarrow> addr \<Rightarrow> world \<Rightarrow> world option" where
  "transocks_pump_free os p w = do {
     i \<leftarrow> pumpMethodImpl w;
     free \<leftarrow> free_pump_fn (pump_ops i);
     free os p w
   }"

definition transocks_pump_dump_info :: "os \<Rightarrow> addr \<Rightarrow> string \<Rightarrow> world \<Rightarrow> world option" where
  "transocks_pump_dump_info os p tag w = do {
     let w = emit (Fprintf_stdout (nl @ ''----------'' @ nl)) w;
     let w = emit (Fprintf_stdout tag) w;
     let w = emit (Fprintf_stdout ('':'' @ nl)) w;
     i \<leftarrow> pumpMethodImpl w;
     dump \<leftarrow> dump_info_fn (pump_ops i);
     dump os p w
   }"

subsection \<open>All clients\<close>

definition transocks_drop_all_clients :: "os \<Rightarrow> addr \<Rightarrow> world \<Rightarrow> world option" where
  "transocks_drop_all_clients os e w = do {
     env \<leftarrow> envs w e;
     list_for_each_entry_safe nodes
       (\<lambda>pclient w. do {
          w \<leftarrow> transocks_pump_dump_info os pclient ''close connection'' w;
          transocks_pump_free os pclient w
        })
       (current_clients_dlinklist env) w
   }"

text \<open>The loop state is the world and the counter \<open>i\<close>.\<close>

definition transocks_dump_all_client_info :: "os \<Rightarrow> addr \<Rightarrow> world \<Rightarrow> world option" where
  "transocks_dump_all_client_info os e w = do {
     env \<leftarrow> envs w e;
     let w = emit (Fprintf_stdout (''transocks-wong connection info:'' @ nl)) w;
     (w, _) \<leftarrow> list_for_each_entry (\<lambda>(w, i). nodes w)
       (\<lambda>pclient (w, i). do {
          w \<leftarrow> transocks_pump_dump_info os pclient (''conn #'' @ dec_int i) w;
          Some (w, i + 1)
        })
       (current_clients_dlinklist env) (w, 0);
     Some w
   }"

subsection \<open>The interface of a pump\<close>

text \<open>
  What the rest of the program relies on when it goes through the table of pumps: an operation on one client leaves all
  other clients, the environment and the selected pump alone, and a report only prints.
\<close>

locale pump_interface =
  fixes start :: "os \<Rightarrow> addr \<Rightarrow> world \<Rightarrow> (int \<times> world) option"
    and free :: "os \<Rightarrow> addr \<Rightarrow> world \<Rightarrow> world option"
    and dump :: "os \<Rightarrow> addr \<Rightarrow> world \<Rightarrow> world option"
  assumes start_others: "start os p w = Some (r, w') \<Longrightarrow> others p w w'"
    and free_others: "free os p w = Some w' \<Longrightarrow> others p w w'"
    and dump_calls: "dump os p w = Some w' \<Longrightarrow> only_calls w w'"
begin

lemma dump_others: "dump os p w = Some w' \<Longrightarrow> others q w w'"
  using dump_calls [of os p w w'] by (auto simp: only_calls_def)

text \<open>Report and free, as dropping all clients does with each of them.\<close>

lemma dump_free_others: "dump os p w \<bind> free os p = Some w' \<Longrightarrow> others p w w'"
  using dump_others free_others others_trans by (fastforce simp: bind_Some_iff)

text \<open>A pump that is started and freed again leaves the others alone, too.\<close>

lemma start_free_others: "start os p w \<bind> (\<lambda>(r, w). free os p w) = Some w' \<Longrightarrow> others p w w'"
  using start_others free_others others_trans by (fastforce simp: bind_Some_iff)

end

lemma client_dump_only_calls:
  "transocks_client_dump_info os p w = Some w' \<Longrightarrow> only_calls w w'"
  by (auto simp: transocks_client_dump_info_def Let_def emit_after_calls bind_Some_iff)

lemma splicepump_dump_only_calls:
  assumes "transocks_splicepump_dump_info os p w = Some w'"
  shows "only_calls w w'"
proof -
  have "only_calls w w'" if "transocks_client_dump_info os p (after_calls cs w) = Some w'" for cs
    using client_dump_only_calls [OF that] by (rule only_calls_trans [rotated]) auto
  with assms show ?thesis
    by (auto simp: transocks_splicepump_dump_info_def Let_def emit_after_calls bind_Some_iff split: if_splits)
qed

interpretation bp: pump_interface transocks_bufferpump_start_pump transocks_bufferpump_free transocks_bufferpump_dump_info
proof
  fix os p w r w'
  show "transocks_bufferpump_start_pump os p w = Some (r, w') \<Longrightarrow> others p w w'"
    using others_bufferpump_start [of p w w os] by (auto dest: yieldsD)
  show "transocks_bufferpump_free os p w = Some w' \<Longrightarrow> others p w w'"
    using others_bufferpump_free [of p w w os] by (auto dest: yieldsD)
  show "transocks_bufferpump_dump_info os p w = Some w' \<Longrightarrow> only_calls w w'"
    by (simp add: transocks_bufferpump_dump_info_def client_dump_only_calls)
qed

interpretation sp: pump_interface transocks_splicepump_start_pump transocks_splicepump_free transocks_splicepump_dump_info
proof
  fix os p w r w'
  show "transocks_splicepump_start_pump os p w = Some (r, w') \<Longrightarrow> others p w w'"
    using others_splicepump_start [of p w w os] by (auto dest: yieldsD)
  show "transocks_splicepump_free os p w = Some w' \<Longrightarrow> others p w w'"
    using others_splicepump_free [of p w w os] by (auto dest: yieldsD)
  show "transocks_splicepump_dump_info os p w = Some w' \<Longrightarrow> only_calls w w'"
    by (rule splicepump_dump_only_calls)
qed

subsection \<open>Properties\<close>

lemma pump_dump_then:
  "transocks_pump_dump_info os p tag w = Some w' \<Longrightarrow>
   \<exists>cs dump i. pumpMethodImpl w = Some i \<and> dump_info_fn (pump_ops i) = Some dump \<and> dump os p (after_calls cs w) = Some w'"
  by (auto simp: transocks_pump_dump_info_def emit_after_calls Let_def bind_Some_iff)

lemma pump_dump_only_calls: "transocks_pump_dump_info os p tag w = Some w' \<Longrightarrow> only_calls w w'"
proof -
  assume "transocks_pump_dump_info os p tag w = Some w'"
  then obtain cs dump i where "dump_info_fn (pump_ops i) = Some dump" "dump os p (after_calls cs w) = Some w'"
    using pump_dump_then by blast
  then have "only_calls (after_calls cs w) w'"
    using bp.dump_calls sp.dump_calls by (cases i) (auto simp: transocks_bufferpump_ops_def transocks_splicepump_ops_def)
  then show "only_calls w w'" by (rule only_calls_trans [rotated]) auto
qed

lemma pump_free_others: "transocks_pump_free os p w = Some w' \<Longrightarrow> others p w w'"
proof -
  assume "transocks_pump_free os p w = Some w'"
  then obtain i free where "free_pump_fn (pump_ops i) = Some free" "free os p w = Some w'"
    by (auto simp: transocks_pump_free_def bind_Some_iff)
  then show "others p w w'"
    using bp.free_others sp.free_others by (cases i) (auto simp: transocks_bufferpump_ops_def transocks_splicepump_ops_def)
qed

text \<open>
  Whichever pump is selected, starting it for a client and freeing a client through it leave every other client, the
  environment and the selection of the pump as they were.
\<close>

lemma pump_operations_local:
  "(transocks_start_pump os p w = Some (r, w') \<longrightarrow> others p w w')
   \<and> (transocks_pump_free os p w = Some w'' \<longrightarrow> others p w w'')"
proof (intro conjI impI)
  assume "transocks_start_pump os p w = Some (r, w')"
  then obtain i start m v where *: "start_pump_fn (pump_ops i) = Some start" "start os p w = Some (m, v)"
      "w' = v \<or> on_client p (\<lambda>c. c\<lparr>client_state := client_pumping_data\<rparr>) v = Some w'"
    by (auto simp: transocks_start_pump_def bind_Some_iff split: if_splits)
  then have "others p w v"
    using bp.start_others sp.start_others by (cases i) (auto simp: transocks_bufferpump_ops_def transocks_splicepump_ops_def)
  from *(3) yieldsD [OF others_yields(1) [OF this]] this show "others p w w'" by blast
qed (rule pump_free_others)

lemma sample_buffer_pump:
  "\<exists>w'. transocks_pump_free demo_os 3 (sample_world\<lparr>pumpMethodImpl := Some Bufferpump_ops\<rparr>) = Some w'
     \<and> clients w' = Map.empty"
proof -
  let ?w = "sample_world\<lparr>pumpMethodImpl := Some Bufferpump_ops\<rparr>"
  have "pump_ok 3 sample_client 2 [] [] ?w"
    using sample_pump by (simp add: pump_ok_def client_ok_def wf_world_def)
  from bufferpump_free_effect [OF this, of demo_os] show ?thesis
    by (auto simp: holds_def pump_effect_def transocks_pump_free_def transocks_bufferpump_ops_def sample_world_def)
qed

theorem pump_operations_local_witness:
  "\<exists>w'. transocks_pump_free demo_os 3 (sample_world\<lparr>pumpMethodImpl := Some Bufferpump_ops\<rparr>) = Some w'
     \<and> others 3 (sample_world\<lparr>pumpMethodImpl := Some Bufferpump_ops\<rparr>) w' \<and> clients w' 3 = None"
  using sample_buffer_pump pump_operations_local by fastforce

text \<open>
  Whichever pump is selected, and whatever the state, reporting all clients changes nothing but the output, and
  dropping clients never creates one and keeps the environment.
\<close>

theorem visiting_all_clients:
  "(transocks_dump_all_client_info os e w = Some w' \<longrightarrow> only_calls w w')
   \<and> (transocks_drop_all_clients os e w = Some w'' \<longrightarrow>
       dom (clients w'') \<subseteq> dom (clients w) \<and> envs w'' = envs w \<and> pumpMethodImpl w'' = pumpMethodImpl w)"
proof (intro conjI impI)
  assume "transocks_dump_all_client_info os e w = Some w'"
  then obtain env i where env: "envs w e = Some env"
    and loop: "list_for_each_entry (\<lambda>(w, i). nodes w)
       (\<lambda>pclient (w, i). do { w \<leftarrow> transocks_pump_dump_info os pclient (''conn #'' @ dec_int i) w; Some (w, i + 1) })
       (current_clients_dlinklist env) (emit (Fprintf_stdout (''transocks-wong connection info:'' @ nl)) w, 0) = Some (w', i)"
    by (auto simp: transocks_dump_all_client_info_def bind_Some_iff Let_def)
  show "only_calls w w'"
    using list_for_each_entry_inv [OF loop, of "\<lambda>(v, i). only_calls w v"] pump_dump_only_calls only_calls_trans
    by (force simp: emit_after_calls bind_Some_iff)
next
  assume "transocks_drop_all_clients os e w = Some w''"
  then obtain env where env: "envs w e = Some env"
    and loop: "list_for_each_entry_safe nodes
       (\<lambda>p w. transocks_pump_dump_info os p ''close connection'' w \<bind> transocks_pump_free os p)
       (current_clients_dlinklist env) w = Some w''"
    by (auto simp: transocks_drop_all_clients_def bind_Some_iff)
  let ?I = "\<lambda>v. dom (clients v) \<subseteq> dom (clients w) \<and> envs v = envs w \<and> pumpMethodImpl v = pumpMethodImpl w"
  have step: "?I v'" if m: "transocks_pump_dump_info os p ''close connection'' v \<bind> transocks_pump_free os p = Some v'" "?I v" for p v v'
  proof -
    obtain u where u: "transocks_pump_dump_info os p ''close connection'' v = Some u" "transocks_pump_free os p u = Some v'"
      using m unfolding bind_Some_iff by blast
    have "others p v u" using pump_dump_only_calls [OF u(1)] by (auto simp: only_calls_def)
    then have "others p v v'" using pump_free_others [OF u(2)] by (rule others_trans)
    then have "dom (clients v') \<subseteq> dom (clients v)" unfolding others_def by (metis domIff subsetI)
    then have "dom (clients v') \<subseteq> dom (clients w)" using that(2) by blast
    with \<open>others p v v'\<close> that(2) show ?thesis by (simp add: others_def)
  qed
  show "dom (clients w'') \<subseteq> dom (clients w)" "envs w'' = envs w" "pumpMethodImpl w'' = pumpMethodImpl w"
    using list_for_each_entry_safe_inv [OF loop, of ?I] step by blast+
qed

theorem visiting_all_clients_witness:
  "\<exists>w'. transocks_dump_all_client_info demo_os 1
       (sample_world\<lparr>envs := [1 \<mapsto> sample_env], clients := Map.empty, nodes := [2 \<mapsto> \<lparr>lh_next = 2, lh_prev = 2\<rparr>]\<rparr>) = Some w'
     \<and> only_calls (sample_world\<lparr>envs := [1 \<mapsto> sample_env], clients := Map.empty, nodes := [2 \<mapsto> \<lparr>lh_next = 2, lh_prev = 2\<rparr>]\<rparr>) w'"
proof -
  let ?w = "sample_world\<lparr>envs := [1 \<mapsto> sample_env], clients := Map.empty, nodes := [2 \<mapsto> \<lparr>lh_next = 2, lh_prev = 2\<rparr>]\<rparr>"
  have "\<exists>w'. transocks_dump_all_client_info demo_os 1 ?w = Some w'"
    by (simp add: transocks_dump_all_client_info_def sample_env_def list_for_each_entry_def list_for_each_loop.simps
        emit_after_calls get_next_def Let_def)
  then show ?thesis using visiting_all_clients [of demo_os 1 ?w] by blast
qed

text \<open>
  The pump is selected by name; a name that is not in the table is reported as an error when no pump had been selected,
  and nothing else changes.
\<close>

theorem pump_init_selects:
  assumes "envs w e = Some env" and "pump_method_name env = Some name" and "pumpMethodImpl w = None"
  shows "transocks_pump_init e w =
    (if name = ''splicepump'' then Some (0, w\<lparr>pumpMethodImpl := Some Splicepump_ops\<rparr>)
     else if name = ''bufferpump'' then Some (0, w\<lparr>pumpMethodImpl := Some Bufferpump_ops\<rparr>)
     else Some (-1, w))"
  using assms
  by (simp add: transocks_pump_init_def transocks_pumps_def transocks_splicepump_ops_def transocks_bufferpump_ops_def
      PUMPMETHOD_SPLICE_def PUMPMETHOD_BUFFER_def)

theorem pump_init_selects_witness:
  "transocks_pump_init 1 (sample_world\<lparr>envs := [1 \<mapsto> sample_env\<lparr>pump_method_name := Some ''bufferpump''\<rparr>]\<rparr>) =
     Some (0, sample_world\<lparr>envs := [1 \<mapsto> sample_env\<lparr>pump_method_name := Some ''bufferpump''\<rparr>], pumpMethodImpl := Some Bufferpump_ops\<rparr>)"
  using pump_init_selects [of "sample_world\<lparr>envs := [1 \<mapsto> sample_env\<lparr>pump_method_name := Some ''bufferpump''\<rparr>]\<rparr>" 1
      "sample_env\<lparr>pump_method_name := Some ''bufferpump''\<rparr>" "''bufferpump''"]
  by (simp add: sample_world_def demo_start_def)

end
