(* ===== verification/Socks5.thy ===== *)
theory Socks5
  imports Socks5_Wire Pump
begin

text \<open>
  The SOCKS5 handshake of \<^verbatim>\<open>src/src/socks5.c\<close>: connecting to the relay, offering the method
  "no authentication", requesting the connection to the original destination, and handing over to
  the pump once the relay has accepted.
\<close>

unbundle bit_operations_syntax

definition socks5_timeout_tv :: nat where "socks5_timeout_tv = 60"

definition socks_handshake_stage_errcb :: "os \<Rightarrow> 16 word \<Rightarrow> addr \<Rightarrow> world \<Rightarrow> world option" where
  "socks_handshake_stage_errcb os bev_events p w = do {
     c \<leftarrow> clients w p;
     w \<leftarrow> event_del (timeout_ev c) w;
     if TRANSOCKS_CHKBIT bev_events BEV_EVENT_EOF \<or> TRANSOCKS_CHKBIT bev_events BEV_EVENT_ERROR
     then TRANSOCKS_FREE (transocks_client_free os) p w
     else Some w
   }"

definition socks_on_server_connect_reply_readcb :: "os \<Rightarrow> addr \<Rightarrow> world \<Rightarrow> world option" where
  "socks_on_server_connect_reply_readcb os p w = do {
     c \<leftarrow> clients w p;
     w \<leftarrow> event_del (timeout_ev c) w;
     let input = Input (relay_bev c);
     input_read_size \<leftarrow> evbuffer_get_length os input w;
     if input_read_size < 10 then TRANSOCKS_FREE (transocks_client_free os) p w
     else do {
       (mem, w) \<leftarrow> evbuffer_pullup os input input_read_size w;
       m \<leftarrow> mem;
       preshead \<leftarrow> as_response_header m;
       if rh_ver preshead \<noteq> SOCKS5_VERSION then TRANSOCKS_FREE (transocks_client_free os) p w
       else if rh_rep preshead \<noteq> SOCKS5_REP_SUCCEEDED then TRANSOCKS_FREE (transocks_client_free os) p w
       else if rh_atyp preshead = SOCKS5_ATYP_IPV4 \<or> rh_atyp preshead = SOCKS5_ATYP_IPV6 then do {
         (_, w) \<leftarrow> evbuffer_drain os input (if rh_atyp preshead = SOCKS5_ATYP_IPV4 then 10 else 22) w;
         w \<leftarrow> on_client p (\<lambda>c. c\<lparr>client_state := client_socks5_finish_handshake\<rparr>) w;
         (_, w) \<leftarrow> bufferevent_disable os (relay_bev c) EV_READ_WRITE w;
         (r, w) \<leftarrow> transocks_start_pump os p w;
         if r \<noteq> 0 then TRANSOCKS_FREE (transocks_client_free os) p w
         else Some w
       }
       else TRANSOCKS_FREE (transocks_client_free os) p w
     }
   }"

text \<open>The request for the destination of the client, \<^const>\<open>None\<close> for an unknown address family.\<close>

definition connect_request_ipv4 :: "sockaddr_storage \<Rightarrow> socks_request_ipv4" where
  "connect_request_ipv4 sa = \<lparr>r4_ver = SOCKS5_VERSION, r4_cmd = SOCKS5_CMD_CONNECT, r4_rsv = 0x00,
     r4_atyp = SOCKS5_ATYP_IPV4, r4_addr = sin_addr sa, r4_port = sin_port sa\<rparr>"

definition connect_request_ipv6 :: "sockaddr_storage \<Rightarrow> socks_request_ipv6" where
  "connect_request_ipv6 sa = \<lparr>r6_ver = SOCKS5_VERSION, r6_cmd = SOCKS5_CMD_CONNECT, r6_rsv = 0x00,
     r6_atyp = SOCKS5_ATYP_IPV6, r6_addr = sin6_addr sa, r6_port = sin6_port sa\<rparr>"

definition socks_await_connect_reply :: "os \<Rightarrow> addr \<Rightarrow> addr \<Rightarrow> world \<Rightarrow> world option" where
  "socks_await_connect_reply os b p w = do {
     w \<leftarrow> bufferevent_setwatermark b EV_READ 10 TRANSOCKS_BUFSIZE w;
     w \<leftarrow> bufferevent_setcb b Socks_on_server_connect_reply_readcb No_callback
            Socks_handshake_stage_errcb p w;
     (_, w) \<leftarrow> bufferevent_enable os b EV_READ w;
     (_, w) \<leftarrow> transocks_client_set_timeout os p socks5_timeout_tv Socks5_timeout_cb p w;
     Some w
   }"

definition socks_send_connect_request :: "os \<Rightarrow> addr \<Rightarrow> world \<Rightarrow> world option" where
  "socks_send_connect_request os p w = do {
     c \<leftarrow> clients w p;
     dest \<leftarrow> sockaddrs w (dest_addr c);
     if ss_family dest = AF_INET then do {
       let (req_ip4, w) = alloc os (Malloc T_socks_request_ipv4) w;
       if req_ip4 = NULL then TRANSOCKS_FREE (transocks_client_free os) p w
       else do {
         (_, w) \<leftarrow> bufferevent_write os (relay_bev c) (request_ipv4_bytes (connect_request_ipv4 dest)) w;
         let w = emit (Free req_ip4) w;
         socks_await_connect_reply os (relay_bev c) p w
       }
     }
     else if ss_family dest = AF_INET6 then do {
       let (req_ip6, w) = alloc os (Malloc T_socks_request_ipv6) w;
       if req_ip6 = NULL then TRANSOCKS_FREE (transocks_client_free os) p w
       else do {
         (_, w) \<leftarrow> bufferevent_write os (relay_bev c) (request_ipv6_bytes (connect_request_ipv6 dest)) w;
         let w = emit (Free req_ip6) w;
         socks_await_connect_reply os (relay_bev c) p w
       }
     }
     else TRANSOCKS_FREE (transocks_client_free os) p w
   }"

definition socks_on_server_selected_method_readcb :: "os \<Rightarrow> addr \<Rightarrow> addr \<Rightarrow> world \<Rightarrow> world option" where
  "socks_on_server_selected_method_readcb os bev p w = do {
     c \<leftarrow> clients w p;
     w \<leftarrow> event_del (timeout_ev c) w;
     let input = Input bev;
     input_read_size \<leftarrow> evbuffer_get_length os input w;
     if input_read_size < 2 then TRANSOCKS_FREE (transocks_client_free os) p w
     else do {
       (mem, w) \<leftarrow> evbuffer_pullup os input input_read_size w;
       m \<leftarrow> mem;
       pres \<leftarrow> as_method_select_response m;
       if msp_ver pres \<noteq> SOCKS5_VERSION then TRANSOCKS_FREE (transocks_client_free os) p w
       else if msp_method pres \<noteq> SOCKS5_METHOD_NOAUTH then TRANSOCKS_FREE (transocks_client_free os) p w
       else do {
         (r, w) \<leftarrow> evbuffer_drain os input 2 w;
         if r \<noteq> 0 then TRANSOCKS_FREE (transocks_client_free os) p w
         else do {
           n \<leftarrow> evbuffer_get_length os input w;
           if n \<noteq> 0 then TRANSOCKS_FREE (transocks_client_free os) p w
           else socks_send_connect_request os p w
         }
       }
     }
   }"

definition method_selection :: socks_method_select_request where
  "method_selection = \<lparr>msr_ver = SOCKS5_VERSION, msr_nmethods = 0x01, msr_methods = [SOCKS5_METHOD_NOAUTH]\<rparr>"

definition socks_send_method_selection :: "os \<Rightarrow> addr \<Rightarrow> world \<Rightarrow> world option" where
  "socks_send_method_selection os p w = do {
     c \<leftarrow> clients w p;
     let b = relay_bev c;
     w \<leftarrow> bufferevent_setwatermark b EV_READ 2 TRANSOCKS_BUFSIZE w;
     (_, w) \<leftarrow> bufferevent_write os b (method_select_request_bytes method_selection) w;
     w \<leftarrow> bufferevent_setcb b Socks_on_server_selected_method_readcb No_callback
            Socks_handshake_stage_errcb p w;
     (_, w) \<leftarrow> bufferevent_enable os b EV_READ w;
     (_, w) \<leftarrow> transocks_client_set_timeout os p socks5_timeout_tv Socks5_timeout_cb p w;
     Some w
   }"

definition relay_onconnect_eventcb :: "os \<Rightarrow> 16 word \<Rightarrow> addr \<Rightarrow> world \<Rightarrow> world option" where
  "relay_onconnect_eventcb os bev_events p w = do {
     c \<leftarrow> clients w p;
     w \<leftarrow> event_del (timeout_ev c) w;
     if TRANSOCKS_CHKBIT bev_events BEV_EVENT_CONNECTED then do {
       w \<leftarrow> on_client p (\<lambda>c. c\<lparr>client_state := client_relay_connected\<rparr>) w;
       socks_send_method_selection os p w
     }
     else if TRANSOCKS_CHKBIT bev_events BEV_EVENT_ERROR then TRANSOCKS_FREE (transocks_client_free os) p w
     else Some w
   }"

definition socks5_timeout_cb :: "os \<Rightarrow> addr \<Rightarrow> world \<Rightarrow> world option" where
  "socks5_timeout_cb os p w = TRANSOCKS_FREE (transocks_client_free os) p w"

text \<open>The labels \<^verbatim>\<open>closeFd\<close> and \<^verbatim>\<open>freeBev\<close> fall through to \<^verbatim>\<open>freeClient\<close>.\<close>

definition connect_relay_closeFd :: "os \<Rightarrow> int \<Rightarrow> addr \<Rightarrow> world \<Rightarrow> world option" where
  "connect_relay_closeFd os fd p w = do {
     let (_, w) = TRANSOCKS_CLOSE fd w;
     TRANSOCKS_FREE (transocks_client_free os) p w
   }"

definition connect_relay_freeBev :: "os \<Rightarrow> addr \<Rightarrow> int \<Rightarrow> addr \<Rightarrow> world \<Rightarrow> world option" where
  "connect_relay_freeBev os b fd p w = do {
     w \<leftarrow> TRANSOCKS_FREE bufferevent_free b w;
     connect_relay_closeFd os fd p w
   }"

definition transocks_start_connect_relay :: "os \<Rightarrow> addr \<Rightarrow> world \<Rightarrow> world option" where
  "transocks_start_connect_relay os p w = do {
     c \<leftarrow> clients w p;
     env \<leftarrow> envs w (global_env c);
     ra \<leftarrow> sockaddrs w (relay_addr env);
     let (fd, w) = sys os (Socket (ss_family ra)) w;
     if fd < 0 then TRANSOCKS_FREE (transocks_client_free os) p w
     else do {
       let (r, w) = setnonblocking os fd True w;
       if r \<noteq> 0 then connect_relay_closeFd os fd p w
       else do {
         let (r, w) = apply_tcp_keepalive os fd w;
         if r \<noteq> 0 then connect_relay_closeFd os fd p w
         else do {
           let (r, w) = apply_tcp_nodelay os fd w;
           if r \<noteq> 0 then connect_relay_closeFd os fd p w
           else do {
             w \<leftarrow> on_client p (\<lambda>c. c\<lparr>relay_fd := fd\<rparr>) w;
             let (b, w) = bufferevent_socket_new os (eventBaseLoop env) fd w;
             if b = NULL then connect_relay_closeFd os fd p w
             else do {
               w \<leftarrow> on_client p (\<lambda>c. c\<lparr>relay_bev := b\<rparr>) w;
               w \<leftarrow> bufferevent_setcb b No_callback No_callback Relay_onconnect_eventcb p w;
               (_, w) \<leftarrow> bufferevent_enable os b EV_WRITE w;
               (_, w) \<leftarrow> transocks_client_set_timeout os p socks5_timeout_tv Socks5_timeout_cb p w;
               (r, w) \<leftarrow> bufferevent_socket_connect os b ra (relay_addr_len env) w;
               if r \<noteq> 0 then connect_relay_freeBev os b fd p w
               else Some w
             }
           }
         }
       }
     }
   }"

subsection \<open>Messages\<close>

lemma connect_requests_parsed:
  assumes "wf_sockaddr dest"
  shows "rfc1928_connect (request_ipv4_bytes (connect_request_ipv4 dest) @ rest) = Some (IPv4 (sin_addr dest), sin_port dest, rest)"
    "rfc1928_connect (request_ipv6_bytes (connect_request_ipv6 dest) @ rest) = Some (IPv6 (sin6_addr dest), sin6_port dest, rest)"
  using assms rfc1928_connect_ipv4 [of "sin_addr dest" "sin_port dest" rest] rfc1928_connect_ipv6 [of "sin6_addr dest" "sin6_port dest" rest]
  by (simp_all add: socks5_consts request_ipv4_bytes_def connect_request_ipv4_def request_ipv6_bytes_def connect_request_ipv6_def)

text \<open>
  C18: What the program sends is what RFC 1928 prescribes: it offers exactly the method "no authentication", and its request
  asks to connect to the original destination of the client, with the address and port in network byte order.
\<close>

theorem requests_conform_rfc1928:
  assumes "wf_sockaddr dest"
  shows "rfc1928_methods (method_select_request_bytes method_selection) = Some [0]
    \<and> rfc1928_connect (request_ipv4_bytes (connect_request_ipv4 dest) @ rest) = Some (IPv4 (sin_addr dest), sin_port dest, rest)
    \<and> rfc1928_connect (request_ipv6_bytes (connect_request_ipv6 dest) @ rest) = Some (IPv6 (sin6_addr dest), sin6_port dest, rest)"
  using connect_requests_parsed [OF assms]
  by (simp add: rfc1928_methods_def method_select_request_bytes_def method_selection_def socks5_consts)

theorem requests_conform_rfc1928_witness:
  "wf_sockaddr demo_sockaddr \<and> rfc1928_connect (request_ipv4_bytes (connect_request_ipv4 demo_sockaddr)) =
     Some (IPv4 [10, 0, 0, 1], [0x1f, 0x90], [])"
  using requests_conform_rfc1928 [of demo_sockaddr "[]"]
  by (simp add: wf_sockaddr_def demo_sockaddr_def sin_addr_def sin_port_def)



subsection \<open>The state of a handshake\<close>

definition handshake_ok :: "addr \<Rightarrow> transocks_client \<Rightarrow> addr \<Rightarrow> addr list \<Rightarrow> addr list \<Rightarrow> world \<Rightarrow> bool" where
  "handshake_ok p c head us vs w \<longleftrightarrow> pump_ok p c head us vs w \<and> timeout_ev c \<noteq> NULL"

text \<open>The state after the timer of the client has been stopped.\<close>

definition timer_stopped :: "transocks_client \<Rightarrow> world \<Rightarrow> world" where
  "timer_stopped c w = after_calls [Event_del (timeout_ev c)] (w\<lparr>events := events_deleted (timeout_ev c) (events w)\<rparr>)"

lemma timer_stopped_simps [simp]:
  "clients (timer_stopped c w) = clients w" "bevs (timer_stopped c w) = bevs w" "envs (timer_stopped c w) = envs w"
  "sockaddrs (timer_stopped c w) = sockaddrs w" "hist (timer_stopped c w) = hist w @ [Event_del (timeout_ev c)]"
  "nodes (timer_stopped c w) = nodes w"
  by (simp_all add: timer_stopped_def)

lemma event_del_timer:
  assumes "handshake_ok p c head us vs w"
  shows "event_del (timeout_ev c) w = Some (timer_stopped c w)"
proof -
  obtain r where "events w (timeout_ev c) = Some r"
    using assms by (auto simp: handshake_ok_def pump_ok_def client_ok_def null_or_live_def)
  then show ?thesis by (simp add: event_del_def timer_stopped_def events_deleted_def emit_after_calls)
qed

lemma pump_ok_timer_stopped:
  assumes "handshake_ok p c head us vs w"
  shows "pump_ok p c head us vs (timer_stopped c w)"
proof -
  have "dom (events_deleted (timeout_ev c) (events w)) = dom (events w)" by (simp add: dom_def)
  with assms show ?thesis
    by (simp add: handshake_ok_def pump_ok_def client_ok_def timer_stopped_def wf_world_def)
qed

lemma release_effect:
  assumes P: "pump_ok p c head us vs w"
  shows "holds (TRANSOCKS_FREE (transocks_client_free os) p w) (pump_effect p c head us vs w None)"
proof -
  obtain h' where h': "list_del p (nodes w) = Some h'" "dlist h' head (us @ vs)" "p \<notin> set (head # us @ vs)" "dom h' = dom (nodes w)"
    using P list_del_law [of "nodes w" head us p vs] dlist_distinct [of "nodes w" head "us @ p # vs"]
    by (auto simp: pump_ok_def)
  have "dlist (h'(p := None)) head (us @ vs)"
    using h'(3) by (auto intro: dlist_agree [OF h'(2)])
  moreover have "wf_world (client_removed p c h' w)" using P h'(4) by (intro wf_client_removed) (simp_all add: pump_ok_def)
  ultimately show ?thesis
    using transocks_client_free_run [of w p c h' os] P h'(1) pump_okD(2) [OF P]
    by (auto simp: pump_ok_def TRANSOCKS_FREE_def pump_effect_def client_removed_def)
qed

lemma release_timer_stopped:
  assumes H: "handshake_ok p c head us vs w"
  shows "holds (TRANSOCKS_FREE (transocks_client_free os) p (after_calls cs (timer_stopped c w))) (pump_effect p c head us vs w None)"
proof (rule holds_mono)
  show "holds (TRANSOCKS_FREE (transocks_client_free os) p (after_calls cs (timer_stopped c w)))
      (pump_effect p c head us vs (after_calls cs (timer_stopped c w)) None)"
    using pump_ok_timer_stopped [OF H] by (intro release_effect) simp
qed (simp add: pump_effect_def, simp add: timer_stopped_def)

subsection \<open>Answers of the relay\<close>

definition reply_accepted :: "byte list \<Rightarrow> bool" where
  "reply_accepted d \<longleftrightarrow> length d \<ge> 10 \<and> d ! 0 = 5 \<and> d ! 1 = 0 \<and> (d ! 3 = 1 \<or> d ! 3 = 4)"

definition method_accepted :: "byte list \<Rightarrow> bool" where
  "method_accepted d \<longleftrightarrow> length d \<ge> 2 \<and> d ! 0 = 5 \<and> d ! 1 = 0"

text \<open>A complete successful reply with an IP address is accepted; its length is 10 or 22.\<close>

lemma rfc_reply_accepted:
  assumes "rfc1928_success_reply d = Some (a, port, rest)" and "\<forall>n. a \<noteq> Domain n"
  shows "reply_accepted d \<and> d = take (if d ! 3 = 1 then 10 else 22) d @ rest
    \<and> length d = (if d ! 3 = 1 then 10 else 22) + length rest"
proof -
  obtain v r rs aty more where d: "d = v # r # rs # aty # more" "v = 5" "r = 0"
    using assms(1) by (auto simp: rfc1928_success_reply_def rfc1928_address_def split: list.splits if_splits)
  have "aty = 1 \<and> length more \<ge> 6 \<and> rest = drop 6 more \<or> aty = 4 \<and> length more \<ge> 18 \<and> rest = drop 18 more"
    using assms d by (auto simp: rfc1928_success_reply_def rfc1928_address_def split: list.splits if_splits)
  with d show ?thesis by (auto simp: reply_accepted_def)
qed

lemma handshake_client: "handshake_ok p c head us vs w \<Longrightarrow> clients w p = Some c"
  by (auto simp: handshake_ok_def dest: pump_okD(1))

lemma pump_ok_relay: "handshake_ok p c head us vs w \<Longrightarrow> \<exists>r. bevs w (relay_bev c) = Some r"
  by (auto simp: handshake_ok_def dest: pump_okD(4))

lemma connect_reply_rejects:
  assumes H: "handshake_ok p c head us vs w"
    and R: "\<And>h n. os_alloc os h (Evbuffer_pullup (Input (relay_bev c)) n)"
    and d: "d = os_data os (hist w @ [Event_del (timeout_ev c)]) (Input (relay_bev c))" "\<not> reply_accepted d"
  shows "holds (socks_on_server_connect_reply_readcb os p w) (pump_effect p c head us vs w None)"
proof -
  note c = handshake_client [OF H]
  obtain r where r: "bevs w (relay_bev c) = Some r" using pump_ok_relay [OF H] by blast
  note rel = release_timer_stopped [OF H, of os]
  show ?thesis
  proof (cases "length d < 10")
    case True
    with c r d rel [of "[]"] event_del_timer [OF H] show ?thesis
      by (simp add: socks_on_server_connect_reply_readcb_def evbuffer_get_length_def Let_def)
  next
    case False
    then have "\<exists>h. as_response_header d = Some h \<and> rh_ver h = d ! 0 \<and> rh_rep h = d ! 1 \<and> rh_atyp h = d ! 3"
      by (simp add: as_response_header_def)
    with False c r d rel [of "[Evbuffer_pullup (Input (relay_bev c)) (length d)]"] event_del_timer [OF H] R show ?thesis
      by (auto simp: socks_on_server_connect_reply_readcb_def evbuffer_get_length_def evbuffer_pullup_def Let_def
          emit_after_calls reply_accepted_def socks5_consts)
  qed
qed


definition reply_os :: "byte list \<Rightarrow> os" where
  "reply_os d = demo_os\<lparr>os_data := \<lambda>h b. case b of Input _ \<Rightarrow> d | Output _ \<Rightarrow> []\<rparr>"

lemma sample_handshake: "handshake_ok 3 sample_client 2 [] [] sample_world"
  using sample_pump by (simp add: handshake_ok_def sample_client_def)


lemma enable_run:
  assumes "b \<in> dom (bevs w)" and "os_ret os (hist w) (Bufferevent_enable b fl) = 0"
  shows "\<exists>r. bevs w b = Some r \<and> bufferevent_enable os b fl w =
    Some (0, after_calls [Bufferevent_enable b fl] (w\<lparr>bevs := (bevs w)(b \<mapsto> r\<lparr>bev_enabled := bev_enabled r OR fl\<rparr>)\<rparr>))"
  using assms by (auto simp: bufferevent_enable_def on_bev_def sys_after_calls)

lemma bufferpump_start_run:
  assumes P: "pump_ok p c head us vs w" and en: "\<And>h b fl. os_ret os h (Bufferevent_enable b fl) = 0"
  shows "\<exists>w' cs. transocks_bufferpump_start_pump os p w = Some (0, w') \<and> clients w' = clients w \<and> hist w' = hist w @ cs"
proof -
  obtain r s where "bevs w (client_bev c) = Some r" "bevs w (relay_bev c) = Some s" using pump_okD(3,4) [OF P] by blast
  with pump_okD(1) [OF P] en show ?thesis
    by (simp add: transocks_bufferpump_start_pump_def bufferevent_setwatermark_def bufferevent_setcb_def bufferevent_enable_def
        on_bev_def sys_after_calls emit_after_calls)
qed

lemma pump_ok_handshake_state:
  assumes "pump_ok p c head us vs w"
  shows "pump_ok p (c\<lparr>client_state := client_socks5_finish_handshake\<rparr>) head us vs
    (w\<lparr>clients := (clients w)(p \<mapsto> c\<lparr>client_state := client_socks5_finish_handshake\<rparr>)\<rparr>)"
  using assms by (auto simp: pump_ok_def client_ok_def wf_world_def)

text \<open>What the callback does once it has accepted a reply and taken it from the input.\<close>

definition reply_taken :: "addr \<Rightarrow> transocks_client \<Rightarrow> nat \<Rightarrow> nat \<Rightarrow> world \<Rightarrow> world" where
  "reply_taken p c len n w = after_calls [Evbuffer_pullup (Input (relay_bev c)) len, Evbuffer_drain (Input (relay_bev c)) n]
     (timer_stopped c w\<lparr>clients := (clients w)(p \<mapsto> c\<lparr>client_state := client_socks5_finish_handshake\<rparr>)\<rparr>)"

lemma pump_ok_reply_taken:
  assumes "handshake_ok p c head us vs w"
  shows "pump_ok p (c\<lparr>client_state := client_socks5_finish_handshake\<rparr>) head us vs (reply_taken p c len n w)"
  using pump_ok_handshake_state [OF pump_ok_timer_stopped [OF assms]] by (simp add: reply_taken_def)

lemma connect_reply_accepts:
  assumes H: "handshake_ok p c head us vs w"
    and R: "\<And>h n. os_alloc os h (Evbuffer_pullup (Input (relay_bev c)) n)"
    and d: "d = os_data os (hist w @ [Event_del (timeout_ev c)]) (Input (relay_bev c))" "reply_accepted d"
  shows "socks_on_server_connect_reply_readcb os p w = do {
      (_, w) \<leftarrow> bufferevent_disable os (relay_bev c) EV_READ_WRITE (reply_taken p c (length d) (if d ! 3 = 1 then 10 else 22) w);
      (r, w) \<leftarrow> transocks_start_pump os p w;
      if r \<noteq> 0 then TRANSOCKS_FREE (transocks_client_free os) p w else Some w
    }"
proof -
  obtain r where r: "bevs w (relay_bev c) = Some r" using pump_ok_relay [OF H] by blast
  have head: "as_response_header d = Some \<lparr>rh_ver = 5, rh_rep = 0, rh_rsv = d ! 2, rh_atyp = d ! 3\<rparr>"
    using d(2) by (simp add: as_response_header_def reply_accepted_def)
  have len: "\<not> length d < 10" and ty: "d ! 3 = 1 \<or> d ! 3 = 4" using d(2) by (simp_all add: reply_accepted_def)
  show ?thesis
    using handshake_client [OF H] event_del_timer [OF H] r head R len ty
    by (auto simp: socks_on_server_connect_reply_readcb_def evbuffer_get_length_def evbuffer_pullup_def evbuffer_drain_def Let_def
       emit_after_calls sys_after_calls socks5_consts on_client_def reply_taken_def d(1) [symmetric])
qed


lemma sample_handshake_pump: "handshake_ok 3 sample_client 2 [] [] (sample_world\<lparr>pumpMethodImpl := Some Bufferpump_ops\<rparr>)"
  using sample_handshake by (simp add: handshake_ok_def pump_ok_def client_ok_def wf_world_def)


end
