(* ===== verification/Listener.thy ===== *)
theory Listener
  imports Socks5
begin

text \<open>
  Accepting connections, \<^verbatim>\<open>src/src/listener.c\<close>: the callback that turns an accepted socket into a
  client on the list of the environment, and the set-up and tear-down of the listening socket.
\<close>

unbundle bit_operations_syntax

subsection \<open>Accepting a connection\<close>

text \<open>
  \<^verbatim>\<open>memcpy\<close> of the first \<open>n\<close> bytes of one \<^verbatim>\<open>sockaddr_storage\<close> over another; copying more than the
  structure holds is undefined.
\<close>

definition memcpy_sockaddr :: "nat \<Rightarrow> sockaddr_storage \<Rightarrow> sockaddr_storage \<Rightarrow> sockaddr_storage option" where
  "memcpy_sockaddr n src dst =
     (if n > sizeof_sockaddr_storage then None
      else Some \<lparr>ss_family = (if n \<ge> 2 then ss_family src else ss_family dst),
                 ss_data = take (n - 2) (ss_data src) @ drop (n - 2) (ss_data dst)\<rparr>)"

definition on_sockaddr :: "addr \<Rightarrow> (sockaddr_storage \<Rightarrow> sockaddr_storage option) \<Rightarrow> world \<Rightarrow> world option" where
  "on_sockaddr a f w = do {
     s \<leftarrow> sockaddrs w a;
     s' \<leftarrow> f s;
     Some (w\<lparr>sockaddrs := (sockaddrs w)(a \<mapsto> s')\<rparr>)
   }"

text \<open>The labels \<^verbatim>\<open>freeBev\<close>, \<^verbatim>\<open>freeClient\<close> and \<^verbatim>\<open>freeFd\<close>, each falling through to the next.\<close>

definition listener_freeFd :: "int \<Rightarrow> world \<Rightarrow> world option" where
  "listener_freeFd fd w = Some (snd (TRANSOCKS_CLOSE fd w))"

definition listener_freeClient :: "os \<Rightarrow> addr \<Rightarrow> int \<Rightarrow> world \<Rightarrow> world option" where
  "listener_freeClient os p fd w = do {
     w \<leftarrow> TRANSOCKS_FREE (transocks_client_free os) p w;
     listener_freeFd fd w
   }"

definition listener_freeBev :: "os \<Rightarrow> addr \<Rightarrow> addr \<Rightarrow> int \<Rightarrow> world \<Rightarrow> world option" where
  "listener_freeBev os b p fd w = do {
     w \<leftarrow> TRANSOCKS_FREE bufferevent_free b w;
     listener_freeClient os p fd w
   }"

definition listener_cb :: "os \<Rightarrow> addr \<Rightarrow> world \<Rightarrow> world option" where
  "listener_cb os e w = do {
     env \<leftarrow> envs w e;
     l \<leftarrow> listeners w (listener env);
     let acceptedSrcSockAddr = os_sockaddr os (hist w) (Accept (listener_fd l));
     let acceptedSrcSockLen = os_socklen os (hist w) (Accept (listener_fd l));
     let (clientFd, w) = sys os (Accept (listener_fd l)) w;
     if clientFd < 0 then Some w
     else if acceptedSrcSockLen = 0 then listener_freeFd clientFd w
     else do {
       let (r, w) = setnonblocking os clientFd True w;
       if r \<noteq> 0 then listener_freeFd clientFd w
       else do {
         let (r, w) = apply_tcp_keepalive os clientFd w;
         if r \<noteq> 0 then listener_freeFd clientFd w
         else do {
           let (r, w) = apply_tcp_nodelay os clientFd w;
           if r \<noteq> 0 then listener_freeFd clientFd w
           else do {
             (p, w) \<leftarrow> transocks_client_new os e w;
             if p = NULL then listener_freeClient os p clientFd w
             else do {
               _ \<leftarrow> sockaddrs w (bind_addr env);
               w \<leftarrow> on_client p (\<lambda>c. c\<lparr>client_addr_len := acceptedSrcSockLen\<rparr>) w;
               c \<leftarrow> clients w p;
               w \<leftarrow> on_sockaddr (client_addr c) (memcpy_sockaddr acceptedSrcSockLen acceptedSrcSockAddr) w;
               let (dst, w) = getorigdst os clientFd w;
               case dst of
                 None \<Rightarrow> listener_freeClient os p clientFd w
               | Some (destaddr, addrlen) \<Rightarrow> do {
                   w \<leftarrow> on_sockaddr (dest_addr c) (\<lambda>_. Some destaddr) w;
                   w \<leftarrow> on_client p (\<lambda>c. c\<lparr>dest_addr_len := addrlen\<rparr>) w;
                   w \<leftarrow> on_client p (\<lambda>c. c\<lparr>client_fd := clientFd, global_env := e\<rparr>) w;
                   let (b, w) = bufferevent_socket_new os (eventBaseLoop env) (-1) w;
                   if b = NULL then listener_freeBev os b p clientFd w
                   else do {
                     (r, w) \<leftarrow> bufferevent_disable os b EV_READ w;
                     if r \<noteq> 0 then listener_freeBev os b p clientFd w
                     else do {
                       (r, w) \<leftarrow> bufferevent_setfd os b clientFd w;
                       if r \<noteq> 0 then listener_freeBev os b p clientFd w
                       else do {
                         w \<leftarrow> on_client p (\<lambda>c. c\<lparr>client_bev := b\<rparr>) w;
                         w \<leftarrow> on_nodes (list_add_tail p (current_clients_dlinklist env)) w;
                         transocks_start_connect_relay os p w
                       }
                     }
                   }
                 }
             }
           }
         }
       }
     }
   }"

subsection \<open>The listening socket\<close>

definition listener_deinit :: "addr \<Rightarrow> world \<Rightarrow> world option" where
  "listener_deinit e w =
     (if e = NULL then Some w
      else do {
        env \<leftarrow> envs w e;
        if listener env \<noteq> NULL then do {
          l \<leftarrow> listeners w (listener env);
          w \<leftarrow> (if listener_ev l \<noteq> NULL then do {
                 w \<leftarrow> event_del (listener_ev l) w;
                 TRANSOCKS_FREE event_free (listener_ev l) w
               } else Some w);
          let (fd, w) = TRANSOCKS_CLOSE (listener_fd l) w;
          w \<leftarrow> TRANSOCKS_FREE free_listener_mem (listener env) w;
          on_env e (\<lambda>env. env\<lparr>listener := NULL\<rparr>) w
        } else Some w
      })"

text \<open>The labels \<^verbatim>\<open>closeFd\<close> and \<^verbatim>\<open>freeListener\<close>.\<close>

definition listener_init_closeFd :: "int \<Rightarrow> world \<Rightarrow> (int \<times> world) option" where
  "listener_init_closeFd fd w = Some (-1, snd (TRANSOCKS_CLOSE fd w))"

definition listener_init_freeListener :: "addr \<Rightarrow> int \<Rightarrow> world \<Rightarrow> (int \<times> world) option" where
  "listener_init_freeListener e fd w = do {
     w \<leftarrow> listener_deinit e w;
     listener_init_closeFd fd w
   }"

definition malloc_listener :: "os \<Rightarrow> world \<Rightarrow> addr \<times> world" where
  "malloc_listener os w =
     (let (p, w) = alloc os (Malloc T_listener) w; g = os_garbage os in
      if p = NULL then (NULL, w)
      else (p, w\<lparr>listeners := (listeners w)(p \<mapsto> \<lparr>listener_fd = int g, listener_ev = g\<rparr>)\<rparr>))"

definition on_listener :: "addr \<Rightarrow> (transocks_listener \<Rightarrow> transocks_listener) \<Rightarrow> world \<Rightarrow> world option" where
  "on_listener p f w = do { l \<leftarrow> listeners w p; Some (w\<lparr>listeners := (listeners w)(p \<mapsto> f l)\<rparr>) }"

text \<open>The second half of \<^verbatim>\<open>listener_init\<close>: the listener object and its event.\<close>

definition listener_init_event :: "os \<Rightarrow> addr \<Rightarrow> int \<Rightarrow> world \<Rightarrow> (int \<times> world) option" where
  "listener_init_event os e fd w = do {
     env \<leftarrow> envs w e;
     let (lp, w) = malloc_listener os w;
     w \<leftarrow> on_env e (\<lambda>env. env\<lparr>listener := lp\<rparr>) w;
     if lp = NULL then listener_init_freeListener e fd w
     else do {
       w \<leftarrow> on_listener lp (\<lambda>l. l\<lparr>listener_fd := fd\<rparr>) w;
       let (ev, w) = event_new os (eventBaseLoop env) fd EV_READ_PERSIST Listener_cb e w;
       w \<leftarrow> on_listener lp (\<lambda>l. l\<lparr>listener_ev := ev\<rparr>) w;
       if ev = NULL then listener_init_freeListener e fd w
       else do {
         (r, w) \<leftarrow> event_add os ev None w;
         if r \<noteq> 0 then listener_init_freeListener e fd w
         else Some (0, w)
       }
     }
   }"

definition listener_init :: "os \<Rightarrow> addr \<Rightarrow> world \<Rightarrow> (int \<times> world) option" where
  "listener_init os e w = do {
     env \<leftarrow> envs w e;
     ba \<leftarrow> sockaddrs w (bind_addr env);
     let (fd, w) = sys os (Socket (ss_family ba)) w;
     if fd < 0 then Some (-1, w)
     else do {
       let (err, w) = sys os (Setsockopt fd SOL_SOCKET SO_REUSEADDR 1) w;
       if err \<noteq> 0 then listener_init_closeFd fd w
       else do {
         let (err, w) = sys os (Setsockopt fd SOL_SOCKET SO_REUSEPORT 1) w;
         if err \<noteq> 0 then listener_init_closeFd fd w
         else do {
           let (r, w) = setnonblocking os fd True w;
           if r \<noteq> 0 then listener_init_closeFd fd w
           else do {
             let (r, w) = (if ss_family ba = AF_INET6 then apply_ipv6only os fd 0 w else (0, w));
             if r \<noteq> 0 then listener_init_closeFd fd w
             else do {
               let (err, w) = sys os (Bind fd ba (bind_addr_len env)) w;
               if err \<noteq> 0 then listener_init_closeFd fd w
               else do {
                 let (err, w) = sys os (Listen fd SOMAXCONN) w;
                 if err \<noteq> 0 then listener_init_closeFd fd w
                 else listener_init_event os e fd w
               }
             }
           }
         }
       }
     }
   }"

end
