(* ===== verification/Program.thy ===== *)
theory Program
  imports Listener
begin

text \<open>
  The signal handlers of \<^verbatim>\<open>src/src/signal.c\<close>, the global environment of \<^verbatim>\<open>src/src/context.c\<close> and
  the program itself, \<^verbatim>\<open>src/src/transocks.c\<close>.
\<close>

unbundle bit_operations_syntax

subsection \<open>Signals\<close>

definition terminate_signal_cb :: "os \<Rightarrow> addr \<Rightarrow> world \<Rightarrow> world option" where
  "terminate_signal_cb os e w = do {
     env \<leftarrow> envs w e;
     Some (snd (sys os (Event_base_loopbreak (eventBaseLoop env)) w))
   }"

definition dump_client_info_signal_cb :: "os \<Rightarrow> addr \<Rightarrow> world \<Rightarrow> world option" where
  "dump_client_info_signal_cb os e w = transocks_dump_all_client_info os e w"

definition drop_all_clients_signal_cb :: "os \<Rightarrow> addr \<Rightarrow> world \<Rightarrow> world option" where
  "drop_all_clients_signal_cb os e w = transocks_drop_all_clients os e w"

definition signal_init :: "os \<Rightarrow> addr \<Rightarrow> world \<Rightarrow> (int \<times> world) option" where
  "signal_init os e w = do {
     env \<leftarrow> envs w e;
     let base = eventBaseLoop env;
     let (t, w) = event_new os base SIGTERM EV_SIGNAL_PERSIST Terminate_signal_cb e w;
     w \<leftarrow> on_env e (\<lambda>x. x\<lparr>sigterm_ev := t\<rparr>) w;
     let (i, w) = event_new os base SIGINT EV_SIGNAL_PERSIST Terminate_signal_cb e w;
     w \<leftarrow> on_env e (\<lambda>x. x\<lparr>sigint_ev := i\<rparr>) w;
     let (h, w) = event_new os base SIGHUP EV_SIGNAL_PERSIST Dump_client_info_signal_cb e w;
     w \<leftarrow> on_env e (\<lambda>x. x\<lparr>sighup_ev := h\<rparr>) w;
     let (u, w) = event_new os base SIGUSR1 EV_SIGNAL_PERSIST Drop_all_clients_signal_cb e w;
     w \<leftarrow> on_env e (\<lambda>x. x\<lparr>sigusr1_ev := u\<rparr>) w;
     if t = NULL \<or> i = NULL \<or> h = NULL \<or> u = NULL then Some (-1, w)
     else do {
       (r, w) \<leftarrow> event_add os t None w;
       if r \<noteq> 0 then Some (-1, w)
       else do {
         (r, w) \<leftarrow> event_add os i None w;
         if r \<noteq> 0 then Some (-1, w)
         else do {
           (r, w) \<leftarrow> event_add os h None w;
           if r \<noteq> 0 then Some (-1, w)
           else do {
             (r, w) \<leftarrow> event_add os u None w;
             if r \<noteq> 0 then Some (-1, w) else Some (0, w)
           }
         }
       }
     }
   }"

definition free_signal_event :: "addr \<Rightarrow> world \<Rightarrow> world option" where
  "free_signal_event ev w =
     (if ev \<noteq> NULL then do {
        w \<leftarrow> event_del ev w;
        TRANSOCKS_FREE event_free ev w
      } else Some w)"

definition signal_deinit :: "addr \<Rightarrow> world \<Rightarrow> world option" where
  "signal_deinit e w =
     (if e = NULL then Some w
      else do {
        env \<leftarrow> envs w e;
        w \<leftarrow> free_signal_event (sigint_ev env) w;
        w \<leftarrow> on_env e (\<lambda>x. x\<lparr>sigint_ev := NULL\<rparr>) w;
        w \<leftarrow> free_signal_event (sigterm_ev env) w;
        w \<leftarrow> on_env e (\<lambda>x. x\<lparr>sigterm_ev := NULL\<rparr>) w;
        w \<leftarrow> free_signal_event (sighup_ev env) w;
        w \<leftarrow> on_env e (\<lambda>x. x\<lparr>sighup_ev := NULL\<rparr>) w;
        w \<leftarrow> free_signal_event (sigusr1_ev env) w;
        on_env e (\<lambda>x. x\<lparr>sigusr1_ev := NULL\<rparr>) w
      })"

subsection \<open>The global environment\<close>

definition calloc_sockaddr :: "os \<Rightarrow> world \<Rightarrow> addr \<times> world" where
  "calloc_sockaddr os w =
     (let (p, w) = alloc os (Calloc T_sockaddr_storage) w in
      if p = NULL then (NULL, w) else (p, w\<lparr>sockaddrs := (sockaddrs w)(p \<mapsto> zero_sockaddr)\<rparr>))"

text \<open>The embedded list head takes the address after that of the environment.\<close>

definition calloc_env :: "os \<Rightarrow> world \<Rightarrow> addr \<times> world" where
  "calloc_env os w =
     (let (p, w) = alloc os (Calloc T_global_env) w in
      if p = NULL then (NULL, w)
      else (p, w\<lparr>brk := Suc (brk w),
        envs := (envs w)(p \<mapsto> \<lparr>pump_method_name = None, bind_addr = NULL, relay_addr = NULL,
          bind_addr_len = 0, relay_addr_len = 0, eventBaseLoop = NULL, listener = NULL,
          sigterm_ev = NULL, sigint_ev = NULL, sighup_ev = NULL, sigusr1_ev = NULL,
          current_clients_dlinklist = brk w\<rparr>),
        nodes := (nodes w)(brk w \<mapsto> \<lparr>lh_next = NULL, lh_prev = NULL\<rparr>)\<rparr>))"

definition event_base_new :: "os \<Rightarrow> world \<Rightarrow> addr \<times> world" where
  "event_base_new os w =
     (let (p, w) = alloc os Event_base_new w in
      if p = NULL then (NULL, w) else (p, w\<lparr>bases := insert p (bases w)\<rparr>))"

definition event_base_free :: "addr \<Rightarrow> world \<Rightarrow> world option" where
  "event_base_free b w =
     (if b \<in> bases w then Some (emit (Event_base_free b) (w\<lparr>bases := bases w - {b}\<rparr>)) else None)"

text \<open>The code behind the label \<^verbatim>\<open>fail\<close>; it reads the environment also when its allocation failed.\<close>

definition env_new_fail :: "addr \<Rightarrow> world \<Rightarrow> (addr \<times> world) option" where
  "env_new_fail e w = do {
     env \<leftarrow> envs w e;
     w \<leftarrow> TRANSOCKS_FREE free_sockaddr (bind_addr env) w;
     w \<leftarrow> on_env e (\<lambda>x. x\<lparr>bind_addr := NULL\<rparr>) w;
     w \<leftarrow> TRANSOCKS_FREE free_sockaddr (relay_addr env) w;
     w \<leftarrow> on_env e (\<lambda>x. x\<lparr>relay_addr := NULL\<rparr>) w;
     w \<leftarrow> TRANSOCKS_FREE event_base_free (eventBaseLoop env) w;
     w \<leftarrow> on_env e (\<lambda>x. x\<lparr>eventBaseLoop := NULL\<rparr>) w;
     w \<leftarrow> TRANSOCKS_FREE free_env_mem e w;
     Some (NULL, w)
   }"

definition transocks_global_env_new :: "os \<Rightarrow> world \<Rightarrow> (addr \<times> world) option" where
  "transocks_global_env_new os w = do {
     let (e, w) = calloc_env os w;
     if e = NULL then env_new_fail e w
     else do {
       let (b, w) = calloc_sockaddr os w;
       w \<leftarrow> on_env e (\<lambda>x. x\<lparr>bind_addr := b\<rparr>) w;
       let (r, w) = calloc_sockaddr os w;
       w \<leftarrow> on_env e (\<lambda>x. x\<lparr>relay_addr := r\<rparr>) w;
       if b = NULL \<or> r = NULL then env_new_fail e w
       else do {
         let (base, w) = event_base_new os w;
         w \<leftarrow> on_env e (\<lambda>x. x\<lparr>eventBaseLoop := base\<rparr>) w;
         if base = NULL then env_new_fail e w
         else do {
           env \<leftarrow> envs w e;
           w \<leftarrow> on_nodes (INIT_LIST_HEAD (current_clients_dlinklist env)) w;
           Some (e, w)
         }
       }
     }
   }"

definition transocks_global_env_free :: "addr \<Rightarrow> world \<Rightarrow> world option" where
  "transocks_global_env_free e w =
     (if e = NULL then Some w
      else do {
        env \<leftarrow> envs w e;
        let w = (case pump_method_name env of None \<Rightarrow> w | Some s \<Rightarrow> emit (Free_string s) w);
        w \<leftarrow> on_env e (\<lambda>x. x\<lparr>pump_method_name := None\<rparr>) w;
        w \<leftarrow> TRANSOCKS_FREE free_sockaddr (relay_addr env) w;
        w \<leftarrow> on_env e (\<lambda>x. x\<lparr>relay_addr := NULL\<rparr>) w;
        w \<leftarrow> TRANSOCKS_FREE free_sockaddr (bind_addr env) w;
        w \<leftarrow> on_env e (\<lambda>x. x\<lparr>bind_addr := NULL\<rparr>) w;
        w \<leftarrow> listener_deinit e w;
        w \<leftarrow> signal_deinit e w;
        w \<leftarrow> TRANSOCKS_FREE event_base_free (eventBaseLoop env) w;
        w \<leftarrow> on_env e (\<lambda>x. x\<lparr>eventBaseLoop := NULL\<rparr>) w;
        TRANSOCKS_FREE free_env_mem e w
      })"

subsection \<open>main\<close>

datatype getopt_val =
    GETOPT_VAL_LISTENERADDRPORT
  | GETOPT_VAL_SOCKS5ADDRPORT
  | GETOPT_VAL_PUMPMETHOD
  | GETOPT_VAL_HELP
  | Getopt_unknown

datatype exit_status = Exit_failure | Return_0

text \<open>
  The loop over the results of \<^verbatim>\<open>getopt_long\<close>, each with its \<^verbatim>\<open>optarg\<close>: the last occurrence of an
  option wins, anything else prints the help and exits (\<^const>\<open>None\<close>).
\<close>

fun parse_options ::
  "(getopt_val \<times> string option) list \<Rightarrow> string option \<times> string option \<times> string option \<Rightarrow>
   (string option \<times> string option \<times> string option) option" where
  "parse_options [] st = Some st"
| "parse_options ((opt, optarg) # rest) (listenerAddrPort, socks5AddrPort, pumpMethod) =
     (case opt of
        GETOPT_VAL_LISTENERADDRPORT \<Rightarrow> parse_options rest (optarg, socks5AddrPort, pumpMethod)
      | GETOPT_VAL_SOCKS5ADDRPORT \<Rightarrow> parse_options rest (listenerAddrPort, optarg, pumpMethod)
      | GETOPT_VAL_PUMPMETHOD \<Rightarrow> parse_options rest (listenerAddrPort, socks5AddrPort, optarg)
      | GETOPT_VAL_HELP \<Rightarrow> None
      | Getopt_unknown \<Rightarrow> None)"

text \<open>The label \<^verbatim>\<open>shutdown\<close>.\<close>

definition main_shutdown :: "os \<Rightarrow> addr \<Rightarrow> world \<Rightarrow> (exit_status \<times> world) option" where
  "main_shutdown os e w = do {
     w \<leftarrow> transocks_drop_all_clients os e w;
     w \<leftarrow> TRANSOCKS_FREE transocks_global_env_free e w;
     Some (Return_0, w)
   }"

text \<open>
  From the parsed addresses on. \<open>dispatch\<close> stands for \<^verbatim>\<open>event_base_dispatch\<close>, which runs the
  callbacks until the loop is left.
\<close>

definition main_run ::
  "os \<Rightarrow> (addr \<Rightarrow> world \<Rightarrow> world option) \<Rightarrow> sockaddr_storage \<times> nat \<Rightarrow> sockaddr_storage \<times> nat \<Rightarrow>
   string \<Rightarrow> world \<Rightarrow> (exit_status \<times> world) option" where
  "main_run os dispatch listener_ss socks5_ss pumpMethod w = do {
     (e, w) \<leftarrow> transocks_global_env_new os w;
     if e = NULL then Some (Return_0, w)
     else do {
       (r, w) \<leftarrow> signal_init os e w;
       if r \<noteq> 0 then main_shutdown os e w
       else do {
         env \<leftarrow> envs w e;
         w \<leftarrow> on_sockaddr (bind_addr env) (\<lambda>_. Some (fst listener_ss)) w;
         w \<leftarrow> on_env e (\<lambda>x. x\<lparr>bind_addr_len := snd listener_ss\<rparr>) w;
         w \<leftarrow> on_sockaddr (relay_addr env) (\<lambda>_. Some (fst socks5_ss)) w;
         w \<leftarrow> on_env e (\<lambda>x. x\<lparr>relay_addr_len := snd socks5_ss\<rparr>) w;
         (r, w) \<leftarrow> listener_init os e w;
         if r \<noteq> 0 then main_shutdown os e w
         else do {
           let name = (if os_alloc os (hist w) (Strdup pumpMethod) then Some pumpMethod else None);
           let w = emit (Strdup pumpMethod) w;
           w \<leftarrow> on_env e (\<lambda>x. x\<lparr>pump_method_name := name\<rparr>) w;
           if name = None then main_shutdown os e w
           else do {
             (r, w) \<leftarrow> transocks_pump_init e w;
             if r \<noteq> 0 then main_shutdown os e w
             else do {
               env \<leftarrow> envs w e;
               w \<leftarrow> dispatch (eventBaseLoop env) w;
               main_shutdown os e w
             }
           }
         }
       }
     }
   }"

text \<open>The help text, one call per line.\<close>

definition tab :: string where
  "tab = [char_of (9 :: nat)]"

definition help_text :: "string list" where
  "help_text = map (\<lambda>line. line @ nl)
     [''transocks-wong help:'',
      tab @ '' WARNING: data must be NATed to our listener endpoint'',
      tab @ '' --listener-addr-port   what address and port we are listening'',
      tab @ '' --socks5-addr-port     the SOCKS5 server address and port'',
      tab @ '' --pump-method          '' @ PUMPMETHOD_BUFFER @ ''/'' @ PUMPMETHOD_SPLICE,
      tab @ '' --help                 this message'',
      tab @ '' Address and port must in this format:'',
      tab @ tab @ '' - [IPv6Address]:Port'',
      tab @ tab @ '' - IPv4Address:Port'']"

definition print_help :: "world \<Rightarrow> world" where
  "print_help w = fold (\<lambda>line. emit (Fprintf_stdout line)) help_text w"

lemma print_help_calls: "print_help w = after_calls (map Fprintf_stdout help_text) w"
proof -
  have "fold (\<lambda>line. emit (Fprintf_stdout line)) ls w = after_calls (map Fprintf_stdout ls) w" for ls w
    by (induction ls arbitrary: w) (simp_all add: emit_after_calls)
  then show ?thesis by (simp add: print_help_def)
qed

text \<open>The two ways of giving up of \<^verbatim>\<open>src/src/log.h\<close>; the message of the second goes to the standard error.\<close>

definition PRINTHELP_EXIT :: "world \<Rightarrow> (exit_status \<times> world) option" where
  "PRINTHELP_EXIT w = Some (Exit_failure, print_help w)"

definition FATAL_WITH_HELPMSG :: "world \<Rightarrow> (exit_status \<times> world) option" where
  "FATAL_WITH_HELPMSG w = Some (Exit_failure, print_help w)"

lemma give_up_calls:
  "PRINTHELP_EXIT w = Some (Exit_failure, after_calls (map Fprintf_stdout help_text) w)"
  "FATAL_WITH_HELPMSG w = Some (Exit_failure, after_calls (map Fprintf_stdout help_text) w)"
  by (simp_all add: PRINTHELP_EXIT_def FATAL_WITH_HELPMSG_def print_help_calls)

definition SIGPIPE :: int where
  "SIGPIPE = 13"

definition transocks_main ::
  "os \<Rightarrow> (string \<Rightarrow> nat \<Rightarrow> (sockaddr_storage \<times> nat) option) \<Rightarrow> (addr \<Rightarrow> world \<Rightarrow> world option) \<Rightarrow>
   (getopt_val \<times> string option) list \<Rightarrow> world \<Rightarrow> (exit_status \<times> world) option" where
  "transocks_main os evutil_parse dispatch opts w =
     (case parse_options opts (None, None, None) of
        None \<Rightarrow> PRINTHELP_EXIT w
      | Some (listenerAddrPort, socks5AddrPort, pumpMethod) \<Rightarrow>
          (case (listenerAddrPort, socks5AddrPort) of
             (Some l, Some s) \<Rightarrow>
               (let pumpMethod = (case pumpMethod of None \<Rightarrow> PUMPMETHOD_BUFFER | Some m \<Rightarrow> m);
                    w = emit (Signal_ignore SIGPIPE) w in
                case transocks_parse_sockaddr_port evutil_parse l of
                  None \<Rightarrow> FATAL_WITH_HELPMSG w
                | Some listener_ss \<Rightarrow>
                    (case transocks_parse_sockaddr_port evutil_parse s of
                       None \<Rightarrow> FATAL_WITH_HELPMSG w
                     | Some socks5_ss \<Rightarrow>
                         if \<not> validateAddrPort (fst listener_ss) then FATAL_WITH_HELPMSG w
                         else if \<not> validateAddrPort (fst socks5_ss) then FATAL_WITH_HELPMSG w
                         else main_run os dispatch listener_ss socks5_ss pumpMethod w))
           | _ \<Rightarrow> PRINTHELP_EXIT w))"

end
