(* ===== verification/Invariant.thy ===== *)
theory Invariant
  imports Ownership Program
begin

text \<open>
  The invariant of the running program with the copying pump, and how the operations the callbacks
  are made of preserve it.

  The parameters \<open>D\<close>, \<open>X\<close> and \<open>U\<close> describe a connection under construction: clients in \<open>D\<close> are not
  yet on the list of the environment, clients in \<open>X\<close> do not have all their parts yet, and the
  bufferevents in \<open>U\<close> have no owner yet. Between two callbacks all three are empty.
\<close>

subsection \<open>The environment\<close>

definition listener_events :: "transocks_global_env \<Rightarrow> world \<Rightarrow> addr set" where
  "listener_events env w = (case listeners w (listener env) of None \<Rightarrow> {} | Some l \<Rightarrow> {listener_ev l} - {NULL})"

definition signal_events :: "transocks_global_env \<Rightarrow> addr set" where
  "signal_events env = {sigterm_ev env, sigint_ev env, sighup_ev env, sigusr1_ev env} - {NULL}"

definition env_events :: "transocks_global_env \<Rightarrow> world \<Rightarrow> addr set" where
  "env_events env w = signal_events env \<union> listener_events env w"

definition signal_callbacks :: "callback set" where
  "signal_callbacks = {Terminate_signal_cb, Dump_client_info_signal_cb, Drop_all_clients_signal_cb}"

text \<open>The events of the environment are pairwise distinct.\<close>

definition env_events_distinct :: "transocks_global_env \<Rightarrow> world \<Rightarrow> bool" where
  "env_events_distinct env w \<longleftrightarrow>
     distinct (filter (\<lambda>x. x \<noteq> NULL) [sigint_ev env, sigterm_ev env, sighup_ev env, sigusr1_ev env])
     \<and> signal_events env \<inter> listener_events env w = {}"

definition env_ok :: "addr \<Rightarrow> transocks_global_env \<Rightarrow> world \<Rightarrow> bool" where
  "env_ok e env w \<longleftrightarrow> e \<noteq> NULL \<and> envs w = [e \<mapsto> env]
     \<and> bind_addr env \<noteq> NULL \<and> relay_addr env \<noteq> NULL \<and> bind_addr env \<noteq> relay_addr env
     \<and> dom (listeners w) = {listener env} - {NULL}
     \<and> eventBaseLoop env \<noteq> NULL \<and> bases w = {eventBaseLoop env}
     \<and> splicepumps w = Map.empty \<and> splicepipes w = Map.empty
     \<and> env_events_distinct env w
     \<and> (\<forall>ev r. ev \<in> signal_events env \<longrightarrow> events w ev = Some r \<longrightarrow> ev_arg r = e \<and> ev_cb r \<in> signal_callbacks)
     \<and> (\<forall>ev r. ev \<in> listener_events env w \<longrightarrow> events w ev = Some r \<longrightarrow> ev_arg r = e \<and> ev_cb r = Listener_cb)"

subsection \<open>Clients\<close>

text \<open>The three callbacks of the bufferevent towards the client, and of the one towards the relay.\<close>

definition client_bev_ok :: "addr \<Rightarrow> bev_reg \<Rightarrow> bool" where
  "client_bev_ok p r \<longleftrightarrow>
     (bev_readcb r, bev_writecb r, bev_eventcb r) = (No_callback, No_callback, No_callback)
     \<or> ((bev_readcb r, bev_writecb r, bev_eventcb r) =
          (Bufferpump_client_readcb, Bufferpump_client_writecb, Bufferpump_client_eventcb) \<and> bev_arg r = p)"

definition relay_bev_ok :: "addr \<Rightarrow> bev_reg \<Rightarrow> bool" where
  "relay_bev_ok p r \<longleftrightarrow>
     (bev_readcb r, bev_writecb r, bev_eventcb r) = (No_callback, No_callback, No_callback)
     \<or> bev_arg r = p \<and> (bev_readcb r, bev_writecb r, bev_eventcb r) \<in>
         {(No_callback, No_callback, Relay_onconnect_eventcb),
          (Socks_on_server_selected_method_readcb, No_callback, Socks_handshake_stage_errcb),
          (Socks_on_server_connect_reply_readcb, No_callback, Socks_handshake_stage_errcb),
          (Bufferpump_relay_readcb, Bufferpump_relay_writecb, Bufferpump_relay_eventcb)}"

text \<open>What holds of every client, also of one under construction.\<close>

definition client_base :: "transocks_client \<Rightarrow> bool" where
  "client_base c \<longleftrightarrow> client_state c \<noteq> client_DESTROYED \<and> client_state c \<noteq> client_DESTROYING
     \<and> (client_addr c = dest_addr c \<longrightarrow> client_addr c = NULL)
     \<and> (relay_bev c = client_bev c \<longrightarrow> relay_bev c = NULL)"

text \<open>The callbacks registered on its parts are those of this client.\<close>

definition regs :: "world \<Rightarrow> addr \<Rightarrow> transocks_client \<Rightarrow> bool" where
  "regs w p c \<longleftrightarrow> (\<forall>r. bevs w (client_bev c) = Some r \<longrightarrow> client_bev_ok p r)
     \<and> (\<forall>r. bevs w (relay_bev c) = Some r \<longrightarrow> relay_bev_ok p r)
     \<and> (\<forall>r. events w (timeout_ev c) = Some r \<longrightarrow> ev_cb r = Socks5_timeout_cb \<and> ev_arg r = p)"

text \<open>It has all its parts.\<close>

definition complete :: "addr \<Rightarrow> transocks_client \<Rightarrow> bool" where
  "complete e c \<longleftrightarrow> global_env c = e \<and> client_addr c \<noteq> NULL \<and> dest_addr c \<noteq> NULL
     \<and> client_bev c \<noteq> NULL \<and> relay_bev c \<noteq> NULL \<and> timeout_ev c \<noteq> NULL"

definition registry :: "addr set \<Rightarrow> addr \<Rightarrow> world \<Rightarrow> bool" where
  "registry D head w \<longleftrightarrow> dom (nodes w) = insert head (dom (clients w)) \<and> head \<notin> dom (clients w)
     \<and> (\<exists>xs. dlist (nodes w) head xs \<and> set xs \<inter> D = {} \<and> set xs \<union> D = dom (clients w))
     \<and> (\<forall>p\<in>D. dlist (nodes w) p [])"

definition winv :: "addr \<Rightarrow> transocks_global_env \<Rightarrow> pump_impl option \<Rightarrow> addr set \<Rightarrow> addr set \<Rightarrow> addr set \<Rightarrow> world \<Rightarrow> bool" where
  "winv e env pm D X U w \<longleftrightarrow> wf_world w \<and> env_ok e env w \<and> pumpMethodImpl w = pm
     \<and> registry D (current_clients_dlinklist env) w
     \<and> owned_once {bind_addr env, relay_addr env} (clients w) own_sockaddrs (dom (sockaddrs w))
     \<and> owned_once U (clients w) own_bevs (dom (bevs w))
     \<and> owned_once (env_events env w) (clients w) own_events (dom (events w))
     \<and> (\<forall>p c. clients w p = Some c \<longrightarrow> client_base c \<and> regs w p c \<and> (p \<notin> X \<longrightarrow> complete e c))"

lemma invD:
  assumes "winv e env pm D X U w"
  shows "wf_world w" "env_ok e env w" "pumpMethodImpl w = pm"
    "registry D (current_clients_dlinklist env) w"
    "owned_once {bind_addr env, relay_addr env} (clients w) own_sockaddrs (dom (sockaddrs w))"
    "owned_once U (clients w) own_bevs (dom (bevs w))"
    "owned_once (env_events env w) (clients w) own_events (dom (events w))"
    "envs w e = Some env"
  using assms by (simp_all add: winv_def env_ok_def)

lemma inv_clientD:
  assumes "winv e env pm D X U w" and "clients w p = Some c"
  shows "client_base c" "p \<notin> X \<Longrightarrow> complete e c" "p \<noteq> NULL" "p \<in> dom (nodes w)"
    "null_or_live (sockaddrs w) (client_addr c)" "null_or_live (sockaddrs w) (dest_addr c)"
    "null_or_live (bevs w) (client_bev c)" "null_or_live (bevs w) (relay_bev c)"
    "null_or_live (events w) (timeout_ev c)" "regs w p c"
  using assms owned_once_live [OF invD(5) [OF assms(1)] assms(2)]
    owned_once_live [OF invD(6) [OF assms(1)] assms(2)] owned_once_live [OF invD(7) [OF assms(1)] assms(2)]
    wf_world_null(2) [OF invD(1) [OF assms(1)]] invD(4) [OF assms(1)]
  by (auto simp: winv_def registry_def own_defs null_or_live_def simp del: wf_world_null)

lemma inv_completeD:
  assumes "winv e env pm D X U w" and "clients w p = Some c" and "p \<notin> X"
  shows "client_bev c \<noteq> NULL" "relay_bev c \<noteq> NULL" "timeout_ev c \<noteq> NULL" "client_addr c \<noteq> NULL"
    "dest_addr c \<noteq> NULL" "global_env c = e"
    "client_bev c \<in> dom (bevs w)" "relay_bev c \<in> dom (bevs w)" "timeout_ev c \<in> dom (events w)"
    "client_addr c \<in> dom (sockaddrs w)" "dest_addr c \<in> dom (sockaddrs w)"
  using inv_clientD [OF assms(1,2)] assms(3) by (auto simp: complete_def null_or_live_def)

lemma inv_calls [simp]: "winv e env pm D X U (after_calls cs w) = winv e env pm D X U w"
  by (simp add: winv_def env_ok_def env_events_distinct_def registry_def regs_def env_events_def listener_events_def)

subsection \<open>Single updates\<close>

text \<open>A client keeps its parts, its environment and stays alive.\<close>

definition same_parts :: "transocks_client \<Rightarrow> transocks_client \<Rightarrow> bool" where
  "same_parts c c' \<longleftrightarrow> global_env c' = global_env c
     \<and> client_addr c' = client_addr c \<and> dest_addr c' = dest_addr c
     \<and> client_bev c' = client_bev c \<and> relay_bev c' = relay_bev c \<and> timeout_ev c' = timeout_ev c
     \<and> client_state c' \<noteq> client_DESTROYED \<and> client_state c' \<noteq> client_DESTROYING"

lemma same_parts_regs:
  "same_parts c c' \<Longrightarrow> regs w p c' = regs w p c"
  "same_parts c c' \<Longrightarrow> complete e c' = complete e c"
  by (simp_all add: same_parts_def regs_def complete_def)

lemma same_parts_own:
  "same_parts c c' \<Longrightarrow> own_sockaddrs c' = own_sockaddrs c"
  "same_parts c c' \<Longrightarrow> own_bevs c' = own_bevs c"
  "same_parts c c' \<Longrightarrow> own_events c' = own_events c"
  by (simp_all add: same_parts_def own_defs)

lemma wf_world_clients_upd [simp]:
  "clients w p = Some c \<Longrightarrow> wf_world (w\<lparr>clients := (clients w)(p \<mapsto> c')\<rparr>) = wf_world w"
  by (auto simp: wf_world_def)

lemma wf_world_bevs_upd [simp]:
  "bevs w p = Some c \<Longrightarrow> wf_world (w\<lparr>bevs := (bevs w)(p \<mapsto> c')\<rparr>) = wf_world w"
  by (auto simp: wf_world_def)

lemma wf_world_events_upd [simp]:
  "events w p = Some c \<Longrightarrow> wf_world (w\<lparr>events := (events w)(p \<mapsto> c')\<rparr>) = wf_world w"
  by (auto simp: wf_world_def)

lemma wf_world_sockaddrs_upd [simp]:
  "sockaddrs w p = Some c \<Longrightarrow> wf_world (w\<lparr>sockaddrs := (sockaddrs w)(p \<mapsto> c')\<rparr>) = wf_world w"
  by (auto simp: wf_world_def)

lemma env_ok_upd [simp]:
  "env_ok e env (clients_update f w) = env_ok e env w"
  "env_ok e env (nodes_update g w) = env_ok e env w"
  "env_ok e env (bevs_update h w) = env_ok e env w"
  "env_ok e env (sockaddrs_update i w) = env_ok e env w"
  "env_ok e env (brk_update j w) = env_ok e env w"
  "env_events env (clients_update f w) = env_events env w"
  "env_events env (nodes_update g w) = env_events env w"
  "env_events env (bevs_update h w) = env_events env w"
  "env_events env (sockaddrs_update i w) = env_events env w"
  "env_events env (events_update k w) = env_events env w"
  "env_events env (brk_update j w) = env_events env w"
  by (simp_all add: env_ok_def env_events_distinct_def env_events_def listener_events_def)

lemma registry_upd [simp]:
  "registry D h (bevs_update f1 w) = registry D h w"
  "registry D h (events_update f2 w) = registry D h w"
  "registry D h (sockaddrs_update f3 w) = registry D h w"
  "registry D h (brk_update f4 w) = registry D h w"
  "clients w p = Some c \<Longrightarrow> registry D h (w\<lparr>clients := (clients w)(p \<mapsto> c')\<rparr>) = registry D h w"
  by (simp_all add: registry_def insert_absorb domI)

lemma regs_upd [simp]:
  "regs (clients_update f1 w) p c = regs w p c"
  "regs (nodes_update f2 w) p c = regs w p c"
  "regs (sockaddrs_update f3 w) p c = regs w p c"
  "regs (brk_update f4 w) p c = regs w p c"
  by (simp_all add: regs_def)

lemma inv_client_upd:
  assumes I: "winv e env pm D X U w" and c: "clients w p = Some c" and s: "same_parts c c'"
  shows "winv e env pm D X U (w\<lparr>clients := (clients w)(p \<mapsto> c')\<rparr>)"
  unfolding winv_def
proof (intro conjI allI impI)
  fix q d assume q: "clients (w\<lparr>clients := (clients w)(p \<mapsto> c')\<rparr>) q = Some d"
  then show "client_base d" "regs (w\<lparr>clients := (clients w)(p \<mapsto> c')\<rparr>) q d" "q \<notin> X \<Longrightarrow> complete e d"
    using I c s by (auto simp: winv_def client_base_def same_parts_def regs_def complete_def split: if_splits)
qed (use invD [OF I] c s owned_once_upd [OF invD(5) [OF I] c, of c'] owned_once_upd [OF invD(6) [OF I] c, of c']
      owned_once_upd [OF invD(7) [OF I] c, of c'] in \<open>simp_all add: same_parts_own\<close>)

text \<open>The registration of a bufferevent or a timer changes, for its owner.\<close>

lemma regs_bevs_other:
  "b \<noteq> client_bev c \<Longrightarrow> b \<noteq> relay_bev c \<Longrightarrow> regs (w\<lparr>bevs := (bevs w)(b := r)\<rparr>) p c = regs w p c"
  by (simp add: regs_def)

lemma regs_events_other:
  "b \<noteq> timeout_ev c \<Longrightarrow> regs (w\<lparr>events := (events w)(b := r)\<rparr>) p c = regs w p c"
  by (simp add: regs_def)

lemma inv_bev_upd:
  assumes I: "winv e env pm D X U w" and c: "clients w p = Some c"
    and b: "b \<in> own_bevs c" and r: "regs (w\<lparr>bevs := (bevs w)(b \<mapsto> r)\<rparr>) p c"
  shows "winv e env pm D X U (w\<lparr>bevs := (bevs w)(b \<mapsto> r)\<rparr>)"
proof -
  have live: "b \<in> dom (bevs w)" using owned_once_live [OF invD(6) [OF I] c] b by blast
  have "regs (w\<lparr>bevs := (bevs w)(b \<mapsto> r)\<rparr>) q d" if "clients w q = Some d" for q d
  proof (cases "q = p")
    case True
    with that c r show ?thesis by simp
  next
    case False
    then have "b \<notin> own_bevs d" using owned_once_unique [OF invD(6) [OF I] c that b] by blast
    moreover have "b \<noteq> NULL" using b by (simp add: own_bevs_def)
    ultimately have "b \<noteq> client_bev d" "b \<noteq> relay_bev d" by (auto simp: own_bevs_def)
    with that I show ?thesis by (auto simp: regs_bevs_other winv_def)
  qed
  with I live show ?thesis by (auto simp: winv_def insert_absorb)
qed

lemma inv_bev_upd_rest:
  assumes I: "winv e env pm D X U w" and b: "b \<in> U"
  shows "winv e env pm D X U (w\<lparr>bevs := (bevs w)(b \<mapsto> r)\<rparr>)"
proof -
  have live: "b \<in> dom (bevs w)" using owned_once_rest [OF invD(6) [OF I]] b by blast
  have "regs (w\<lparr>bevs := (bevs w)(b \<mapsto> r)\<rparr>) q d" if "clients w q = Some d" for q d
  proof -
    have "b \<notin> own_bevs d" using owned_once_not_rest [OF invD(6) [OF I] that(1)] b by blast
    moreover have "b \<noteq> NULL" using live wf_world_null(9) [OF invD(1) [OF I]] by (metis domIff)
    ultimately have "b \<noteq> client_bev d" "b \<noteq> relay_bev d" by (auto simp: own_bevs_def)
    with that I show ?thesis by (auto simp: regs_bevs_other winv_def)
  qed
  with I live show ?thesis by (auto simp: winv_def insert_absorb)
qed

lemma env_ok_timer_upd:
  assumes "env_ok e env w" and "ev \<notin> env_events env w"
  shows "env_ok e env (w\<lparr>events := (events w)(ev := r)\<rparr>)"
  using assms by (auto simp: env_ok_def env_events_distinct_def env_events_def listener_events_def)

lemma inv_timer_upd:
  assumes I: "winv e env pm D X U w" and c: "clients w p = Some c"
    and ev: "timeout_ev c \<noteq> NULL" and r: "ev_cb r = Socks5_timeout_cb" "ev_arg r = p"
  shows "winv e env pm D X U (w\<lparr>events := (events w)(timeout_ev c \<mapsto> r)\<rparr>)"
proof -
  have own: "timeout_ev c \<in> own_events c" using ev by (simp add: own_events_def)
  then have live: "timeout_ev c \<in> dom (events w)" using owned_once_live [OF invD(7) [OF I] c] by blast
  have "regs (w\<lparr>events := (events w)(timeout_ev c \<mapsto> r)\<rparr>) q d" if "clients w q = Some d" for q d
  proof (cases "q = p")
    case True
    with that c r I show ?thesis by (auto simp: winv_def regs_def)
  next
    case False
    then have "timeout_ev c \<notin> own_events d"
      using owned_once_unique [OF invD(7) [OF I] c that(1) own] by blast
    with ev have "timeout_ev c \<noteq> timeout_ev d" by (auto simp: own_events_def)
    with that I show ?thesis by (auto simp: regs_events_other winv_def)
  qed
  moreover have "env_ok e env (w\<lparr>events := (events w)(timeout_ev c \<mapsto> r)\<rparr>)"
    using env_ok_timer_upd invD(2) [OF I] owned_once_not_rest [OF invD(7) [OF I] c own] by blast
  ultimately show ?thesis using I live by (auto simp: winv_def insert_absorb)
qed

subsection \<open>Destroying a client\<close>

lemma inv_client_ok:
  assumes "winv e env pm D X U w" and "clients w p = Some c"
  shows "client_ok w p c"
  using inv_clientD [OF assms] assms(2) by (simp add: client_ok_def client_base_def)

lemma registry_unlink:
  assumes R: "registry D head w" and p: "p \<in> dom (clients w)"
  shows "\<exists>h'. list_del p (nodes w) = Some h' \<and> dom h' = dom (nodes w)
    \<and> registry (D - {p}) head (w\<lparr>clients := (clients w)(p := None), nodes := h'(p := None)\<rparr>)"
proof -
  obtain xs where xs: "dlist (nodes w) head xs" "set xs \<inter> D = {}" "set xs \<union> D = dom (clients w)"
    and D: "\<And>q. q \<in> D \<Longrightarrow> dlist (nodes w) q []"
    and nodes: "dom (nodes w) = insert head (dom (clients w))" "head \<notin> dom (clients w)"
    using R by (auto simp: registry_def)
  show ?thesis
  proof (cases "p \<in> D")
    case True
    obtain h' where h': "list_del p (nodes w) = Some h'" "same_except {p} (nodes w) h'"
      using list_del_self [OF D [OF True]] by blast
    have keep: "dlist (h'(p := None)) q ys" if "dlist (nodes w) q ys" "p \<notin> set (q # ys)" for q ys
      using that h'(2) by (intro dlist_agree [OF that(1)]) (auto simp: same_except_def)
    have "registry (D - {p}) head (w\<lparr>clients := (clients w)(p := None), nodes := h'(p := None)\<rparr>)"
      unfolding registry_def
    proof (intro conjI exI [of _ xs])
      show "dlist (nodes (w\<lparr>clients := (clients w)(p := None), nodes := h'(p := None)\<rparr>)) head xs"
        using keep [OF xs(1)] True xs(2) nodes(2) p by auto
    qed (use xs nodes D keep h'(2) True p in \<open>auto simp: same_except_def\<close>)
    with h' show ?thesis by (auto simp: same_except_def)
  next
    case False
    with xs(3) p have "p \<in> set xs" by blast
    then obtain us vs where uv: "xs = us @ p # vs" by (blast dest: split_list)
    obtain h' where h': "list_del p (nodes w) = Some h'" "dlist h' head (us @ vs)" "dom h' = dom (nodes w)"
      and fr: "\<And>m ys. dlist (nodes w) m ys \<Longrightarrow> set (m # ys) \<inter> set (head # us @ p # vs) = {} \<Longrightarrow> dlist h' m ys"
      using list_del_law [of "nodes w" head us p vs] xs(1) uv by blast
    have d: "distinct (head # us @ p # vs)" using dlist_distinct [OF xs(1)] uv by simp
    have "registry (D - {p}) head (w\<lparr>clients := (clients w)(p := None), nodes := h'(p := None)\<rparr>)"
      unfolding registry_def
    proof (intro conjI exI [of _ "us @ vs"])
      show "dlist (nodes (w\<lparr>clients := (clients w)(p := None), nodes := h'(p := None)\<rparr>)) head (us @ vs)"
        using d by (auto intro: dlist_agree [OF h'(2)])
      show "\<forall>q\<in>D - {p}. dlist (nodes (w\<lparr>clients := (clients w)(p := None), nodes := h'(p := None)\<rparr>)) q []"
      proof
        fix q assume q: "q \<in> D - {p}"
        then have "q \<in> dom (clients w)" using xs(3) by blast
        then have "dlist h' q []" using q D xs(2) uv nodes(2) by (intro fr) auto
        then show "dlist (nodes (w\<lparr>clients := (clients w)(p := None), nodes := h'(p := None)\<rparr>)) q []"
          using q by (auto intro: dlist_agree)
      qed
      show "set (us @ vs) \<union> (D - {p}) = dom (clients (w\<lparr>clients := (clients w)(p := None), nodes := h'(p := None)\<rparr>))"
        using xs(3) uv d False by auto
    qed (use xs nodes h'(3) uv d p False in auto)
    with h' show ?thesis by blast
  qed
qed

lemma dom_removed_pair:
  "h 0 = None \<Longrightarrow> dom (h(a := None, b := None)) = dom h - ({a, b} - {0 :: addr})"
  by (auto simp: domIff)

lemma regs_others_removed:
  assumes I: "winv e env pm D X U w" and c: "clients w p = Some c"
    and d: "clients w q = Some d" "q \<noteq> p"
  shows "regs (client_removed p c h' w) q d"
proof -
  have "regs w q d" using inv_clientD(10) [OF I d(1)] .
  then show ?thesis by (auto simp: regs_def client_removed_def)
qed

lemma inv_client_removed:
  assumes I: "winv e env pm D X U w" and c: "clients w p = Some c" and dom: "dom h' = dom (nodes w)"
    and R: "registry (D - {p}) (current_clients_dlinklist env)
              (w\<lparr>clients := (clients w)(p := None), nodes := h'(p := None)\<rparr>)"
  shows "winv e env pm (D - {p}) (X - {p}) U (client_removed p c h' w)"
proof -
  note wf = invD(1) [OF I]
  have doms: "dom (sockaddrs (client_removed p c h' w)) = dom (sockaddrs w) - own_sockaddrs c"
    "dom (bevs (client_removed p c h' w)) = dom (bevs w) - own_bevs c"
    "dom (events (client_removed p c h' w)) = dom (events w) - own_events c"
    using wf_world_null [OF wf]
    by (auto simp: client_removed_def own_defs dom_removed_pair simp del: wf_world_null split: if_splits)
  have "wf_world (client_removed p c h' w)"
    using wf dom by (auto simp: wf_world_def client_removed_def)
  moreover have "env_ok e env (client_removed p c h' w)"
  proof -
    have "timeout_ev c \<notin> env_events env w"
      using owned_once_not_rest [OF invD(7) [OF I] c, of "timeout_ev c"]
      by (cases "timeout_ev c = NULL")
        (auto simp: own_events_def env_events_def signal_events_def listener_events_def split: option.splits)
    from env_ok_timer_upd [OF invD(2) [OF I] this, of None] show ?thesis
      by (simp add: client_removed_def env_ok_def env_events_distinct_def env_events_def listener_events_def)
  qed
  moreover have "registry (D - {p}) (current_clients_dlinklist env) (client_removed p c h' w)"
    using R by (simp add: registry_def client_removed_def)
  moreover have "client_base d \<and> regs (client_removed p c h' w) q d \<and> (q \<notin> X - {p} \<longrightarrow> complete e d)"
    if "clients (client_removed p c h' w) q = Some d" for q d
    using that regs_others_removed [OF I c, of q d] inv_clientD(1,2) [OF I, of q d]
    by (auto simp: client_removed_def split: if_splits)
  ultimately show ?thesis
    using owned_once_remove [OF invD(5) [OF I] c] owned_once_remove [OF invD(6) [OF I] c]
      owned_once_remove [OF invD(7) [OF I] c] invD(3) [OF I]
    unfolding winv_def doms
    by (simp add: client_removed_def env_events_def listener_events_def)
qed

text \<open>
  The destruction of a client is defined, keeps the invariant, removes exactly this client and
  unlinks exactly its entry.
\<close>

lemma inv_client_free:
  assumes I: "winv e env pm D X U w" and c: "clients w p = Some c"
  shows "holds (transocks_client_free os p w)
           (\<lambda>w'. winv e env pm (D - {p}) (X - {p}) U w' \<and> clients w' = (clients w)(p := None)
             \<and> (\<forall>us vs. dlist (nodes w) (current_clients_dlinklist env) (us @ p # vs) \<longrightarrow>
                  dlist (nodes w') (current_clients_dlinklist env) (us @ vs)))"
proof -
  let ?head = "current_clients_dlinklist env"
  obtain h' where h': "list_del p (nodes w) = Some h'" "dom h' = dom (nodes w)"
    "registry (D - {p}) ?head (w\<lparr>clients := (clients w)(p := None), nodes := h'(p := None)\<rparr>)"
    using registry_unlink [OF invD(4) [OF I], of p] c by auto
  have "dlist (h'(p := None)) ?head (us @ vs)" if d: "dlist (nodes w) ?head (us @ p # vs)" for us vs
  proof -
    have "dlist h' ?head (us @ vs)" using list_del_law [OF d] h'(1) by auto
    then show ?thesis
      using dlist_distinct [OF d] by (auto intro: dlist_agree)
  qed
  then show ?thesis
    using transocks_client_free_run [OF invD(1) [OF I] inv_client_ok [OF I c] h'(1), of os]
      inv_client_removed [OF I c h'(2,3)]
    by (simp add: client_removed_def)
qed

end
