(* ===== verification/Safety.thy ===== *)
theory Safety
  imports Invariant
begin

text \<open>
  Every callback of the handshake and of the copying pump is defined in a state that satisfies the
  invariant, and re-establishes it. The proofs step through the code with one rule per operation.
\<close>

unbundle bit_operations_syntax

text \<open>The invariant, seen from the client \<open>p\<close> whose contents are \<open>c\<close>.\<close>

definition at :: "addr \<Rightarrow> transocks_global_env \<Rightarrow> pump_impl option \<Rightarrow> addr set \<Rightarrow> addr set \<Rightarrow> addr set \<Rightarrow>
  addr \<Rightarrow> transocks_client \<Rightarrow> world \<Rightarrow> bool" where
  "at e env pm D X U p c w \<longleftrightarrow> winv e env pm D X U w \<and> clients w p = Some c"

lemma at_calls [simp]: "at e env pm D X U p c (after_calls cs w) = at e env pm D X U p c w"
  by (simp add: at_def)

lemma atD: "at e env pm D X U p c w \<Longrightarrow> clients w p = Some c" "at e env pm D X U p c w \<Longrightarrow> p \<noteq> NULL"
  by (auto simp: at_def dest: inv_clientD(3))

lemma at_inv: "at e env pm D X U p c w \<Longrightarrow> winv e env pm D X U w"
  by (simp add: at_def)

lemma at_env: "at e env pm D X U p c w \<Longrightarrow> envs w e = Some env"
  by (auto simp: at_def dest: invD(8))

subsection \<open>Rules for the operations\<close>

lemma at_client_read: "at e env pm D X U p c w \<Longrightarrow> Q c \<Longrightarrow> holds (clients w p) Q"
  by (simp add: at_def)

lemma at_on_client:
  assumes "at e env pm D X U p c w" and "same_parts c (f c)"
    and "\<And>w'. at e env pm D X U p (f c) w' \<Longrightarrow> Q w'"
  shows "holds (on_client p f w) Q"
  using assms inv_client_upd by (auto simp: at_def on_client_simp)

lemma at_bev_live: "at e env pm D X U p c w \<Longrightarrow> b \<in> own_bevs c \<Longrightarrow> \<exists>r. bevs w b = Some r"
  using owned_once_live [OF invD(6)] by (fastforce simp: at_def)

definition same_cbs :: "bev_reg \<Rightarrow> bev_reg \<Rightarrow> bool" where
  "same_cbs r r' \<longleftrightarrow> bev_readcb r' = bev_readcb r \<and> bev_writecb r' = bev_writecb r
     \<and> bev_eventcb r' = bev_eventcb r \<and> bev_arg r' = bev_arg r"

lemma at_bev_upd:
  assumes A: "at e env pm D X U p c w" and b: "b \<in> own_bevs c" and r: "bevs w b = Some r" "same_cbs r r'"
  shows "at e env pm D X U p c (w\<lparr>bevs := (bevs w)(b \<mapsto> r')\<rparr>)"
proof -
  have "regs (w\<lparr>bevs := (bevs w)(b \<mapsto> r')\<rparr>) p c"
    using inv_clientD(10) [of e env pm D X U w p c] A r
    by (auto simp: at_def regs_def same_cbs_def client_bev_ok_def relay_bev_ok_def)
  with A b show ?thesis using inv_bev_upd by (auto simp: at_def)
qed

lemma at_on_bev:
  assumes A: "at e env pm D X U p c w" and b: "b \<in> own_bevs c" and f: "\<And>r. same_cbs r (f r)"
    and Q: "\<And>n w'. at e env pm D X U p c w' \<Longrightarrow> Q (n, w')"
  shows "holds (on_bev os b k f w) Q"
proof -
  obtain r where r: "bevs w b = Some r" using at_bev_live [OF A b] by blast
  have "at e env pm D X U p c (w\<lparr>bevs := (bevs w)(b \<mapsto> f r)\<rparr>)"
    using at_bev_upd [OF A b r f] .
  with A r Q show ?thesis by (simp add: on_bev_def sys_after_calls)
qed

lemma at_bev_ops:
  assumes "at e env pm D X U p c w" and "b \<in> own_bevs c"
    and "\<And>n w'. at e env pm D X U p c w' \<Longrightarrow> Q (n, w')"
  shows "holds (bufferevent_enable os b fl w) Q" "holds (bufferevent_disable os b fl w) Q"
    "holds (bufferevent_setfd os b fd w) Q" "holds (bufferevent_write os b bs w) Q"
    "holds (bufferevent_socket_connect os b ss len w) Q"
proof -
  have ok: "holds (on_bev os b k f w) Q" if "\<And>r. same_cbs r (f r)" for k f
    using at_on_bev [where Q = Q] assms that by blast
  show "holds (bufferevent_enable os b fl w) Q" "holds (bufferevent_disable os b fl w) Q"
    "holds (bufferevent_setfd os b fd w) Q" "holds (bufferevent_write os b bs w) Q"
    "holds (bufferevent_socket_connect os b ss len w) Q"
    by (simp_all add: ok same_cbs_def bufferevent_enable_def bufferevent_disable_def bufferevent_setfd_def
      bufferevent_write_def bufferevent_socket_connect_def)
qed

lemma at_setwatermark:
  assumes "at e env pm D X U p c w" and "b \<in> own_bevs c" and "\<And>w'. at e env pm D X U p c w' \<Longrightarrow> Q w'"
  shows "holds (bufferevent_setwatermark b fl lo hi w) Q"
  using assms at_bev_live [OF assms(1,2)]
  by (auto simp: bufferevent_setwatermark_def emit_after_calls)

lemma at_setcb_client:
  assumes A: "at e env pm D X U p c w" and b: "client_bev c \<noteq> NULL"
    and Q: "\<And>w'. at e env pm D X U p c w' \<Longrightarrow> Q w'"
  shows "holds (bufferevent_setcb (client_bev c) Bufferpump_client_readcb Bufferpump_client_writecb
           Bufferpump_client_eventcb p w) Q"
proof -
  have own: "client_bev c \<in> own_bevs c" using b by (simp add: own_bevs_def)
  obtain r where r: "bevs w (client_bev c) = Some r" using at_bev_live [OF A own] by blast
  have ne: "relay_bev c \<noteq> client_bev c"
    using inv_clientD(1) [of e env pm D X U w p c] A b by (auto simp: at_def client_base_def)
  have "at e env pm D X U p c (w\<lparr>bevs := (bevs w)(client_bev c \<mapsto> r\<lparr>bev_readcb := Bufferpump_client_readcb,
      bev_writecb := Bufferpump_client_writecb, bev_eventcb := Bufferpump_client_eventcb, bev_arg := p\<rparr>)\<rparr>)"
    using inv_clientD(10) [of e env pm D X U w p c] A ne inv_bev_upd [of e env pm D X U w p c, OF _ _ own]
    by (auto simp: at_def regs_def client_bev_ok_def)
  with Q r show ?thesis by (simp add: bufferevent_setcb_def emit_after_calls)
qed

lemma at_setcb_relay:
  assumes A: "at e env pm D X U p c w" and b: "relay_bev c \<noteq> NULL"
    and cb: "(rcb, wcb, ecb) \<in> {(No_callback, No_callback, Relay_onconnect_eventcb),
          (Socks_on_server_selected_method_readcb, No_callback, Socks_handshake_stage_errcb),
          (Socks_on_server_connect_reply_readcb, No_callback, Socks_handshake_stage_errcb),
          (Bufferpump_relay_readcb, Bufferpump_relay_writecb, Bufferpump_relay_eventcb)}"
    and Q: "\<And>w'. at e env pm D X U p c w' \<Longrightarrow> Q w'"
  shows "holds (bufferevent_setcb (relay_bev c) rcb wcb ecb p w) Q"
proof -
  have own: "relay_bev c \<in> own_bevs c" using b by (simp add: own_bevs_def)
  obtain r where r: "bevs w (relay_bev c) = Some r" using at_bev_live [OF A own] by blast
  have ne: "relay_bev c \<noteq> client_bev c"
    using inv_clientD(1) [of e env pm D X U w p c] A b by (auto simp: at_def client_base_def)
  have "relay_bev_ok p (r\<lparr>bev_readcb := rcb, bev_writecb := wcb, bev_eventcb := ecb, bev_arg := p\<rparr>)"
    using cb by (auto simp: relay_bev_ok_def)
  then have "at e env pm D X U p c (w\<lparr>bevs := (bevs w)(relay_bev c \<mapsto> r\<lparr>bev_readcb := rcb,
      bev_writecb := wcb, bev_eventcb := ecb, bev_arg := p\<rparr>)\<rparr>)"
    using inv_clientD(10) [of e env pm D X U w p c] A ne inv_bev_upd [of e env pm D X U w p c, OF _ _ own]
    by (auto simp: at_def regs_def)
  with Q r show ?thesis by (simp add: bufferevent_setcb_def emit_after_calls)
qed

lemma at_evbuffer:
  assumes "at e env pm D X U p c w" and "evbuffer_bev buf \<in> own_bevs c"
  shows "Q (length (os_data os (hist w) buf)) \<Longrightarrow> holds (evbuffer_get_length os buf w) Q"
    and "(\<And>n w'. at e env pm D X U p c w' \<Longrightarrow> Q' (n, w')) \<Longrightarrow> holds (evbuffer_drain os buf n w) Q'"
    and "evbuffer_bev buf' \<in> own_bevs c \<Longrightarrow> (\<And>n w'. at e env pm D X U p c w' \<Longrightarrow> Q' (n, w')) \<Longrightarrow>
           holds (evbuffer_remove_buffer os buf buf' n w) Q'"
  using assms at_bev_live [OF assms] at_bev_live [OF assms(1), of "evbuffer_bev buf'"]
  by (auto simp: evbuffer_get_length_def evbuffer_drain_def evbuffer_remove_buffer_def sys_after_calls)

lemma at_pullup:
  assumes "at e env pm D X U p c w" and "evbuffer_bev buf \<in> own_bevs c"
    and "\<And>h n. os_alloc os h (Evbuffer_pullup buf n)" and "n = length (os_data os (hist w) buf)"
    and "\<And>w'. at e env pm D X U p c w' \<Longrightarrow> Q (Some (os_data os (hist w) buf), w')"
  shows "holds (evbuffer_pullup os buf n w) Q"
  using assms at_bev_live [OF assms(1,2)]
  by (auto simp: evbuffer_pullup_def emit_after_calls Let_def)

lemma at_timer_live:
  "at e env pm D X U p c w \<Longrightarrow> timeout_ev c \<noteq> NULL \<Longrightarrow>
     \<exists>r. events w (timeout_ev c) = Some r \<and> ev_cb r = Socks5_timeout_cb \<and> ev_arg r = p"
  using inv_clientD(9,10) [of e env pm D X U w p c] by (auto simp: at_def null_or_live_def regs_def)

lemma at_timer_upd:
  assumes "at e env pm D X U p c w" and "timeout_ev c \<noteq> NULL"
    and "ev_cb r = Socks5_timeout_cb" and "ev_arg r = p"
  shows "at e env pm D X U p c (w\<lparr>events := (events w)(timeout_ev c \<mapsto> r)\<rparr>)"
  using assms inv_timer_upd by (auto simp: at_def)

lemma at_timer_ops:
  assumes A: "at e env pm D X U p c w" and ev: "timeout_ev c \<noteq> NULL"
  shows "(\<And>w'. at e env pm D X U p c w' \<Longrightarrow> Q w') \<Longrightarrow> holds (event_del (timeout_ev c) w) Q"
    and "(\<And>n w'. at e env pm D X U p c w' \<Longrightarrow> Q' (n, w')) \<Longrightarrow> holds (event_add os (timeout_ev c) tv w) Q'"
    and "(\<And>n w'. at e env pm D X U p c w' \<Longrightarrow> Q' (n, w')) \<Longrightarrow>
      holds (event_assign os (timeout_ev c) base fd fl Socks5_timeout_cb p w) Q'"
  using A at_timer_live [OF A ev] at_timer_upd [OF A ev]
  by (auto simp: event_del_def event_add_def event_assign_def emit_after_calls sys_after_calls)

lemma at_free:
  assumes "at e env pm D X U p c w"
    and "\<And>w'. winv e env pm (D - {p}) (X - {p}) U w' \<Longrightarrow> Q w'"
  shows "holds (TRANSOCKS_FREE (transocks_client_free os) p w) Q"
  using inv_client_free [of e env pm D X U w p c os] assms atD(2) [OF assms(1)]
  by (auto simp: TRANSOCKS_FREE_def at_def elim!: holds_mono)

text \<open>The timer exists already: it is stopped, assigned again and started.\<close>

lemma at_set_timeout:
  assumes A: "at e env pm D X U p c w" and ev: "timeout_ev c \<noteq> NULL" "global_env c = e"
    and Q: "\<And>n w'. at e env pm D X U p c w' \<Longrightarrow> Q (n, w')"
  shows "holds (transocks_client_set_timeout os p tv Socks5_timeout_cb p w) Q"
proof -
  have r: "clients w p = Some c" "envs w (global_env c) = Some env"
    using A ev(2) by (simp_all add: atD at_env)
  show ?thesis
    unfolding transocks_client_set_timeout_def
    using ev Q by (auto simp: r intro!: at_timer_ops [OF A ev(1)] at_timer_ops [OF _ ev(1)])
qed

lemmas at_steps = at_client_read at_on_client at_bev_ops at_setwatermark at_evbuffer at_timer_ops at_free

lemma own_bevs_complete:
  "complete e c \<Longrightarrow> client_bev c \<in> own_bevs c" "complete e c \<Longrightarrow> relay_bev c \<in> own_bevs c"
  by (simp_all add: own_bevs_def complete_def)

subsection \<open>The copying pump\<close>

text \<open>Between two callbacks.\<close>

abbreviation steady :: "addr \<Rightarrow> transocks_global_env \<Rightarrow> world \<Rightarrow> bool" where
  "steady e env w \<equiv> winv e env (Some Bufferpump_ops) {} {} {} w"

abbreviation steady_at :: "addr \<Rightarrow> transocks_global_env \<Rightarrow> addr \<Rightarrow> transocks_client \<Rightarrow> world \<Rightarrow> bool" where
  "steady_at e env p c w \<equiv> at e env (Some Bufferpump_ops) {} {} {} p c w"

lemma steady_complete: "steady_at e env p c w \<Longrightarrow> complete e c"
  by (auto simp: at_def dest: inv_clientD(2))

lemma same_parts_flags [simp]:
  "same_parts c (c\<lparr>client_shutdown_read := b1\<rparr>) = same_parts c c"
  "same_parts c (c\<lparr>client_shutdown_write := b2\<rparr>) = same_parts c c"
  "same_parts c (c\<lparr>relay_shutdown_read := b3\<rparr>) = same_parts c c"
  "same_parts c (c\<lparr>relay_shutdown_write := b4\<rparr>) = same_parts c c"
  by (simp_all add: same_parts_def)

lemma steady_same_parts: "steady_at e env p c w \<Longrightarrow> same_parts c c"
  using inv_clientD(1) [of e env "Some Bufferpump_ops" "{}" "{}" "{}" w p c]
  by (simp add: at_def same_parts_def client_base_def)

lemma bufferpump_free_safe:
  assumes "steady_at e env p c w"
  shows "holds (transocks_bufferpump_free os p w) (steady e env)"
  using assms steady_complete [OF assms] unfolding transocks_bufferpump_free_def
  by (auto intro!: at_steps own_bevs_complete)

lemma FREE_bufferpump_safe:
  assumes "steady_at e env p c w"
  shows "holds (TRANSOCKS_FREE (transocks_bufferpump_free os) p w) (steady e env)"
  using bufferpump_free_safe [OF assms] atD(2) [OF assms] by (simp add: TRANSOCKS_FREE_def)

lemma check_close_safe:
  assumes "steady_at e env p c w"
  shows "holds (bufferpump_check_close os p w) (steady e env)"
  using assms FREE_bufferpump_safe [OF assms]
  by (auto simp: bufferpump_check_close_def at_def)

lemmas pump_steps = at_steps own_bevs_complete check_close_safe FREE_bufferpump_safe

lemmas shutdown_simps = TRANSOCKS_SHUTDOWN_def sys_after_calls Let_def

lemma bufferpump_readcbs_safe:
  assumes "steady_at e env p c w"
  shows "holds (transocks_client_readcb os p w) (steady e env)"
    and "holds (transocks_relay_readcb os p w) (steady e env)"
  using assms steady_complete [OF assms] unfolding transocks_client_readcb_def transocks_relay_readcb_def
  by (auto intro!: pump_steps simp: at_inv)

lemma bufferpump_writecbs_safe:
  assumes "steady_at e env p c w"
  shows "holds (transocks_client_writecb os p w) (steady e env)"
    and "holds (transocks_relay_writecb os p w) (steady e env)"
  using assms steady_complete [OF assms] steady_same_parts [OF assms]
  unfolding transocks_client_writecb_def transocks_relay_writecb_def
  by (auto intro!: pump_steps simp: shutdown_simps)

lemma holds_if: "(b \<Longrightarrow> holds m Q) \<Longrightarrow> (\<not> b \<Longrightarrow> holds m' Q) \<Longrightarrow> holds (if b then m else m') Q"
  by simp

lemma at_callsI: "at e env pm D X U p c w \<Longrightarrow> at e env pm D X U p c (after_calls cs w)"
  by simp

lemma bufferpump_eventcbs_safe:
  assumes "steady_at e env p c w"
  shows "holds (transocks_client_eventcb os what p w) (steady e env)"
   and "holds (transocks_relay_eventcb os what p w) (steady e env)"
  using assms steady_complete [OF assms] steady_same_parts [OF assms]
  unfolding transocks_client_eventcb_def transocks_relay_eventcb_def holds_bind
  by - (((rule at_steps check_close_safe FREE_bufferpump_safe, (assumption | erule at_callsI))
    | (rule holds_if) | (simp add: shutdown_simps own_bevs_def complete_def same_parts_def split del: if_split))+)

lemma bufferpump_start_safe:
  assumes "steady_at e env p c w"
  shows "holds (transocks_bufferpump_start_pump os p w) (\<lambda>(r, w'). steady_at e env p c w')"
  using assms steady_complete [OF assms]
  unfolding transocks_bufferpump_start_pump_def
  by (auto intro!: at_client_read at_setwatermark at_setcb_client at_setcb_relay at_bev_ops own_bevs_complete
      simp: complete_def)

lemma start_pump_safe:
  assumes A: "steady_at e env p c w"
  shows "holds (transocks_start_pump os p w) (\<lambda>(r, w'). \<exists>c'. steady_at e env p c' w')"
proof -
  have pm: "pumpMethodImpl w = Some Bufferpump_ops"
    using A by (auto simp: at_def dest: invD(3))
  have "holds (on_client p (\<lambda>c. c\<lparr>client_state := client_pumping_data\<rparr>) w')
      (\<lambda>w''. \<exists>c'. steady_at e env p c' w'')" if "steady_at e env p c w'" for w'
    using that steady_same_parts [OF that]
    by (auto intro!: at_on_client [OF that] simp: same_parts_def)
  with bufferpump_start_safe [OF A, of os] show ?thesis
    unfolding transocks_start_pump_def
    by (auto simp: pm transocks_bufferpump_ops_def elim!: holds_mono)
qed

subsection \<open>The handshake\<close>

text \<open>
  What the program needs of its environment, beyond any answer being possible: the calls whose
  failure the code does not handle succeed.
\<close>

definition env_reliable :: "os \<Rightarrow> bool" where
  "env_reliable os \<longleftrightarrow>
     (\<forall>h. os_alloc os h (Malloc T_client))
     \<and> (\<forall>h base p. os_alloc os h (Event_new base (-1) 0 Socks5_timeout_cb p))
     \<and> (\<forall>h buf n. os_alloc os h (Evbuffer_pullup buf n))
     \<and> (\<forall>h b ss len. os_ret os h (Bufferevent_socket_connect b ss len) = 0)
     \<and> (\<forall>h fd. os_socklen os h (Accept fd) \<le> sizeof_sockaddr_storage)"

lemma steady_free:
  assumes "steady_at e env p c w"
  shows "holds (TRANSOCKS_FREE (transocks_client_free os) p w) (steady e env)"
  using assms by (auto intro!: at_free)

lemma steady_set_timeout:
  assumes "steady_at e env p c w"
  shows "holds (transocks_client_set_timeout os p tv Socks5_timeout_cb p w)
           (\<lambda>(r, w'). steady_at e env p c w')"
  using assms steady_complete [OF assms] by (auto intro!: at_set_timeout simp: complete_def)

lemma steady_set_timeout_inv:
  "steady_at e env p c w \<Longrightarrow>
   holds (transocks_client_set_timeout os p tv Socks5_timeout_cb p w) (\<lambda>(r, w'). steady e env w')"
  by (drule steady_set_timeout, erule holds_mono) (auto simp: at_inv)

lemma timeout_cb_safe: "steady_at e env p c w \<Longrightarrow> holds (socks5_timeout_cb os p w) (steady e env)"
  by (simp add: socks5_timeout_cb_def steady_free)

lemma handshake_errcb_safe:
  assumes "steady_at e env p c w"
  shows "holds (socks_handshake_stage_errcb os what p w) (steady e env)"
  using assms steady_complete [OF assms] unfolding socks_handshake_stage_errcb_def
  by (auto intro!: at_client_read at_timer_ops steady_free simp: complete_def at_inv)

lemma send_method_selection_safe:
  assumes A: "steady_at e env p c w"
  shows "holds (socks_send_method_selection os p w) (steady e env)"
  using A steady_complete [OF A] unfolding socks_send_method_selection_def
  by (auto intro!: at_client_read at_setwatermark at_bev_ops at_setcb_relay steady_set_timeout_inv
      own_bevs_complete [OF steady_complete] simp: complete_def Let_def)

lemma relay_onconnect_safe:
  assumes A: "steady_at e env p c w"
  shows "holds (relay_onconnect_eventcb os what p w) (steady e env)"
  using assms steady_complete [OF assms] steady_same_parts [OF assms]
  unfolding relay_onconnect_eventcb_def holds_bind
  by - (((rule at_client_read at_on_client at_timer_ops steady_free send_method_selection_safe,
          (assumption | erule at_callsI))
    | (rule holds_if) | (simp add: complete_def same_parts_def at_inv split del: if_split))+)

lemma await_connect_reply_safe:
  assumes A: "steady_at e env p c w"
  shows "holds (socks_await_connect_reply os (relay_bev c) p w) (steady e env)"
  using A steady_complete [OF A] unfolding socks_await_connect_reply_def
  by (auto intro!: at_client_read at_setwatermark at_bev_ops at_setcb_relay steady_set_timeout_inv
      own_bevs_complete [OF steady_complete] simp: complete_def)

text \<open>A short-lived buffer: allocated, or the client is given up.\<close>

lemma at_alloc:
  assumes "at e env pm D X U p c w"
  shows "at e env pm D X U p c (snd (alloc os k w))"
proof -
  have I: "winv e env pm D X U w" and c: "clients w p = Some c" using assms by (simp_all add: at_def)
  have "wf_world (w\<lparr>brk := Suc (brk w)\<rparr>)"
    using invD(1) [OF I] by (auto simp: wf_world_def less_Suc_eq)
  then have "winv e env pm D X U (w\<lparr>brk := Suc (brk w)\<rparr>)"
    using I by (simp add: winv_def)
  with c I show ?thesis by (simp add: alloc_simp at_def)
qed

lemma holds_let_alloc:
  assumes "at e env pm D X U p c w"
    and "\<And>a w'. at e env pm D X U p c w' \<Longrightarrow> hist w' = hist w @ [k] \<Longrightarrow> holds (f a w') Q"
  shows "holds (let (a, w') = alloc os k w in f a w') Q"
  using at_alloc [OF assms(1), of os k] assms(2) by (auto simp: alloc_simp Let_def split: prod.splits if_splits)

lemma send_connect_request_safe:
  assumes A: "steady_at e env p c w"
  shows "holds (socks_send_connect_request os p w) (steady e env)"
proof -
  have C: "complete e c" "dest_addr c \<in> dom (sockaddrs w)"
    using steady_complete [OF A] inv_completeD(11) [of e env _ "{}" "{}" "{}" w p c] A by (auto simp: at_def)
  then obtain dest where dest: "sockaddrs w (dest_addr c) = Some dest" by blast
  have W: "holds (bufferevent_write os (relay_bev c) bs w1)
      (\<lambda>(x, w2). holds (let w3 = emit k w2 in socks_await_connect_reply os (relay_bev c) p w3) (steady e env))"
    if "steady_at e env p c w1" for w1 bs k
    using that C by (auto intro!: at_bev_ops [OF that] own_bevs_complete await_connect_reply_safe
        simp: emit_after_calls Let_def)
  show ?thesis
    unfolding socks_send_connect_request_def
    using A dest W steady_free
    by (auto simp: atD(1) [OF A] split del: if_split intro!: holds_if holds_let_alloc [OF A])
qed

lemma selected_method_safe:
  assumes A: "steady_at e env p c w" and b: "b = relay_bev c" and R: "env_reliable os"
  shows "holds (socks_on_server_selected_method_readcb os b p w) (steady e env)"
proof -
  have b_own: "evbuffer_bev (Input b) \<in> own_bevs c" and ev: "timeout_ev c \<noteq> NULL"
    using steady_complete [OF A] b by (simp_all add: own_bevs_def complete_def)
  have P: "\<And>h n. os_alloc os h (Evbuffer_pullup (Input b) n)" using R by (simp add: env_reliable_def)
  show ?thesis
    using A unfolding socks_on_server_selected_method_readcb_def Let_def holds_bind
    by - (((rule at_client_read, assumption) | (rule at_timer_ops(1), assumption, rule ev)
        | (rule at_evbuffer(1,2), assumption, rule b_own)
        | (rule at_pullup, assumption, rule b_own, rule P, rule refl)
        | (rule holds_if) | (erule steady_free send_connect_request_safe)
        | (simp add: as_method_select_response_def split del: if_split))+)
qed

lemma holds_start_pump:
  assumes "steady_at e env p c w"
    and "\<And>r c' w'. steady_at e env p c' w' \<Longrightarrow> Q (r, w')"
  shows "holds (transocks_start_pump os p w) Q"
  using start_pump_safe [OF assms(1), of os] by (rule holds_mono) (auto intro: assms(2))

lemma connect_reply_safe:
  assumes A: "steady_at e env p c w" and R: "env_reliable os"
  shows "holds (socks_on_server_connect_reply_readcb os p w) (steady e env)"
proof -
  have own: "relay_bev c \<in> own_bevs c" "evbuffer_bev (Input (relay_bev c)) \<in> own_bevs c"
    "relay_bev c \<in> own_bevs (c\<lparr>client_state := client_socks5_finish_handshake\<rparr>)"
    and ev: "timeout_ev c \<noteq> NULL" and parts: "same_parts c (c\<lparr>client_state := client_socks5_finish_handshake\<rparr>)"
    using steady_complete [OF A] steady_same_parts [OF A]
    by (simp_all add: own_bevs_def complete_def same_parts_def)
  have P: "\<And>h n b. os_alloc os h (Evbuffer_pullup b n)" using R by (simp add: env_reliable_def)
  show ?thesis
    using A unfolding socks_on_server_connect_reply_readcb_def Let_def holds_bind
    by - (((rule at_client_read, assumption) | (rule at_timer_ops(1), assumption, rule ev)
        | (rule at_evbuffer(1,2), assumption, rule own)
        | (rule at_pullup, assumption, rule own, rule P, rule refl)
        | (rule at_on_client, assumption, rule parts) | (rule at_bev_ops(2), assumption, rule own)
        | (rule holds_start_pump, assumption)
        | (rule holds_if) | (erule steady_free)
        | (simp add: as_response_header_def at_inv split del: if_split))+)
qed

end
