(* ===== verification/Construction.thy ===== *)
theory Construction
  imports Safety
begin

text \<open>
  A connection under construction: from the accepted socket to the pending connection to the
  relay. Every failure on the way ends in a state with the invariant, and so does success.
\<close>

unbundle bit_operations_syntax

subsection \<open>New objects\<close>

lemma wf_world_brk [simp]: "wf_world w \<Longrightarrow> wf_world (w\<lparr>brk := Suc (brk w)\<rparr>)"
  by (auto simp: wf_world_def less_Suc_eq)

lemma winv_brk: "winv e env pm D X U w \<Longrightarrow> winv e env pm D X U (w\<lparr>brk := Suc (brk w)\<rparr>)"
  by (simp add: winv_def)

text \<open>The callbacks of a new bufferevent are unset.\<close>

definition no_cbs :: "bev_reg \<Rightarrow> bool" where
  "no_cbs r \<longleftrightarrow> bev_readcb r = No_callback \<and> bev_writecb r = No_callback \<and> bev_eventcb r = No_callback"

lemma winv_new_bev:
  assumes I: "winv e env pm D X {} w"
  shows "winv e env pm D X {brk w} (w\<lparr>brk := Suc (brk w), bevs := (bevs w)(brk w \<mapsto> r)\<rparr>)"
proof -
  have fresh: "brk w \<notin> dom (bevs w)" "0 < brk w" using invD(1) [OF I] by (auto simp: wf_world_def)
  have "wf_world (w\<lparr>brk := Suc (brk w), bevs := (bevs w)(brk w \<mapsto> r)\<rparr>)"
    using invD(1) [OF I] by (auto simp: wf_world_def less_Suc_eq)
  moreover have "regs (w\<lparr>brk := Suc (brk w), bevs := (bevs w)(brk w \<mapsto> r)\<rparr>) q d" if q: "clients w q = Some d" for q d
  proof -
    have "client_bev d \<noteq> brk w" "relay_bev d \<noteq> brk w"
      using inv_clientD(7,8) [OF I q] fresh by (auto simp: null_or_live_def)
    with inv_clientD(10) [OF I q] show ?thesis by (simp add: regs_def)
  qed
  ultimately show ?thesis
    using I owned_once_create [OF invD(6) [OF I] fresh(1)] by (simp add: winv_def)
qed

lemma at_bufferevent_socket_new:
  assumes A: "at e env pm D X {} p c w"
    and "\<And>w'. at e env pm D X {} p c w' \<Longrightarrow> Q (NULL, w')"
    and "\<And>b r w'. at e env pm D X {b} p c w' \<Longrightarrow> b \<noteq> NULL \<Longrightarrow> bevs w' b = Some r \<Longrightarrow> no_cbs r \<Longrightarrow> Q (b, w')"
  shows "Q (bufferevent_socket_new os base fd w)"
proof -
  have I: "winv e env pm D X {} w" using A by (rule at_inv)
  then have "0 < brk w" using invD(1) by (auto simp: wf_world_def)
  with A winv_new_bev [OF I] assms(2,3) show ?thesis
    by (auto simp: bufferevent_socket_new_def alloc_simp at_def no_cbs_def)
qed

lemma winv_give_bev:
  assumes I: "winv e env pm D X {b} w" and c: "clients w p = Some c" and X: "p \<in> X"
    and b: "bevs w b = Some r" "no_cbs r"
    and c': "c' = c\<lparr>client_bev := b\<rparr> \<and> client_bev c = NULL \<or> c' = c\<lparr>relay_bev := b\<rparr> \<and> relay_bev c = NULL"
  shows "winv e env pm D X {} (w\<lparr>clients := (clients w)(p \<mapsto> c')\<rparr>)"
proof -
  have b0: "b \<noteq> NULL" using b(1) wf_world_null(9) [OF invD(1) [OF I]] by (metis option.distinct(1))
  have nb: "b \<notin> own_bevs c" using owned_once_not_rest [OF invD(6) [OF I] c] by blast
  have own: "own_bevs c' = insert b (own_bevs c)" "own_sockaddrs c' = own_sockaddrs c" "own_events c' = own_events c"
    using c' b0 by (auto simp: own_defs)
  have base: "client_base c'"
    using inv_clientD(1) [OF I c] c' nb b0 by (auto simp: client_base_def own_bevs_def)
  have "regs w p c'"
    using c' inv_clientD(10) [OF I c] b
    by (elim disjE conjE) (simp_all add: regs_def client_bev_ok_def relay_bev_ok_def no_cbs_def)
  with base X I have "client_base d \<and> regs w q d \<and> (q \<notin> X \<longrightarrow> complete e d)"
    if "((clients w)(p \<mapsto> c')) q = Some d" for q d
    using that by (auto simp: winv_def split: if_splits)
  then show ?thesis
    using I c owned_once_give [OF invD(6) [OF I] _ c own(1)]
      owned_once_upd [OF invD(5) [OF I] c own(2)] owned_once_upd [OF invD(7) [OF I] c own(3)]
    by (simp add: winv_def)
qed

lemma at_give_bev:
  assumes A: "at e env pm D X {b} p c w" and "p \<in> X" and "bevs w b = Some r" and "no_cbs r"
  shows "client_bev c = NULL \<Longrightarrow> (\<And>w'. at e env pm D X {} p (c\<lparr>client_bev := b\<rparr>) w' \<Longrightarrow> Q w') \<Longrightarrow>
      holds (on_client p (\<lambda>c. c\<lparr>client_bev := b\<rparr>) w) Q"
    and "relay_bev c = NULL \<Longrightarrow> (\<And>w'. at e env pm D X {} p (c\<lparr>relay_bev := b\<rparr>) w' \<Longrightarrow> Q w') \<Longrightarrow>
      holds (on_client p (\<lambda>c. c\<lparr>relay_bev := b\<rparr>) w) Q"
  using assms winv_give_bev [of e env pm D X b w p c r] by (auto simp: on_client_simp at_def)

lemma at_bev_ops_rest:
  assumes A: "at e env pm D X {b} p c w" and b: "bevs w b = Some r" "no_cbs r"
    and Q: "\<And>n r' w'. at e env pm D X {b} p c w' \<Longrightarrow> bevs w' b = Some r' \<Longrightarrow> no_cbs r' \<Longrightarrow> Q (n, w')"
  shows "holds (bufferevent_disable os b fl w) Q" "holds (bufferevent_setfd os b fd w) Q"
proof -
  have "holds (on_bev os b k f w) Q" if "no_cbs (f r)" for k f
  proof -
    have "at e env pm D X {b} p c (w\<lparr>bevs := (bevs w)(b \<mapsto> f r)\<rparr>)"
      using A inv_bev_upd_rest [of e env pm D X "{b}" w b "f r"] by (simp add: at_def)
    with A b that Q show ?thesis by (simp add: on_bev_def sys_after_calls)
  qed
  with b(2) show "holds (bufferevent_disable os b fl w) Q" "holds (bufferevent_setfd os b fd w) Q"
    by (simp_all add: bufferevent_disable_def bufferevent_setfd_def no_cbs_def)
qed

lemma at_free_bev_rest:
  assumes A: "at e env pm D X {b} p c w" and b: "bevs w b = Some r"
    and Q: "\<And>w'. at e env pm D X {} p c w' \<Longrightarrow> Q w'"
  shows "holds (TRANSOCKS_FREE bufferevent_free b w) Q"
proof -
  have I: "winv e env pm D X {b} w" and c: "clients w p = Some c" using A by (simp_all add: at_def)
  have "wf_world (w\<lparr>bevs := (bevs w)(b := None)\<rparr>)" using invD(1) [OF I] by (auto simp: wf_world_def)
  moreover have "regs (w\<lparr>bevs := (bevs w)(b := None)\<rparr>) q d" if "clients w q = Some d" for q d
    using inv_clientD(10) [OF I that] by (auto simp: regs_def)
  ultimately have "winv e env pm D X {} (w\<lparr>bevs := (bevs w)(b := None)\<rparr>)"
    using I owned_once_release [OF invD(6) [OF I]] by (simp add: winv_def)
  moreover have "b \<noteq> NULL" using b wf_world_null(9) [OF invD(1) [OF I]] by (metis option.distinct(1))
  ultimately show ?thesis using A c b Q
    by (auto simp: TRANSOCKS_FREE_def bufferevent_free_def emit_after_calls at_def)
qed

text \<open>The timer of a connection is created with its first timeout.\<close>

lemma winv_new_timer:
  assumes I: "winv e env pm D X U w" and c: "clients w p = Some c" "timeout_ev c = NULL"
    and r: "ev_cb r = Socks5_timeout_cb" "ev_arg r = p"
  shows "winv e env pm D X U (w\<lparr>brk := Suc (brk w), events := (events w)(brk w \<mapsto> r),
    clients := (clients w)(p \<mapsto> c\<lparr>timeout_ev := brk w\<rparr>)\<rparr>)" (is "winv _ _ _ _ _ _ ?w")
proof -
  let ?c = "c\<lparr>timeout_ev := brk w\<rparr>"
  have fresh: "brk w \<notin> dom (events w)" "0 < brk w" using invD(1) [OF I] by (auto simp: wf_world_def)
  have nr: "brk w \<notin> env_events env w" using owned_once_rest [OF invD(7) [OF I]] fresh by blast
  have own: "own_events ?c = insert (brk w) (own_events c)" "own_sockaddrs ?c = own_sockaddrs c" "own_bevs ?c = own_bevs c"
    using c(2) fresh(2) by (auto simp: own_defs)
  have "wf_world ?w"
    using invD(1) [OF I] c(1) by (auto simp: wf_world_def less_Suc_eq)
  moreover have "env_ok e env ?w"
    using env_ok_timer_upd [OF invD(2) [OF I] nr, of "Some r"] by (simp add: env_ok_def env_events_distinct_def listener_events_def)
  moreover have "registry D (current_clients_dlinklist env) ?w"
    using invD(4) [OF I] c(1) by (simp add: registry_def insert_absorb domI)
  moreover have "client_base d \<and> regs ?w q d \<and> (q \<notin> X \<longrightarrow> complete e d)" if q: "clients ?w q = Some d" for q d
  proof (cases "q = p")
    case True
    with q have "d = ?c" by simp
    with True inv_clientD(1,2,10) [OF I c(1)] r c(2) show ?thesis
      by (auto simp: client_base_def regs_def complete_def)
  next
    case False
    with q have d: "clients w q = Some d" by simp
    then have "timeout_ev d \<noteq> brk w" using inv_clientD(9) [OF I d] fresh by (auto simp: null_or_live_def)
    with inv_clientD(1,2,10) [OF I d] show ?thesis by (auto simp: regs_def)
  qed
  moreover have "owned_once (env_events env w) ((clients w)(p \<mapsto> ?c)) own_events (insert (brk w) (dom (events w)))"
    using owned_once_give [OF owned_once_create [OF invD(7) [OF I] fresh(1)] nr c(1) own(1)] .
  ultimately show ?thesis
    using invD(3) [OF I] owned_once_upd [OF invD(5) [OF I] c(1) own(2)] owned_once_upd [OF invD(6) [OF I] c(1) own(3)]
    by (simp add: winv_def env_events_def listener_events_def)
qed

lemma at_first_timeout:
  assumes A: "at e env pm D X U p c w" and c: "timeout_ev c = NULL" "global_env c = e"
    and R: "env_reliable os"
    and Q: "\<And>n ev w'. at e env pm D X U p (c\<lparr>timeout_ev := ev\<rparr>) w' \<Longrightarrow> ev \<noteq> NULL \<Longrightarrow> Q (n, w')"
  shows "holds (transocks_client_set_timeout os p tv Socks5_timeout_cb p w) Q"
proof -
  have I: "winv e env pm D X U w" and cl: "clients w p = Some c" using A by (simp_all add: at_def)
  have b: "brk w \<noteq> NULL" using invD(1) [OF I] by (auto simp: wf_world_def)
  have al: "os_alloc os h (Event_new base (-1) 0 Socks5_timeout_cb p)" for h base
    using R by (simp add: env_reliable_def)
  let ?r = "\<lparr>ev_fd = -1, ev_flags = 0, ev_cb = Socks5_timeout_cb, ev_arg = p, ev_added = False\<rparr>"
  let ?w = "w\<lparr>brk := Suc (brk w), events := (events w)(brk w \<mapsto> ?r),
    clients := (clients w)(p \<mapsto> c\<lparr>timeout_ev := brk w\<rparr>)\<rparr>"
  have A2: "at e env pm D X U p (c\<lparr>timeout_ev := brk w\<rparr>) ?w"
    using winv_new_timer [OF I cl c(1), of ?r] by (simp add: at_def)
  have "transocks_client_set_timeout os p tv Socks5_timeout_cb p w =
    event_add os (brk w) (Some tv)
      (after_calls [Event_new (eventBaseLoop env) (-1) 0 Socks5_timeout_cb p] ?w)"
    using cl c b invD(8) [OF I] by (simp add: transocks_client_set_timeout_def event_new_def run_simps al)
  then show ?thesis
    using at_timer_ops(2) [of e env pm D X U p "c\<lparr>timeout_ev := brk w\<rparr>"
        "after_calls [Event_new (eventBaseLoop env) (-1) 0 Socks5_timeout_cb p] ?w" Q os "Some tv"] A2 b Q
    by simp
qed

subsection \<open>Connecting to the relay\<close>

lemma holds_bindI: "holds m (\<lambda>x. holds (f x) Q) \<Longrightarrow> holds (m \<bind> f) Q"
  by simp

lemma holds_SomeI: "m = Some x \<Longrightarrow> Q x \<Longrightarrow> holds m Q"
  by simp

lemma holds_let_sys:
  "holds (f (os_ret os (hist w) k) (after_calls [k] w)) Q \<Longrightarrow> holds (let (r, w') = sys os k w in f r w') Q"
  by (simp add: sys_after_calls)

lemma at_connect:
  assumes "at e env pm D X U p c w" and "b \<in> own_bevs c" and "env_reliable os"
    and "\<And>w'. at e env pm D X U p c w' \<Longrightarrow> Q (0, w')"
  shows "holds (bufferevent_socket_connect os b ss len w) Q"
proof -
  obtain r where r: "bevs w b = Some r" using at_bev_live [OF assms(1,2)] by blast
  then have "at e env pm D X U p c (w\<lparr>bevs := bevs w\<rparr>)" using assms(1) by simp
  with assms r show ?thesis
    by (simp add: bufferevent_socket_connect_def on_bev_def sys_after_calls env_reliable_def fun_upd_idem)
qed

lemma at_completed: "at e env pm D {p} U p c w \<Longrightarrow> complete e c \<Longrightarrow> winv e env pm D {} U w"
  by (auto simp: at_def winv_def) (metis option.inject)

lemma helper_calls:
  "\<exists>cs. snd (setnonblocking os fd b w) = after_calls cs w"
  "\<exists>cs. snd (apply_tcp_keepalive os fd w) = after_calls cs w"
  "\<exists>cs. snd (apply_tcp_nodelay os fd w) = after_calls cs w"
  "\<exists>cs. snd (getorigdst os fd w) = after_calls cs w"
  using only_calls_setnonblocking only_calls_keepalive only_calls_nodelay only_calls_getorigdst
  by (simp_all add: only_calls_def)

lemma holds_helpers:
  assumes "\<And>r cs. holds (f r (after_calls cs w)) Q"
  shows "holds (let (r, w') = setnonblocking os fd b w in f r w') Q"
    "holds (let (r, w') = apply_tcp_keepalive os fd w in f r w') Q"
    "holds (let (r, w') = apply_tcp_nodelay os fd w in f r w') Q"
  using assms helper_calls(1) [of os fd b w] helper_calls(2) [of os fd w] helper_calls(3) [of os fd w]
  by (auto simp: Let_def split: prod.splits)

lemma connect_relay_closeFd_safe:
  "at e env pm {} {p} {} p c w \<Longrightarrow> holds (connect_relay_closeFd os fd p w) (winv e env pm {} {} {})"
  by (auto simp: connect_relay_closeFd_def TRANSOCKS_CLOSE_simp intro!: at_free)

lemma connect_relay_free_safe:
  "at e env pm {} {p} {} p c w \<Longrightarrow>
   holds (TRANSOCKS_FREE (transocks_client_free os) p w) (winv e env pm {} {} {})"
  by (auto intro!: at_free)

text \<open>A client with everything but the relay and the timer.\<close>

definition accepted :: "addr \<Rightarrow> transocks_client \<Rightarrow> bool" where
  "accepted e c \<longleftrightarrow> global_env c = e \<and> client_addr c \<noteq> NULL \<and> dest_addr c \<noteq> NULL
     \<and> client_bev c \<noteq> NULL \<and> relay_bev c = NULL \<and> timeout_ev c = NULL"

lemma relay_pending_safe:
  assumes A: "at e env pm {} {p} {b} p c w" and b: "b \<noteq> NULL" "bevs w b = Some r" "no_cbs r"
    and c: "accepted e c" and R: "env_reliable os"
  shows "holds (on_client p (\<lambda>c. c\<lparr>relay_bev := b\<rparr>) w) (\<lambda>w.
      holds (bufferevent_setcb b No_callback No_callback Relay_onconnect_eventcb p w) (\<lambda>w.
      holds (bufferevent_enable os b EV_WRITE w) (\<lambda>(_, w).
      holds (transocks_client_set_timeout os p socks5_timeout_tv Socks5_timeout_cb p w) (\<lambda>(_, w).
      holds (bufferevent_socket_connect os b ra len w) (\<lambda>(r, w).
      holds (if r \<noteq> 0 then connect_relay_freeBev os b fd p w else Some w) (winv e env pm {} {} {}))))))"
proof -
  let ?c = "c\<lparr>relay_bev := b\<rparr>"
  have own: "relay_bev ?c \<noteq> NULL" "b = relay_bev ?c" "b \<in> own_bevs ?c" "timeout_ev ?c = NULL" "global_env ?c = e"
    using b(1) c by (simp_all add: own_bevs_def accepted_def)
  have conn: "holds (bufferevent_socket_connect os b ra len w') (\<lambda>(r, w).
      holds (if r \<noteq> 0 then connect_relay_freeBev os b fd p w else Some w) (winv e env pm {} {} {}))"
    if "at e env pm {} {p} {} p (?c\<lparr>timeout_ev := ev\<rparr>) w'" "ev \<noteq> NULL" for w' ev
    using that b(1) c by (auto intro!: at_connect [OF that(1) _ R] at_completed
        simp: own_bevs_def accepted_def complete_def)
  have setcb: "holds (bufferevent_setcb b No_callback No_callback Relay_onconnect_eventcb p w') Q"
    if "at e env pm {} {p} {} p ?c w'" "\<And>w'. at e env pm {} {p} {} p ?c w' \<Longrightarrow> Q w'" for w' Q
    using at_setcb_relay [OF that(1) own(1) _ that(2), of No_callback No_callback Relay_onconnect_eventcb] by simp
  show ?thesis
    by (rule at_give_bev(2) [OF A _ b(2,3)], simp, use c in \<open>simp add: accepted_def\<close>)
      (((rule setcb, assumption) | (rule at_bev_ops(1) [OF _ own(3)], assumption) | (simp only: prod.case)
        | (rule at_first_timeout [OF _ own(4,5) R], assumption) | (rule conn; assumption))+)
qed

lemma start_connect_relay_safe:
  assumes A: "at e env pm {} {p} {} p c w" and c: "accepted e c" and R: "env_reliable os"
  shows "holds (transocks_start_connect_relay os p w) (winv e env pm {} {} {})"
proof -
  have I: "winv e env pm {} {p} {} w" using A by (rule at_inv)
  have env: "clients w p = Some c" "envs w (global_env c) = Some env"
    using A c at_env [OF A] by (simp_all add: at_def accepted_def)
  obtain ra where ra: "sockaddrs w (relay_addr env) = Some ra"
    using owned_once_rest [OF invD(5) [OF I]] by blast
  have fd: "same_parts c (c\<lparr>relay_fd := fd\<rparr>)" "accepted e (c\<lparr>relay_fd := fd\<rparr>)" for fd
    using inv_clientD(1) [OF I env(1)] c by (simp_all add: same_parts_def client_base_def accepted_def)
  note fail = connect_relay_closeFd_safe connect_relay_free_safe
  have new_bev: "holds (let (b, w) = bufferevent_socket_new os base fd w' in
      if b = NULL then connect_relay_closeFd os fd p w
      else on_client p (\<lambda>c. c\<lparr>relay_bev := b\<rparr>) w \<bind> (\<lambda>w.
        bufferevent_setcb b No_callback No_callback Relay_onconnect_eventcb p w \<bind> (\<lambda>w.
        bufferevent_enable os b EV_WRITE w \<bind> (\<lambda>(_, w).
        transocks_client_set_timeout os p socks5_timeout_tv Socks5_timeout_cb p w \<bind> (\<lambda>(_, w).
        bufferevent_socket_connect os b ra (relay_addr_len env) w \<bind> (\<lambda>(r, w).
        if r \<noteq> 0 then connect_relay_freeBev os b fd p w else Some w))))))
      (winv e env pm {} {} {})"
    if "at e env pm {} {p} {} p (c\<lparr>relay_fd := fd\<rparr>) w'" for w' fd base
    unfolding Let_def
    by (rule at_bufferevent_socket_new [OF that])
      (use relay_pending_safe [OF _ _ _ _ fd(2) R] fail in \<open>auto simp del: neq0_conv\<close>)
  show ?thesis
    using A unfolding transocks_start_connect_relay_def
    by - (((rule holds_bindI) | (rule holds_SomeI, rule env ra) | (rule holds_let_sys) | (rule holds_if)
        | (rule holds_helpers) | (rule fail, (assumption | (erule at_callsI)+))
        | (rule at_on_client, (assumption | (erule at_callsI)+), rule fd) | (rule new_bev, assumption)
        | (simp only: after_calls_simps))+)
qed

subsection \<open>A new client\<close>

text \<open>A client as \<^const>\<open>transocks_client_new\<close> initialises it, before it has addresses.\<close>

definition blank :: "transocks_client \<Rightarrow> bool" where
  "blank c \<longleftrightarrow> client_addr c = NULL \<and> dest_addr c = NULL \<and> client_bev c = NULL \<and> relay_bev c = NULL
     \<and> timeout_ev c = NULL \<and> client_state c = client_NEW"

lemma winv_new_client:
  assumes I: "winv e env pm {} {} {} w" and c: "blank c" and n: "dlist n (brk w) []" "dom n = {brk w}"
  shows "at e env pm {brk w} {brk w} {} (brk w) c
    (w\<lparr>brk := Suc (brk w), nodes := nodes w ++ n, clients := (clients w)(brk w \<mapsto> c)\<rparr>)" (is "at _ _ _ _ _ _ _ _ ?w")
proof -
  let ?head = "current_clients_dlinklist env"
  note wf = invD(1) [OF I]
  have fresh: "clients w (brk w) = None" "brk w \<notin> dom (nodes w)" "brk w \<noteq> NULL"
    using wf by (auto simp: wf_world_def)
  have own: "own_sockaddrs c = {}" "own_bevs c = {}" "own_events c = {}"
    using c by (auto simp: own_defs blank_def)
  have "wf_world ?w" using wf n(2) by (auto simp: wf_world_def less_Suc_eq)
  moreover have "registry {brk w} ?head ?w"
  proof -
    obtain xs where xs: "dlist (nodes w) ?head xs" "set xs = dom (clients w)"
      and d: "dom (nodes w) = insert ?head (dom (clients w))" "?head \<notin> dom (clients w)"
      using invD(4) [OF I] by (auto simp: registry_def)
    have other: "(nodes w ++ n) q = nodes w q" if "q \<noteq> brk w" for q
      using that n(2) by (simp add: map_add_def dom_def split: option.splits) blast
    have new: "(nodes w ++ n) (brk w) = n (brk w)"
      using n(2) by (simp add: map_add_dom_app_simps)
    have "dlist (nodes w ++ n) ?head xs"
      using dlist_dom [OF xs(1)] fresh(2) by (intro dlist_agree [OF xs(1)]) (auto intro!: other)
    moreover have "dlist (nodes w ++ n) (brk w) []"
      using new by (intro dlist_agree [OF n(1)]) auto
    moreover have "brk w \<notin> set xs" using xs(2) fresh(1) by auto
    ultimately show ?thesis
      using xs(2) d fresh n(2) by (auto simp: registry_def intro!: exI [of _ xs])
  qed
  moreover have "client_base d \<and> regs ?w q d \<and> (q \<notin> {brk w} \<longrightarrow> complete e d)" if "clients ?w q = Some d" for q d
    using that I c wf_world_null [OF wf]
    by (auto simp: winv_def client_base_def blank_def regs_def split: if_splits simp del: wf_world_null)
  ultimately have "winv e env pm {brk w} {brk w} {} ?w"
    using invD(2,3) [OF I] owned_once_new [OF invD(5) [OF I] fresh(1) own(1)]
      owned_once_new [OF invD(6) [OF I] fresh(1) own(2)] owned_once_new [OF invD(7) [OF I] fresh(1) own(3)]
    by (simp add: winv_def)
  then show ?thesis by (simp add: at_def)
qed

lemma winv_new_sockaddr:
  assumes I: "winv e env pm D X U w" and c: "clients w p = Some c" "p \<in> X"
    and c': "c' = c\<lparr>client_addr := brk w\<rparr> \<and> client_addr c = NULL \<or> c' = c\<lparr>dest_addr := brk w\<rparr> \<and> dest_addr c = NULL"
  shows "winv e env pm D X U (w\<lparr>brk := Suc (brk w), sockaddrs := (sockaddrs w)(brk w \<mapsto> s),
    clients := (clients w)(p \<mapsto> c')\<rparr>)" (is "winv _ _ _ _ _ _ ?w")
proof -
  have fresh: "brk w \<notin> dom (sockaddrs w)" "0 < brk w" using invD(1) [OF I] by (auto simp: wf_world_def)
  have nr: "brk w \<notin> {bind_addr env, relay_addr env}" using owned_once_rest [OF invD(5) [OF I]] fresh by blast
  have nown: "brk w \<notin> own_sockaddrs c" using owned_once_live [OF invD(5) [OF I] c(1)] fresh by blast
  have own: "own_sockaddrs c' = insert (brk w) (own_sockaddrs c)" "own_bevs c' = own_bevs c" "own_events c' = own_events c"
    using c' fresh(2) by (auto simp: own_defs)
  have "wf_world ?w" using invD(1) [OF I] c(1) by (auto simp: wf_world_def less_Suc_eq)
  moreover have "registry D (current_clients_dlinklist env) ?w"
    using invD(4) [OF I] c(1) by (simp add: registry_def insert_absorb domI)
  moreover have "client_base c'"
    using inv_clientD(1) [OF I c(1)] c' nown fresh(2) by (auto simp: client_base_def own_sockaddrs_def)
  moreover have "regs ?w p c'"
    using inv_clientD(10) [OF I c(1)] c' by (elim disjE conjE) (simp_all add: regs_def)
  ultimately show ?thesis
    using I c(2) owned_once_give [OF owned_once_create [OF invD(5) [OF I] fresh(1)] nr c(1) own(1)]
      owned_once_upd [OF invD(6) [OF I] c(1) own(2)] owned_once_upd [OF invD(7) [OF I] c(1) own(3)]
    by (simp add: winv_def regs_def)
qed

lemma holds_malloc_sockaddr:
  assumes A: "at e env pm D X U p c w" and X: "p \<in> X"
  shows "client_addr c = NULL \<Longrightarrow> (\<And>a w'. at e env pm D X U p (c\<lparr>client_addr := a\<rparr>) w' \<Longrightarrow> holds (f a w') Q) \<Longrightarrow>
      holds (let (a, w') = malloc_sockaddr os w in on_client p (\<lambda>c. c\<lparr>client_addr := a\<rparr>) w' \<bind> f a) Q"
    and "dest_addr c = NULL \<Longrightarrow> (\<And>a w'. at e env pm D X U p (c\<lparr>dest_addr := a\<rparr>) w' \<Longrightarrow> holds (f a w') Q) \<Longrightarrow>
      holds (let (a, w') = malloc_sockaddr os w in on_client p (\<lambda>c. c\<lparr>dest_addr := a\<rparr>) w' \<bind> f a) Q"
proof -
  have I: "winv e env pm D X U w" and c: "clients w p = Some c" using A by (simp_all add: at_def)
  have b: "brk w \<noteq> NULL" using invD(1) [OF I] by (auto simp: wf_world_def)
  note run = malloc_sockaddr_def alloc_simp on_client_def at_def fun_upd_idem
  show "client_addr c = NULL \<Longrightarrow> (\<And>a w'. at e env pm D X U p (c\<lparr>client_addr := a\<rparr>) w' \<Longrightarrow> holds (f a w') Q) \<Longrightarrow>
      holds (let (a, w') = malloc_sockaddr os w in on_client p (\<lambda>c. c\<lparr>client_addr := a\<rparr>) w' \<bind> f a) Q"
    using I c b winv_new_sockaddr [OF I c X] by (simp add: run)
  show "dest_addr c = NULL \<Longrightarrow> (\<And>a w'. at e env pm D X U p (c\<lparr>dest_addr := a\<rparr>) w' \<Longrightarrow> holds (f a w') Q) \<Longrightarrow>
      holds (let (a, w') = malloc_sockaddr os w in on_client p (\<lambda>c. c\<lparr>dest_addr := a\<rparr>) w' \<bind> f a) Q"
    using I c b winv_new_sockaddr [OF I c X] by (simp add: run)
qed

lemma registry_drop_detached:
  assumes "registry D head w" and "p \<in> D"
  shows "registry (D - {p}) head (w\<lparr>clients := (clients w)(p := None), nodes := (nodes w)(p := None)\<rparr>)"
proof -
  obtain xs where xs: "dlist (nodes w) head xs" "set xs \<inter> D = {}" "set xs \<union> D = dom (clients w)"
    and d: "dom (nodes w) = insert head (dom (clients w))" "head \<notin> dom (clients w)"
    and D: "\<And>q. q \<in> D \<Longrightarrow> dlist (nodes w) q []"
    using assms(1) by (auto simp: registry_def)
  have p: "p \<noteq> head" "p \<notin> set xs" using assms(2) xs d by auto
  have "dlist ((nodes w)(p := None)) head xs"
    using p by (intro dlist_agree [OF xs(1)]) auto
  moreover have "dlist ((nodes w)(p := None)) q []" if "q \<in> D - {p}" for q
    using that by (intro dlist_agree [OF D]) auto
  ultimately show ?thesis
    using xs d p assms(2) by (auto simp: registry_def intro!: exI [of _ xs])
qed

lemma client_new_fail_safe:
  assumes A: "at e env pm {p} {p} {} p c w" and c: "client_bev c = NULL" "relay_bev c = NULL" "timeout_ev c = NULL"
  shows "holds (client_new_fail p w) (\<lambda>(r, w'). r = NULL \<and> winv e env pm {} {} {} w')"
proof -
  have I: "winv e env pm {p} {p} {} w" and cl: "clients w p = Some c" using A by (simp_all add: at_def)
  note wf = invD(1) [OF I]
  have live: "null_or_live (sockaddrs w) (client_addr c)" "null_or_live (sockaddrs w) (dest_addr c)" "p \<noteq> NULL"
    using inv_clientD [OF I cl] by blast+
  have sep: "null_or_live ((sockaddrs w)(client_addr c := None)) (dest_addr c) = null_or_live (sockaddrs w) (dest_addr c)"
    using inv_clientD(1) [OF I cl] by (auto simp: null_or_live_upd client_base_def)
  have "winv e env pm {} {} {} (client_removed p c (nodes w) w)"
    using inv_client_removed [OF I cl refl registry_drop_detached [OF invD(4) [OF I]]] by simp
  moreover have "client_removed p c (nodes w) w = w\<lparr>sockaddrs := (sockaddrs w)(client_addr c := None, dest_addr c := None),
      clients := (clients w)(p := None), nodes := (nodes w)(p := None)\<rparr>"
    using c wf by (simp add: client_removed_def fun_upd_idem)
  moreover have "client_new_fail p w = Some (NULL, after_calls
      ((if client_addr c \<noteq> NULL then [Free (client_addr c)] else []) @ (if dest_addr c \<noteq> NULL then [Free (dest_addr c)] else []) @ [Free p])
      (w\<lparr>sockaddrs := (sockaddrs w)(client_addr c := None, dest_addr c := None),
      clients := (clients w)(p := None), nodes := (nodes w)(p := None)\<rparr>))"
    unfolding client_new_fail_def using cl live wf
    by (simp split del: if_split del: neq0_conv add: run_simps FREE_sockaddr_simp sep if_None_eq_None
        TRANSOCKS_FREE_def [of free_client_mem] free_client_mem_def)
  ultimately show ?thesis by (simp del: neq0_conv)
qed

lemma at_set_env:
  assumes A: "at e env pm D X U p c w" and X: "p \<in> X"
    and Q: "\<And>w'. at e env pm D X U p (c\<lparr>global_env := e'\<rparr>) w' \<Longrightarrow> Q w'"
  shows "holds (on_client p (\<lambda>c. c\<lparr>global_env := e'\<rparr>) w) Q"
proof -
  let ?c = "c\<lparr>global_env := e'\<rparr>"
  have I: "winv e env pm D X U w" and c: "clients w p = Some c" using A by (simp_all add: at_def)
  have "winv e env pm D X U (w\<lparr>clients := (clients w)(p \<mapsto> ?c)\<rparr>)"
    unfolding winv_def
  proof (intro conjI allI impI)
    fix q d assume "clients (w\<lparr>clients := (clients w)(p \<mapsto> ?c)\<rparr>) q = Some d"
    then show "client_base d" "regs (w\<lparr>clients := (clients w)(p \<mapsto> ?c)\<rparr>) q d" "q \<notin> X \<Longrightarrow> complete e d"
      using I X inv_clientD(1,10) [OF I c] by (auto simp: winv_def client_base_def regs_def split: if_splits)
  qed (use invD [OF I] c owned_once_upd [OF invD(5) [OF I] c, of ?c] owned_once_upd [OF invD(6) [OF I] c, of ?c]
      owned_once_upd [OF invD(7) [OF I] c, of ?c] in \<open>simp_all add: own_defs\<close>)
  with c Q show ?thesis by (simp add: on_client_simp at_def)
qed

text \<open>What the listener gets from \<^const>\<open>transocks_client_new\<close>.\<close>

definition fresh_client :: "addr \<Rightarrow> transocks_client \<Rightarrow> bool" where
  "fresh_client e c \<longleftrightarrow> global_env c = e \<and> client_addr c \<noteq> NULL \<and> dest_addr c \<noteq> NULL
     \<and> client_bev c = NULL \<and> relay_bev c = NULL \<and> timeout_ev c = NULL"

lemma client_new_safe:
  assumes I: "winv e env pm {} {} {} w" and R: "env_reliable os"
    and fail: "\<And>w'. winv e env pm {} {} {} w' \<Longrightarrow> Q (NULL, w')"
    and ok: "\<And>p c w'. at e env pm {p} {p} {} p c w' \<Longrightarrow> fresh_client e c \<Longrightarrow> p \<noteq> NULL \<Longrightarrow> Q (p, w')"
  shows "holds (transocks_client_new os e w) Q"
proof -
  let ?p = "brk w"
  let ?c = "(garbage_client os)\<lparr>global_env := NULL, client_addr := NULL, dest_addr := NULL,
      client_fd := -1, relay_fd := -1, client_bev := NULL, relay_bev := NULL,
      timeout_ev := NULL, user_arg := NULL, client_shutdown_read := False,
      client_shutdown_write := False, relay_shutdown_read := False,
      relay_shutdown_write := False, client_state := client_NEW\<rparr>"
  let ?n = "[?p \<mapsto> \<lparr>lh_next = ?p, lh_prev = ?p\<rparr>]"
  let ?w = "w\<lparr>brk := Suc ?p, nodes := nodes w ++ ?n, clients := (clients w)(?p \<mapsto> ?c)\<rparr>"
  have p: "?p \<noteq> NULL" using invD(1) [OF I] by (auto simp: wf_world_def)
  have al: "os_alloc os h (Malloc T_client)" for h using R by (simp add: env_reliable_def)
  have A: "at e env pm {?p} {?p} {} ?p ?c (after_calls [Malloc T_client] ?w)"
    using winv_new_client [OF I, of ?c ?n]
    by (simp add: blank_def dlist_def link_def get_next_def get_prev_def)
  have failing: "holds (client_new_fail ?p w') Q"
    if "at e env pm {?p} {?p} {} ?p (?c\<lparr>client_addr := a, dest_addr := d\<rparr>) w'" for a d w'
    using client_new_fail_safe [OF that] by (auto elim!: holds_mono intro: fail)
  have parts: "holds (on_client ?p (\<lambda>c. c\<lparr>global_env := e\<rparr>) w' \<bind> (\<lambda>w. Some (?p, w))) Q"
    if "at e env pm {?p} {?p} {} ?p (?c\<lparr>client_addr := a, dest_addr := d\<rparr>) w'" "\<not> (a = NULL \<or> d = NULL)" for a d w'
    using that(2) p by (auto simp: fresh_client_def intro!: at_set_env [OF that(1)] ok)
  have "holds (let (a, w) = malloc_sockaddr os (after_calls [Malloc T_client] ?w) in
      on_client ?p (\<lambda>c. c\<lparr>client_addr := a\<rparr>) w \<bind> (\<lambda>w. let (d, w) = malloc_sockaddr os w in
      on_client ?p (\<lambda>c. c\<lparr>dest_addr := d\<rparr>) w \<bind> (\<lambda>w.
      if a = NULL \<or> d = NULL then client_new_fail ?p w
      else on_client ?p (\<lambda>c. c\<lparr>global_env := e\<rparr>) w \<bind> (\<lambda>w. Some (?p, w))))) Q"
    by (rule holds_malloc_sockaddr(1) [OF A], simp, simp, rule holds_malloc_sockaddr(2), assumption, simp, simp)
      (rule holds_if, (rule failing | rule parts), simp, (rule failing | rule parts), simp_all)
  moreover have "transocks_client_new os e w =
      (let (a, w) = malloc_sockaddr os (after_calls [Malloc T_client] ?w) in
      on_client ?p (\<lambda>c. c\<lparr>client_addr := a\<rparr>) w \<bind> (\<lambda>w. let (d, w) = malloc_sockaddr os w in
      on_client ?p (\<lambda>c. c\<lparr>dest_addr := d\<rparr>) w \<bind> (\<lambda>w.
      if a = NULL \<or> d = NULL then client_new_fail ?p w
      else on_client ?p (\<lambda>c. c\<lparr>global_env := e\<rparr>) w \<bind> (\<lambda>w. Some (?p, w)))))"
    using p by (simp add: transocks_client_new_def malloc_client_def alloc_simp al on_nodes_def INIT_LIST_HEAD_def
        set_next_def set_prev_def on_client_def split del: if_split)
  ultimately show ?thesis by simp
qed

subsection \<open>Accepting a connection\<close>

lemma at_on_sockaddr:
  assumes A: "at e env pm D X U p c w" and a: "a \<in> own_sockaddrs c" and f: "\<And>s. \<exists>s'. f s = Some s'"
    and Q: "\<And>w'. at e env pm D X U p c w' \<Longrightarrow> Q w'"
  shows "holds (on_sockaddr a f w) Q"
proof -
  have I: "winv e env pm D X U w" and c: "clients w p = Some c" using A by (simp_all add: at_def)
  obtain s where s: "sockaddrs w a = Some s" using owned_once_live [OF invD(5) [OF I] c] a by blast
  obtain s' where s': "f s = Some s'" using f by blast
  have "winv e env pm D X U (w\<lparr>sockaddrs := (sockaddrs w)(a \<mapsto> s')\<rparr>)"
    using I s by (simp add: winv_def insert_absorb domI)
  with c s s' Q show ?thesis by (simp add: on_sockaddr_def at_def)
qed

lemma at_list_add:
  assumes A: "at e env pm {p} X U p c w" and Q: "\<And>w'. at e env pm {} X U p c w' \<Longrightarrow> Q w'"
  shows "holds (on_nodes (list_add_tail p (current_clients_dlinklist env)) w) Q"
proof -
  let ?head = "current_clients_dlinklist env"
  have I: "winv e env pm {p} X U w" and c: "clients w p = Some c" using A by (simp_all add: at_def)
  obtain xs where xs: "dlist (nodes w) ?head xs" "p \<notin> set xs" "insert p (set xs) = dom (clients w)"
    and d: "dom (nodes w) = insert ?head (dom (clients w))" "?head \<notin> dom (clients w)"
    using invD(4) [OF I] by (auto simp: registry_def)
  obtain h' where h': "list_add_tail p ?head (nodes w) = Some h'" "dlist h' ?head (xs @ [p])" "dom h' = dom (nodes w)"
  proof -
    have "p \<notin> set (?head # xs)" "p \<in> dom (nodes w)" using xs(2) d c by auto
    with list_add_tail_law [OF xs(1), of p] that show ?thesis by blast
  qed
  have "registry {} ?head (w\<lparr>nodes := h'\<rparr>)"
    using h' d xs(3) by (auto simp: registry_def intro!: exI [of _ "xs @ [p]"])
  moreover have "wf_world (w\<lparr>nodes := h'\<rparr>)" using invD(1) [OF I] h'(3) by (simp add: wf_world_def)
  ultimately have "winv e env pm {} X U (w\<lparr>nodes := h'\<rparr>)" using I by (simp add: winv_def)
  with c h'(1) Q show ?thesis by (simp add: on_nodes_def at_def)
qed

lemma holds_getorigdst:
  assumes "\<And>r cs. holds (f r (after_calls cs w)) Q"
  shows "holds (let (r, w') = getorigdst os fd w in f r w') Q"
  using assms helper_calls(4) [of os fd w] by (auto simp: Let_def split: prod.splits)

lemma listener_fails_safe:
  "winv e env pm {} {} {} w \<Longrightarrow> holds (listener_freeFd fd w) (winv e env pm {} {} {})"
  "winv e env pm {} {} {} w \<Longrightarrow> holds (listener_freeClient os NULL fd w) (winv e env pm {} {} {})"
  "at e env pm {p} {p} {} p c w \<Longrightarrow> holds (listener_freeClient os p fd w) (winv e env pm {} {} {})"
  "at e env pm {p} {p} {} p c w \<Longrightarrow> holds (listener_freeBev os NULL p fd w) (winv e env pm {} {} {})"
  by (auto simp: listener_freeFd_def listener_freeClient_def listener_freeBev_def TRANSOCKS_CLOSE_simp
      TRANSOCKS_FREE_def [of bufferevent_free] TRANSOCKS_FREE_def [of _ NULL] intro!: at_free)

lemma listener_freeBev_safe:
  "at e env pm {p} {p} {b} p c w \<Longrightarrow> bevs w b = Some r \<Longrightarrow>
   holds (listener_freeBev os b p fd w) (winv e env pm {} {} {})"
  by (auto simp: listener_freeBev_def intro!: at_free_bev_rest listener_fails_safe(3))

text \<open>The bufferevent towards the client, the list, and on to the relay.\<close>

lemma accept_bev_safe:
  assumes A: "at e env pm {p} {p} {} p c w" and c: "fresh_client e c" and R: "env_reliable os"
  shows "holds (let (b, w) = bufferevent_socket_new os base fd0 w in
      if b = NULL then listener_freeBev os b p fd w
      else bufferevent_disable os b EV_READ w \<bind> (\<lambda>(r, w).
        if r \<noteq> 0 then listener_freeBev os b p fd w
        else bufferevent_setfd os b fd w \<bind> (\<lambda>(r, w).
          if r \<noteq> 0 then listener_freeBev os b p fd w
          else on_client p (\<lambda>c. c\<lparr>client_bev := b\<rparr>) w \<bind> (\<lambda>w.
            on_nodes (list_add_tail p (current_clients_dlinklist env)) w \<bind> (\<lambda>w.
            transocks_start_connect_relay os p w)))))
      (winv e env pm {} {} {})"
  unfolding Let_def
proof (rule at_bufferevent_socket_new [OF A], goal_cases)
  case (1 w')
  then show ?case by (simp add: listener_fails_safe(4))
next
  case B: (2 b r w')
  have acc: "accepted e (c\<lparr>client_bev := b\<rparr>)" and cb: "client_bev c = NULL"
    using c B(2) by (simp_all add: fresh_client_def accepted_def)
  from B show ?case
    by - (((simp only: prod.case if_False) | (rule holds_bindI) | (rule holds_if)
        | (rule at_bev_ops_rest, assumption, assumption, assumption)
        | (rule listener_freeBev_safe, assumption, assumption)
        | (rule at_give_bev(1) [OF _ _ _ _ cb], assumption, rule singletonI, assumption, assumption)
        | (rule at_list_add, assumption) | (rule start_connect_relay_safe [OF _ acc R], assumption))+)
qed

lemma accept_dest_safe:
  assumes A: "at e env pm {p} {p} {} p c w" and c: "fresh_client e c" and R: "env_reliable os"
    and bev: "\<And>c w. at e env pm {p} {p} {} p c w \<Longrightarrow> fresh_client e c \<Longrightarrow> holds (f w) (winv e env pm {} {} {})"
  shows "holds (on_sockaddr (dest_addr c) (\<lambda>_. Some a) w \<bind> (\<lambda>w.
      on_client p (\<lambda>c. c\<lparr>dest_addr_len := l\<rparr>) w \<bind> (\<lambda>w.
      on_client p (\<lambda>c. c\<lparr>client_fd := fd, global_env := e\<rparr>) w \<bind> f))) (winv e env pm {} {} {})"
proof -
  have own: "dest_addr c \<in> own_sockaddrs c" using c by (simp add: own_sockaddrs_def fresh_client_def)
  have st: "client_state c \<noteq> client_DESTROYED" "client_state c \<noteq> client_DESTROYING"
    using inv_clientD(1) [of e env pm "{p}" "{p}" "{}" w p c] A by (simp_all add: at_def client_base_def)
  let ?c1 = "c\<lparr>dest_addr_len := l\<rparr>" and ?c2 = "c\<lparr>dest_addr_len := l, client_fd := fd, global_env := e\<rparr>"
  have parts: "same_parts c ?c1" "same_parts ?c1 ?c2" "fresh_client e ?c2"
    using st c by (simp_all add: same_parts_def fresh_client_def)
  show ?thesis
    by (rule holds_bindI, rule at_on_sockaddr [OF A own], simp, rule holds_bindI, rule at_on_client,
        assumption, rule parts, rule holds_bindI, rule at_on_client, assumption, simp add: parts)
      (rule bev, assumption, simp add: parts)
qed

lemma memcpy_defined: "n \<le> sizeof_sockaddr_storage \<Longrightarrow> \<exists>s'. memcpy_sockaddr n src s = Some s'"
  by (simp add: memcpy_sockaddr_def)

lemma accept_client_safe:
  assumes A: "at e env pm {p} {p} {} p c w" and c: "fresh_client e c" and R: "env_reliable os"
    and len: "len \<le> sizeof_sockaddr_storage"
    and bev: "\<And>c w. at e env pm {p} {p} {} p c w \<Longrightarrow> fresh_client e c \<Longrightarrow> holds (f w) (winv e env pm {} {} {})"
  shows "holds (sockaddrs w (bind_addr env) \<bind> (\<lambda>_.
      on_client p (\<lambda>c. c\<lparr>client_addr_len := len\<rparr>) w \<bind> (\<lambda>w.
      clients w p \<bind> (\<lambda>c.
      on_sockaddr (client_addr c) (memcpy_sockaddr len src) w \<bind> (\<lambda>w.
      let (dst, w) = getorigdst os fd w in
      case dst of
        None \<Rightarrow> listener_freeClient os p fd w
      | Some (destaddr, addrlen) \<Rightarrow>
          on_sockaddr (dest_addr c) (\<lambda>_. Some destaddr) w \<bind> (\<lambda>w.
          on_client p (\<lambda>c. c\<lparr>dest_addr_len := addrlen\<rparr>) w \<bind> (\<lambda>w.
          on_client p (\<lambda>c. c\<lparr>client_fd := fd, global_env := e\<rparr>) w \<bind> f)))))))
      (winv e env pm {} {} {})"
proof -
  let ?c = "c\<lparr>client_addr_len := len\<rparr>"
  have I: "winv e env pm {p} {p} {} w" using A by (rule at_inv)
  obtain ba where ba: "sockaddrs w (bind_addr env) = Some ba"
    using owned_once_rest [OF invD(5) [OF I]] by blast
  have parts: "same_parts c ?c" "fresh_client e ?c" "client_addr ?c \<in> own_sockaddrs ?c"
    using inv_clientD(1) [OF I, of p c] A c
    by (simp_all add: at_def same_parts_def client_base_def fresh_client_def own_sockaddrs_def)
  have dst: "holds (case dst of None \<Rightarrow> listener_freeClient os p fd w'
      | Some (destaddr, addrlen) \<Rightarrow>
          on_sockaddr (dest_addr ?c) (\<lambda>_. Some destaddr) w' \<bind> (\<lambda>w.
          on_client p (\<lambda>c. c\<lparr>dest_addr_len := addrlen\<rparr>) w \<bind> (\<lambda>w.
          on_client p (\<lambda>c. c\<lparr>client_fd := fd, global_env := e\<rparr>) w \<bind> f))) (winv e env pm {} {} {})"
    if "at e env pm {p} {p} {} p ?c w'" for w' dst
    using that accept_dest_safe [OF that parts(2) R bev] listener_fails_safe(3) [OF that]
    by (auto split: option.split simp del: holds_bind)
  show ?thesis
    by (rule holds_bindI, rule holds_SomeI [OF ba], rule holds_bindI, rule at_on_client, rule A, rule parts(1),
        rule holds_bindI, rule at_client_read, assumption, rule holds_bindI,
        rule at_on_sockaddr [OF _ parts(3) memcpy_defined [OF len]], assumption)
      (rule holds_getorigdst, rule dst, erule at_callsI)
qed

lemma listener_cb_safe:
  assumes I: "winv e env pm {} {} {} w" and l: "listeners w (listener env) = Some l" and R: "env_reliable os"
  shows "holds (listener_cb os e w) (winv e env pm {} {} {})"
proof -
  have len: "os_socklen os h (Accept fd) \<le> sizeof_sockaddr_storage" for h fd
    using R by (simp add: env_reliable_def)
  show ?thesis
    using I unfolding listener_cb_def
    by - (((rule accept_client_safe [OF _ _ R len], assumption, assumption)
        | (rule holds_bindI) | (rule holds_SomeI [OF invD(8) [OF I]]) | (rule holds_SomeI [OF l])
        | (rule holds_let_sys) | (rule holds_helpers)
        | (rule holds_if) | (simp only: Let_def [of "os_sockaddr _ _ _"] Let_def [of "os_socklen _ _ _"] prod.case holds_Some inv_calls refl if_True if_False simp_thms)
        | (rule listener_fails_safe(1), simp; fail)
        | (rule client_new_safe [of e env pm, OF _ R], simp)
        | (rule listener_fails_safe(2), assumption)
        | (rule accept_bev_safe [OF _ _ R], assumption, assumption))+)
qed

end
