(* ===== verification/Event_Loop.thy ===== *)
theory Event_Loop
  imports Construction
begin

text \<open>
  The event loop: which callback runs when, and that the program never reaches undefined
  behaviour, whatever happens in whatever order.

  The loop itself is libevent. What the program relies on is that libevent calls the functions it
  registered, with the argument it registered; \<open>handle\<close> is this dispatch on the registrations
  kept in the state. An \<open>occurrence\<close> is something libevent may report: data on a bufferevent, an
  emptied output buffer, a condition on a bufferevent, or an event that became active. Every
  sequence of occurrences is allowed, also ones that libevent would not produce (such as a read
  callback on a bufferevent with reading disabled).
\<close>

unbundle bit_operations_syntax

subsection \<open>Dispatch\<close>

datatype occurrence = Readable addr | Writable addr | Condition addr "16 word" | Active addr

fun run_data_cb :: "os \<Rightarrow> callback \<Rightarrow> addr \<Rightarrow> addr \<Rightarrow> world \<Rightarrow> world option" where
  "run_data_cb os No_callback b p w = Some w"
| "run_data_cb os Socks_on_server_selected_method_readcb b p w = socks_on_server_selected_method_readcb os b p w"
| "run_data_cb os Socks_on_server_connect_reply_readcb b p w = socks_on_server_connect_reply_readcb os p w"
| "run_data_cb os Bufferpump_client_readcb b p w = transocks_client_readcb os p w"
| "run_data_cb os Bufferpump_client_writecb b p w = transocks_client_writecb os p w"
| "run_data_cb os Bufferpump_relay_readcb b p w = transocks_relay_readcb os p w"
| "run_data_cb os Bufferpump_relay_writecb b p w = transocks_relay_writecb os p w"
| "run_data_cb os _ b p w = None"

fun run_condition_cb :: "os \<Rightarrow> callback \<Rightarrow> 16 word \<Rightarrow> addr \<Rightarrow> world \<Rightarrow> world option" where
  "run_condition_cb os No_callback what p w = Some w"
| "run_condition_cb os Relay_onconnect_eventcb what p w = relay_onconnect_eventcb os what p w"
| "run_condition_cb os Socks_handshake_stage_errcb what p w = socks_handshake_stage_errcb os what p w"
| "run_condition_cb os Bufferpump_client_eventcb what p w = transocks_client_eventcb os what p w"
| "run_condition_cb os Bufferpump_relay_eventcb what p w = transocks_relay_eventcb os what p w"
| "run_condition_cb os _ what p w = None"

fun run_event_cb :: "os \<Rightarrow> callback \<Rightarrow> addr \<Rightarrow> world \<Rightarrow> world option" where
  "run_event_cb os Socks5_timeout_cb a w = socks5_timeout_cb os a w"
| "run_event_cb os Listener_cb a w = listener_cb os a w"
| "run_event_cb os Terminate_signal_cb a w = terminate_signal_cb os a w"
| "run_event_cb os Dump_client_info_signal_cb a w = dump_client_info_signal_cb os a w"
| "run_event_cb os Drop_all_clients_signal_cb a w = drop_all_clients_signal_cb os a w"
| "run_event_cb os Splicepump_client_readcb a w = transocks_splicepump_client_readcb os a w"
| "run_event_cb os Splicepump_client_writecb a w = transocks_splicepump_client_writecb os a w"
| "run_event_cb os Splicepump_relay_readcb a w = transocks_splicepump_relay_readcb os a w"
| "run_event_cb os Splicepump_relay_writecb a w = transocks_splicepump_relay_writecb os a w"
| "run_event_cb os _ a w = None"

abbreviation (input) EV_PERSIST :: "16 word" where "EV_PERSIST \<equiv> 0x10"

text \<open>An event that does not persist is no longer pending when its callback runs.\<close>

definition before_callback :: "addr \<Rightarrow> ev_reg \<Rightarrow> world \<Rightarrow> world" where
  "before_callback ev r w =
     (if TRANSOCKS_CHKBIT (ev_flags r) EV_PERSIST then w
      else w\<lparr>events := (events w)(ev \<mapsto> r\<lparr>ev_added := False\<rparr>)\<rparr>)"

definition handle :: "os \<Rightarrow> occurrence \<Rightarrow> world \<Rightarrow> world option" where
  "handle os occ w = (case occ of
       Readable b \<Rightarrow> (case bevs w b of None \<Rightarrow> Some w
         | Some r \<Rightarrow> run_data_cb os (bev_readcb r) b (bev_arg r) w)
     | Writable b \<Rightarrow> (case bevs w b of None \<Rightarrow> Some w
         | Some r \<Rightarrow> run_data_cb os (bev_writecb r) b (bev_arg r) w)
     | Condition b what \<Rightarrow> (case bevs w b of None \<Rightarrow> Some w
         | Some r \<Rightarrow> run_condition_cb os (bev_eventcb r) what (bev_arg r) w)
     | Active ev \<Rightarrow> (case events w ev of None \<Rightarrow> Some w
         | Some r \<Rightarrow> if ev_added r then run_event_cb os (ev_cb r) (ev_arg r) (before_callback ev r w) else Some w))"

text \<open>
  One turn of the loop per occurrence; the loop is left after a callback that asked for it, or when
  the occurrences are exhausted.
\<close>

fun event_loop :: "os \<Rightarrow> occurrence list \<Rightarrow> addr \<Rightarrow> world \<Rightarrow> world option" where
  "event_loop os [] base w = Some w"
| "event_loop os (occ # occs) base w = do {
     w' \<leftarrow> handle os occ (emit (Epoll_wait base) w);
     if Event_base_loopbreak base \<in> set (drop (length (hist w)) (hist w')) then Some w'
     else event_loop os occs base w'
   }"

definition event_base_dispatch :: "os \<Rightarrow> occurrence list \<Rightarrow> addr \<Rightarrow> world \<Rightarrow> world option" where
  "event_base_dispatch os occs base w = event_loop os occs base (emit (Event_base_dispatch base) w)"

text \<open>The loop as a step relation: one turn, defined or not.\<close>

inductive turn :: "os \<Rightarrow> addr \<Rightarrow> world \<Rightarrow> world \<Rightarrow> bool" for os base where
  turn: "handle os occ (emit (Epoll_wait base) w) = Some w' \<Longrightarrow> turn os base w w'"

inductive_cases turnE: "turn os base w w'"

subsection \<open>Reports and dropping\<close>

lemma client_dump_calls:
  "transocks_client_dump_info os p w = Some w' \<Longrightarrow> \<exists>cs. w' = after_calls cs w"
  by (auto simp: transocks_client_dump_info_def Let_def emit_after_calls bind_Some_iff)

lemma pump_dump_calls:
  assumes "transocks_pump_dump_info os p tag w = Some w'"
  shows "\<exists>cs. w' = after_calls cs w"
proof -
  obtain i where "pumpMethodImpl w = Some i"
    using assms by (auto simp: transocks_pump_dump_info_def Let_def emit_after_calls bind_Some_iff)
  then show ?thesis
    using assms client_dump_calls [of os p]
    by (cases i) (fastforce simp: transocks_pump_dump_info_def Let_def emit_after_calls bind_Some_iff
        transocks_bufferpump_ops_def transocks_splicepump_ops_def transocks_bufferpump_dump_info_def
        transocks_splicepump_dump_info_def split: if_splits)+
qed

lemma steady_dump:
  assumes A: "steady_at e env p c w"
  shows "\<exists>cs. transocks_pump_dump_info os p tag w = Some (after_calls cs w)"
proof -
  have I: "steady e env w" and c: "clients w p = Some c" using A by (simp_all add: at_def)
  obtain s d where "sockaddrs w (client_addr c) = Some s" "sockaddrs w (dest_addr c) = Some d"
    using inv_completeD(10,11) [OF I c] by blast
  then show ?thesis
    using c invD(3) [OF I]
    by (auto simp: transocks_pump_dump_info_def transocks_bufferpump_ops_def transocks_bufferpump_dump_info_def
        transocks_client_dump_info_def Let_def emit_after_calls)
qed

lemma steady_registry:
  "steady e env w \<Longrightarrow> \<exists>xs. dlist (nodes w) (current_clients_dlinklist env) xs \<and> set xs = dom (clients w)"
  using invD(4) by (fastforce simp: registry_def)

text \<open>Reporting all clients: the body leaves the list alone, so it is folded over the clients.\<close>

lemma dump_all_safe:
  assumes I: "steady e env w"
  shows "holds (transocks_dump_all_client_info os e w) (steady e env)"
proof -
  let ?body = "\<lambda>p (w, i). do { w \<leftarrow> transocks_pump_dump_info os p (''conn #'' @ dec_int i) w; Some (w, i + 1) }"
  let ?w = "emit (Fprintf_stdout (''transocks-wong connection info:'' @ nl)) w"
  obtain xs where xs: "dlist (nodes w) (current_clients_dlinklist env) xs" "set xs = dom (clients w)"
    using steady_registry [OF I] by blast
  have "holds (fold_option ?body ys (w', i)) (\<lambda>(w', i). steady e env w')"
    if "set ys \<subseteq> dom (clients w')" "steady e env w'" for ys w' i
    using that
  proof (induction ys arbitrary: w' i)
    case (Cons y ys)
    then obtain c where "steady_at e env y c w'" by (auto simp: at_def)
    then obtain cs where "transocks_pump_dump_info os y (''conn #'' @ dec_int i) w' = Some (after_calls cs w')"
      using steady_dump by blast
    with Cons show ?case by simp
  qed simp
  moreover have "list_for_each_entry (\<lambda>(w, i). nodes w) ?body (current_clients_dlinklist env) (?w, 0) =
      fold_option ?body xs (?w, 0)"
    using xs(1) pump_dump_calls
    by (intro list_for_each_entry_fold) (fastforce simp: emit_after_calls bind_Some_iff)+
  ultimately show ?thesis
    using I invD(8) [OF I] xs(2)
    by (simp add: transocks_dump_all_client_info_def emit_after_calls)
qed

lemma disable_frame:
  "bufferevent_disable os b fl w = Some (n, w') \<Longrightarrow> nodes w' = nodes w \<and> clients w' = clients w"
  by (auto simp: bufferevent_disable_def on_bev_def sys_after_calls bind_Some_iff split: if_splits)

text \<open>Freeing the copying pump of a client removes exactly this client from the list.\<close>

lemma bufferpump_free_unlinks:
  assumes A: "steady_at e env p c w"
    and d: "dlist (nodes w) (current_clients_dlinklist env) (us @ p # vs)"
  shows "holds (transocks_bufferpump_free os p w)
    (\<lambda>w'. steady e env w' \<and> clients w' = (clients w)(p := None)
      \<and> dlist (nodes w') (current_clients_dlinklist env) (us @ vs))"
proof -
  note own = own_bevs_complete [OF steady_complete [OF A]]
  obtain n1 w1 where w1: "bufferevent_disable os (client_bev c) EV_READ_WRITE w = Some (n1, w1)" "steady_at e env p c w1"
    using at_bev_ops(2) [OF A own(1), where Q = "\<lambda>(n, w'). steady_at e env p c w'" and os = os and fl = EV_READ_WRITE] by (auto simp: holds_def)
  obtain n2 w2 where w2: "bufferevent_disable os (relay_bev c) EV_READ_WRITE w1 = Some (n2, w2)" "steady_at e env p c w2"
    using at_bev_ops(2) [OF w1(2) own(2), where Q = "\<lambda>(n, w'). steady_at e env p c w'" and os = os and fl = EV_READ_WRITE] by (auto simp: holds_def)
  have "nodes w2 = nodes w" "clients w2 = clients w"
    using disable_frame [OF w1(1)] disable_frame [OF w2(1)] by simp_all
  then have "holds (transocks_client_free os p w2)
    (\<lambda>w'. steady e env w' \<and> clients w' = (clients w)(p := None)
      \<and> dlist (nodes w') (current_clients_dlinklist env) (us @ vs))"
    using d by (intro holds_mono [OF inv_client_free [OF at_inv [OF w2(2)] atD(1) [OF w2(2)], of os]]) auto
  then show ?thesis
    using w1(1) w2 atD [OF A] by (simp add: transocks_bufferpump_free_def TRANSOCKS_FREE_def)
qed

lemma drop_all_safe:
  assumes I: "steady e env w"
  shows "holds (transocks_drop_all_clients os e w) (\<lambda>w'. steady e env w' \<and> clients w' = Map.empty)"
proof -
  let ?head = "current_clients_dlinklist env"
  let ?body = "\<lambda>p w. do { w \<leftarrow> transocks_pump_dump_info os p ''close connection'' w; transocks_pump_free os p w }"
  obtain xs where xs: "dlist (nodes w) ?head xs" "set xs = dom (clients w)"
    using steady_registry [OF I] by blast
  have "\<exists>s'. list_for_each_entry_safe nodes ?body ?head w = Some s' \<and> (steady e env s' \<and> dom (clients s') = set [])
      \<and> dlist (nodes s') ?head (kept {} xs)"
  proof (rule list_for_each_entry_safe_kept [where I = "\<lambda>xs s. steady e env s \<and> dom (clients s) = set xs"])
    show "steady e env w \<and> dom (clients w) = set xs" using I xs(2) by simp
    fix ys x zs s
    assume d: "dlist (nodes s) ?head (ys @ x # zs)" and s: "steady e env s \<and> dom (clients s) = set (x # zs)"
    then obtain c where A: "steady_at e env x c s" by (auto simp: at_def)
    obtain cs where cs: "transocks_pump_dump_info os x ''close connection'' s = Some (after_calls cs s)"
      using steady_dump [OF A] by blast
    have pm: "pumpMethodImpl s = Some Bufferpump_ops" using s by (auto dest: invD(3))
    have "x \<notin> set zs" using dlist_distinct [OF d] by simp
    then show "\<exists>s'. ?body x s = Some s' \<and> (steady e env s' \<and> dom (clients s') = set zs)
        \<and> dlist (nodes s') ?head (ys @ kept {} [x] @ zs)"
      using bufferpump_free_unlinks [of e env x c "after_calls cs s" ys zs os] A d cs pm s
      by (auto simp: holds_def transocks_pump_free_def transocks_bufferpump_ops_def kept_def)
  qed (use xs in simp)
  then show ?thesis
    using invD(8) [OF I] by (auto simp: transocks_drop_all_clients_def)
qed

subsection \<open>Every turn is defined\<close>

lemma env_ok_event_added:
  assumes "env_ok e env w" and "events w ev = Some r" and "ev_cb r' = ev_cb r" and "ev_arg r' = ev_arg r"
  shows "env_ok e env (w\<lparr>events := (events w)(ev \<mapsto> r')\<rparr>)"
  using assms by (auto simp: env_ok_def env_events_distinct_def listener_events_def)

lemma winv_before_callback:
  assumes I: "winv e env pm D X U w" and r: "events w ev = Some r"
  shows "winv e env pm D X U (before_callback ev r w)"
proof -
  let ?w = "w\<lparr>events := (events w)(ev \<mapsto> r\<lparr>ev_added := False\<rparr>)\<rparr>"
  have "regs ?w p c" if "clients w p = Some c" for p c
    using inv_clientD(10) [OF I that] r by (cases "timeout_ev c = ev") (simp_all add: regs_def)
  with I r env_ok_event_added [OF invD(2) [OF I] r, of "r\<lparr>ev_added := False\<rparr>"]
  have "winv e env pm D X U ?w"
    by (simp add: winv_def insert_absorb domI)
  with I show ?thesis by (simp add: before_callback_def)
qed

lemma before_callback_frame [simp]:
  "clients (before_callback ev r w) = clients w" "listeners (before_callback ev r w) = listeners w"
  "bevs (before_callback ev r w) = bevs w"
  by (simp_all add: before_callback_def)

lemma bev_owner:
  assumes I: "steady e env w" and r: "bevs w b = Some r"
  obtains p c where "steady_at e env p c w" "b = client_bev c" "client_bev_ok p r"
    | p c where "steady_at e env p c w" "b = relay_bev c" "relay_bev_ok p r"
proof -
  obtain p c where c: "clients w p = Some c" "b \<in> own_bevs c"
    using owned_once_cases [OF invD(6) [OF I], of b] r by blast
  with inv_clientD(10) [OF I c(1)] r I that show ?thesis
    by (fastforce simp: own_bevs_def regs_def at_def)
qed

lemma event_owner:
  assumes I: "steady e env w" and r: "events w ev = Some r"
  obtains p c where "steady_at e env p c w" "ev_cb r = Socks5_timeout_cb" "ev_arg r = p" "ev = timeout_ev c"
    | "ev_cb r \<in> signal_callbacks" "ev_arg r = e"
    | l where "ev_cb r = Listener_cb" "ev_arg r = e" "listeners w (listener env) = Some l"
proof -
  have ok: "env_ok e env w" using invD(2) [OF I] .
  consider "ev \<in> env_events env w" | p c where "clients w p = Some c" "ev \<in> own_events c"
    using owned_once_cases [OF invD(7) [OF I], of ev] r by blast
  then show ?thesis
  proof cases
    case 1
    with ok r that(2,3) show ?thesis
      by (auto simp: env_ok_def env_events_def listener_events_def split: option.splits)
  next
    case (2 p c)
    then have "ev = timeout_ev c" by (simp add: own_events_def)
    with 2 inv_clientD(10) [OF I 2(1)] r I that(1) show ?thesis by (simp add: regs_def at_def)
  qed
qed

lemma handle_safe:
  assumes I: "steady e env w" and R: "env_reliable os"
  shows "holds (handle os occ w) (steady e env)"
proof (cases occ)
  case (Readable b)
  show ?thesis
  proof (cases "bevs w b")
    case (Some r)
    from bev_owner [OF I Some] show ?thesis
      using Readable Some I R
      by cases (auto simp: handle_def client_bev_ok_def relay_bev_ok_def
          intro: bufferpump_readcbs_safe selected_method_safe connect_reply_safe)
  qed (use I Readable in \<open>simp add: handle_def\<close>)
next
  case (Writable b)
  show ?thesis
  proof (cases "bevs w b")
    case (Some r)
    from bev_owner [OF I Some] show ?thesis
      using Writable Some I
      by cases (auto simp: handle_def client_bev_ok_def relay_bev_ok_def intro: bufferpump_writecbs_safe)
  qed (use I Writable in \<open>simp add: handle_def\<close>)
next
  case (Condition b what)
  show ?thesis
  proof (cases "bevs w b")
    case (Some r)
    from bev_owner [OF I Some] show ?thesis
      using Condition Some I
      by cases (auto simp: handle_def client_bev_ok_def relay_bev_ok_def
          intro: bufferpump_eventcbs_safe handshake_errcb_safe relay_onconnect_safe)
  qed (use I Condition in \<open>simp add: handle_def\<close>)
next
  case (Active ev)
  show ?thesis
  proof (cases "events w ev")
    case (Some r)
    let ?w = "before_callback ev r w"
    have I': "steady e env ?w" using winv_before_callback [OF I Some] .
    have drop: "holds (transocks_drop_all_clients os e ?w) (steady e env)"
      using drop_all_safe [OF I', of os] by (auto elim: holds_mono)
    from event_owner [OF I Some] show ?thesis
    proof cases
      case (1 p c)
      then have "steady_at e env p c ?w" using I' by (simp add: at_def)
      with Active Some 1 I timeout_cb_safe show ?thesis by (simp add: handle_def)
    next
      case 2
      with Active Some I I' drop dump_all_safe [OF I', of os] invD(8) [OF I'] show ?thesis
        by (auto simp: handle_def signal_callbacks_def terminate_signal_cb_def dump_client_info_signal_cb_def
            drop_all_clients_signal_cb_def sys_after_calls)
    next
      case (3 l)
      with Active Some I listener_cb_safe [OF I' _ R, of l] show ?thesis by (simp add: handle_def)
    qed
  qed (use I Active in \<open>simp add: handle_def\<close>)
qed

subsection \<open>Runs\<close>

lemma event_loop_safe:
  assumes "steady e env w" and "env_reliable os"
  shows "holds (event_loop os occs base w) (steady e env)"
  using assms
proof (induction occs arbitrary: w)
  case (Cons occ occs)
  obtain w' where w': "handle os occ (emit (Epoll_wait base) w) = Some w'" "steady e env w'"
    using handle_safe [of e env "emit (Epoll_wait base) w" os occ] Cons.prems
    by (auto simp: emit_after_calls holds_def)
  with Cons show ?case by simp
qed simp

lemma dispatch_safe:
  assumes "steady e env w" and "env_reliable os"
  shows "holds (event_base_dispatch os occs base w) (steady e env)"
  using assms event_loop_safe by (simp add: event_base_dispatch_def emit_after_calls)

lemma turn_steady: "turn os base w w' \<Longrightarrow> env_reliable os \<Longrightarrow> steady e env w \<Longrightarrow> steady e env w'"
  by (erule turnE, rule holds_SomeD [OF handle_safe]) (simp_all add: emit_after_calls)

lemma turns_steady: "(turn os base)\<^sup>*\<^sup>* w w' \<Longrightarrow> env_reliable os \<Longrightarrow> steady e env w \<Longrightarrow> steady e env w'"
  by (induction rule: rtranclp_induct) (auto intro: turn_steady)

end
