(* ===== verification/Startup.thy ===== *)
theory Startup
  imports Event_Loop
begin

text \<open>
  From an empty memory to a program that is ready to run: \<^verbatim>\<open>transocks_global_env_new\<close>,
  \<^verbatim>\<open>signal_init\<close> and \<^verbatim>\<open>listener_init\<close> establish and keep the invariant, on their error paths too.
\<close>

unbundle bit_operations_syntax

subsection \<open>A program without clients\<close>

definition idle :: "addr \<Rightarrow> transocks_global_env \<Rightarrow> world \<Rightarrow> bool" where
  "idle e env w \<longleftrightarrow> winv e env None {} {} {} w \<and> clients w = Map.empty"

lemma owned_once_empty [simp]: "owned_once R Map.empty own A \<longleftrightarrow> A = R"
  by (auto simp: owned_once_def parts_def owned_by_def)

lemma registry_empty:
  "clients w = Map.empty \<Longrightarrow> registry {} head w \<longleftrightarrow> dom (nodes w) = {head} \<and> dlist (nodes w) head []"
  by (auto simp: registry_def)

lemma idle_iff:
  "idle e env w \<longleftrightarrow> wf_world w \<and> env_ok e env w \<and> pumpMethodImpl w = None \<and> clients w = Map.empty
     \<and> dom (nodes w) = {current_clients_dlinklist env} \<and> dlist (nodes w) (current_clients_dlinklist env) []
     \<and> dom (sockaddrs w) = {bind_addr env, relay_addr env} \<and> bevs w = Map.empty
     \<and> dom (events w) = env_events env w"
proof (cases "clients w = Map.empty")
  case True
  then show ?thesis by (simp add: idle_def winv_def registry_empty)
qed (simp add: idle_def)

lemma idle_calls [simp]: "idle e env (after_calls cs w) = idle e env w"
  by (simp add: idle_def)

lemma idle_env: "idle e env w \<Longrightarrow> envs w e = Some env \<and> envs w = [e \<mapsto> env] \<and> e \<noteq> NULL"
  by (simp add: idle_iff env_ok_def)

lemma idle_live:
  assumes "idle e env w"
  shows "ev \<in> env_events env w \<Longrightarrow> ev \<in> dom (events w)"
    "a = bind_addr env \<or> a = relay_addr env \<Longrightarrow> a \<in> dom (sockaddrs w)"
  using assms unfolding idle_iff by (metis insertCI)+

text \<open>Fields of the environment the invariant does not depend on.\<close>

definition same_env :: "transocks_global_env \<Rightarrow> transocks_global_env \<Rightarrow> bool" where
  "same_env env env' \<longleftrightarrow> bind_addr env' = bind_addr env \<and> relay_addr env' = relay_addr env
     \<and> eventBaseLoop env' = eventBaseLoop env \<and> listener env' = listener env
     \<and> sigterm_ev env' = sigterm_ev env \<and> sigint_ev env' = sigint_ev env \<and> sighup_ev env' = sighup_ev env
     \<and> sigusr1_ev env' = sigusr1_ev env \<and> current_clients_dlinklist env' = current_clients_dlinklist env"

lemma wf_world_envs_upd [simp]: "envs w p = Some c \<Longrightarrow> wf_world (w\<lparr>envs := (envs w)(p \<mapsto> c')\<rparr>) = wf_world w"
  by (auto simp: wf_world_def)

lemma idle_on_env:
  assumes I: "idle e env w" and s: "same_env env (f env)"
  shows "\<exists>w'. on_env e f w = Some w' \<and> idle e (f env) w'"
proof -
  let ?w = "w\<lparr>envs := [e \<mapsto> f env]\<rparr>"
  have ev: "env_events (f env) ?w = env_events env w" "signal_events (f env) = signal_events env"
    "listener_events (f env) ?w = listener_events env w"
    using s by (simp_all add: same_env_def env_events_def signal_events_def listener_events_def)
  then have "env_events_distinct (f env) ?w = env_events_distinct env w"
    using s by (simp add: env_events_distinct_def same_env_def del: filter.simps)
  moreover have "wf_world ?w" using I idle_env [OF I] wf_world_envs_upd [of w e env "f env"] by (simp add: idle_iff)
  ultimately have "idle e (f env) ?w"
    using I s by (auto simp: idle_iff env_ok_def ev same_env_def)
  then show ?thesis using idle_env [OF I] by (simp add: on_env_def)
qed

lemma idle_event_upd:
  assumes I: "idle e env w" and r: "events w ev = Some r" "ev_cb r' = ev_cb r" "ev_arg r' = ev_arg r"
  shows "idle e env (w\<lparr>events := (events w)(ev \<mapsto> r')\<rparr>)"
proof -
  have "ev \<in> env_events env w" using I r(1) by (auto simp: idle_iff)
  with I r env_ok_event_added [of e env w ev r r'] show ?thesis by (simp add: idle_iff insert_absorb)
qed

lemma idle_event_add:
  assumes I: "idle e env w" and ev: "ev \<in> env_events env w"
  shows "holds (event_add os ev tv w) (\<lambda>(n, w'). idle e env w')"
proof -
  obtain r where "events w ev = Some r" using idle_live(1) [OF I ev] by blast
  with I idle_event_upd [OF I this, of "r\<lparr>ev_added := True\<rparr>"] show ?thesis
    by (simp add: event_add_def sys_after_calls)
qed

lemma idle_sockaddr_upd:
  assumes I: "idle e env w" and a: "a = bind_addr env \<or> a = relay_addr env"
  shows "\<exists>w'. on_sockaddr a (\<lambda>_. Some s) w = Some w' \<and> idle e env w'"
proof -
  obtain s0 where s0: "sockaddrs w a = Some s0" using idle_live(2) [OF I a] by blast
  then have "idle e env (w\<lparr>sockaddrs := (sockaddrs w)(a \<mapsto> s)\<rparr>)"
    using I a by (auto simp: idle_iff)
  with s0 show ?thesis by (simp add: on_sockaddr_def)
qed

subsection \<open>Signals\<close>

definition signals :: "transocks_global_env \<Rightarrow> addr list" where
  "signals env = [sigint_ev env, sigterm_ev env, sighup_ev env, sigusr1_ev env]"

lemma length_signals: "length (signals env) = 4"
  by (simp add: signals_def)

lemma signal_events_set: "signal_events env = set (signals env) - {NULL}"
  by (auto simp: signal_events_def signals_def)

lemma env_events_distinct_signals:
  "env_events_distinct env w \<longleftrightarrow> distinct (filter (\<lambda>x. x \<noteq> NULL) (signals env)) \<and> signal_events env \<inter> listener_events env w = {}"
  by (simp add: env_events_distinct_def signals_def)

lemma distinct_filter_update:
  assumes "distinct (filter P xs)" and "i < length xs" and "\<not> P (xs ! i)" and "v \<notin> set xs"
  shows "distinct (filter P (xs[i := v]))"
proof -
  have "xs = take i xs @ xs ! i # drop (Suc i) xs" by (rule id_take_nth_drop [OF assms(2)])
  with assms(1,3) have "distinct (filter P (take i xs) @ filter P (drop (Suc i) xs))"
    by (metis filter_append filter.simps(2))
  moreover have "v \<notin> set (take i xs)" "v \<notin> set (drop (Suc i) xs)"
    using assms(4) by (auto dest: in_set_takeD in_set_dropD)
  ultimately show ?thesis by (auto simp: upd_conv_take_nth_drop [OF assms(2)])
qed

text \<open>A new signal event is stored in a field of the environment that was \<^const>\<open>NULL\<close>.\<close>

lemma idle_new_signal:
  assumes I: "idle e env w" and i: "i < 4" "signals env ! i = NULL" "signals env' = (signals env)[i := brk w]"
    and same: "bind_addr env' = bind_addr env" "relay_addr env' = relay_addr env" "listener env' = listener env"
      "eventBaseLoop env' = eventBaseLoop env" "current_clients_dlinklist env' = current_clients_dlinklist env"
    and r: "ev_cb r \<in> signal_callbacks" "ev_arg r = e"
  shows "idle e env' (w\<lparr>brk := Suc (brk w), events := (events w)(brk w \<mapsto> r), envs := [e \<mapsto> env']\<rparr>)"
    (is "idle e env' ?w")
proof -
  have wf: "wf_world w" and ok: "env_ok e env w" using I by (auto simp: idle_iff)
  have L: "listener_events env' ?w = listener_events env w" using same by (simp add: listener_events_def)
  note len = length_signals [of env]
  have fresh: "brk w \<notin> set (signals env)"
  proof
    assume "brk w \<in> set (signals env)"
    with wf have "brk w \<in> signal_events env" by (auto simp: signal_events_set wf_world_def)
    then have "brk w \<in> dom (events w)" using I by (auto simp: idle_iff env_events_def)
    with wf show False by (auto simp: wf_world_def)
  qed
  have "set ((signals env)[i := brk w]) - {NULL} = insert (brk w) (set (signals env) - {NULL})"
  proof -
    have "signals env = take i (signals env) @ NULL # drop (Suc i) (signals env)"
      using id_take_nth_drop [of i "signals env"] i len by simp
    then have "set (signals env) - {NULL} = set (take i (signals env)) \<union> set (drop (Suc i) (signals env)) - {NULL}"
      by (metis Un_insert_right insert_Diff_single list.simps(15) set_append Diff_insert_absorb insert_absorb2 insert_Diff1 singletonI)
    with i len wf show ?thesis by (auto simp: upd_conv_take_nth_drop wf_world_def)
  qed
  then have S: "signal_events env' = insert (brk w) (signal_events env)" using i by (simp add: signal_events_set)
  have LE: "brk w \<notin> listener_events env w"
  proof
    assume "brk w \<in> listener_events env w"
    then have "brk w \<in> dom (events w)" using I by (auto simp: idle_iff env_events_def)
    with wf show False by (auto simp: wf_world_def)
  qed
  have "env_events_distinct env' ?w"
    using ok LE S distinct_filter_update [of "\<lambda>x. x \<noteq> NULL" "signals env" i "brk w"] i len fresh
    by (simp add: env_ok_def env_events_distinct_signals L)
  moreover have "brk w \<notin> signal_events env" using fresh by (auto simp: signal_events_set)
  ultimately have "env_ok e env' ?w"
    using ok r same LE by (auto simp: env_ok_def S L)
  moreover have "wf_world ?w" using wf I by (auto simp: wf_world_def idle_iff env_ok_def)
  ultimately show ?thesis
    using I same by (auto simp: idle_iff env_events_def S L)
qed

text \<open>One of the four statements that create a signal event, on either outcome of \<^verbatim>\<open>evsignal_new\<close>.\<close>

lemma idle_signal_step:
  assumes I: "idle e env w" and i: "i < 4" "signals env ! i = NULL"
    and f: "\<And>v. signals (f v env) = (signals env)[i := v]" "f NULL env = env"
    and same: "\<And>v. bind_addr (f v env) = bind_addr env \<and> relay_addr (f v env) = relay_addr env
      \<and> listener (f v env) = listener env \<and> eventBaseLoop (f v env) = eventBaseLoop env
      \<and> current_clients_dlinklist (f v env) = current_clients_dlinklist env"
    and cb: "cb \<in> signal_callbacks"
    and Q: "\<And>ev w'. idle e (f ev env) w' \<Longrightarrow> holds (k ev w') Q"
  shows "holds (case event_new os base fd fl cb e w of (ev, w') \<Rightarrow> on_env e (f ev) w' \<bind> k ev) Q"
proof (cases "os_alloc os (hist w) (Event_new base fd fl cb e)")
  case True
  let ?r = "\<lparr>ev_fd = fd, ev_flags = fl, ev_cb = cb, ev_arg = e, ev_added = False\<rparr>"
  let ?w = "w\<lparr>brk := Suc (brk w), events := (events w)(brk w \<mapsto> ?r), envs := [e \<mapsto> f (brk w) env]\<rparr>"
  have "idle e (f (brk w) env) ?w"
    using idle_new_signal [OF I i f(1) [of "brk w"], of ?r] same [of "brk w"] cb by simp
  then have "holds (k (brk w) (after_calls [Event_new base fd fl cb e] ?w)) Q" by (intro Q) simp_all
  moreover have "brk w \<noteq> NULL" using I by (auto simp: idle_iff wf_world_def)
  ultimately show ?thesis
    using True idle_env [OF I] by (simp add: event_new_def alloc_simp on_env_def)
next
  case False
  have W: "w\<lparr>envs := [e \<mapsto> env]\<rparr> = w" using idle_env [OF I] by simp
  have "holds (k NULL (after_calls [Event_new base fd fl cb e] w)) Q" using I f(2) by (intro Q) simp_all
  then show ?thesis
    using False idle_env [OF I] f(2) by (simp add: event_new_def alloc_simp on_env_def W)
qed

text \<open>Adding them, in any order and up to the first failure, changes nothing else.\<close>

lemma idle_signal_add:
  assumes I: "idle e env w" and ev: "ev \<in> set (signals env)" "ev \<noteq> NULL"
    and k: "\<And>w'. idle e env w' \<Longrightarrow> holds (k w') (\<lambda>(r, w'). idle e env w')"
  shows "holds (event_add os ev tv w \<bind> (\<lambda>(r, w). if r \<noteq> 0 then Some (-1, w) else k w)) (\<lambda>(r, w'). idle e env w')"
proof -
  have "ev \<in> env_events env w" using ev by (simp add: env_events_def signal_events_set)
  from idle_event_add [OF I this, of os tv] k show ?thesis by (auto elim!: holds_mono)
qed

lemma idle_signal_add_all:
  assumes I: "idle e env w"
    and s: "t = sigterm_ev env" "i = sigint_ev env" "h = sighup_ev env" "u = sigusr1_ev env"
    and ne: "t \<noteq> NULL" "i \<noteq> NULL" "h \<noteq> NULL" "u \<noteq> NULL"
  shows "holds (event_add os t None w \<bind> (\<lambda>(r, w). if r \<noteq> 0 then Some (-1, w)
      else event_add os i None w \<bind> (\<lambda>(r, w). if r \<noteq> 0 then Some (-1, w)
      else event_add os h None w \<bind> (\<lambda>(r, w). if r \<noteq> 0 then Some (-1, w)
      else event_add os u None w \<bind> (\<lambda>(r, w). if r \<noteq> 0 then Some (-1, w) else Some (0, w))))))
    (\<lambda>(r, w'). idle e env w')"
  using I by (intro idle_signal_add) (simp_all add: signals_def s [symmetric] ne)

lemma signal_init_safe:
  assumes I: "idle e env w" and none: "signals env = replicate 4 NULL"
  shows "holds (signal_init os e w) (\<lambda>(r, w'). \<exists>env'. idle e env' w' \<and> listener env' = listener env)"
proof -
  have Z: "sigterm_ev env = NULL" "sigint_ev env = NULL" "sighup_ev env = NULL" "sigusr1_ev env = NULL"
    using none by (simp_all add: signals_def eval_nat_numeral)
  have cb: "Terminate_signal_cb \<in> signal_callbacks" "Dump_client_info_signal_cb \<in> signal_callbacks"
    "Drop_all_clients_signal_cb \<in> signal_callbacks"
    by (simp_all add: signal_callbacks_def)
  have env: "(envs w e \<bind> f) = f env" for f :: "_ \<Rightarrow> (int \<times> world) option" using idle_env [OF I] by simp
  show ?thesis
    unfolding signal_init_def Let_def env
    apply (rule idle_signal_step [OF I, where i = 1 and f = "\<lambda>v x. x\<lparr>sigterm_ev := v\<rparr>"])
    apply (simp_all add: signals_def Z cb del: holds_bind holds_case_prod)
    apply (rule idle_signal_step [where i = 0 and f = "\<lambda>v x. x\<lparr>sigint_ev := v\<rparr>"], assumption)
    apply (simp_all add: signals_def Z cb del: holds_bind holds_case_prod)
    apply (rule idle_signal_step [where i = 2 and f = "\<lambda>v x. x\<lparr>sighup_ev := v\<rparr>"], assumption)
    apply (simp_all add: signals_def Z cb del: holds_bind holds_case_prod)
    apply (rule idle_signal_step [where i = 3 and f = "\<lambda>v x. x\<lparr>sigusr1_ev := v\<rparr>"], assumption)
    apply (simp_all add: signals_def Z cb del: holds_bind holds_case_prod)
    apply (auto simp del: holds_bind holds_case_prod intro!: holds_mono [OF idle_signal_add_all])
    done
qed

subsection \<open>The environment\<close>

text \<open>No object is left.\<close>

definition no_objects :: "world \<Rightarrow> bool" where
  "no_objects w \<longleftrightarrow> envs w = Map.empty \<and> clients w = Map.empty \<and> nodes w = Map.empty
     \<and> listeners w = Map.empty \<and> sockaddrs w = Map.empty \<and> splicepumps w = Map.empty
     \<and> splicepipes w = Map.empty \<and> bases w = {} \<and> events w = Map.empty \<and> bevs w = Map.empty"

text \<open>The state in which \<^verbatim>\<open>main\<close> starts.\<close>

definition boot :: "world \<Rightarrow> bool" where
  "boot w \<longleftrightarrow> no_objects w \<and> 0 < brk w \<and> pumpMethodImpl w = None"

lemma no_objects_calls [simp]: "no_objects (after_calls cs w) = no_objects w"
  by (simp add: no_objects_def)

lemma boot_simps:
  assumes "boot w"
  shows "envs w = Map.empty" "clients w = Map.empty" "nodes w = Map.empty" "listeners w = Map.empty"
    "sockaddrs w = Map.empty" "splicepumps w = Map.empty" "splicepipes w = Map.empty" "bases w = {}"
    "events w = Map.empty" "bevs w = Map.empty" "pumpMethodImpl w = None" "0 < brk w"
  using assms by (simp_all add: boot_def no_objects_def)

text \<open>The first state of the environment: four objects, nothing registered yet.\<close>

definition first_env :: "addr \<Rightarrow> transocks_global_env" where
  "first_env e = \<lparr>pump_method_name = None, bind_addr = e + 2, relay_addr = e + 3, bind_addr_len = 0,
     relay_addr_len = 0, eventBaseLoop = e + 4, listener = NULL, sigterm_ev = NULL, sigint_ev = NULL,
     sighup_ev = NULL, sigusr1_ev = NULL, current_clients_dlinklist = e + 1\<rparr>"

lemma idle_first:
  assumes "boot w" and e: "e = brk w"
  shows "idle e (first_env e) (w\<lparr>sockaddrs := [e + 2 \<mapsto> zero_sockaddr, e + 3 \<mapsto> zero_sockaddr], brk := e + 5,
     bases := {e + 4}, envs := [e \<mapsto> first_env e], nodes := [e + 1 \<mapsto> \<lparr>lh_next = e + 1, lh_prev = e + 1\<rparr>]\<rparr>)"
  using boot_simps [OF assms(1)] e
  by (auto simp: idle_iff env_ok_def env_events_distinct_def env_events_def signal_events_def listener_events_def
     dlist_def path_def link_def get_next_def get_prev_def wf_world_def first_env_def)

lemma env_new_safe:
  assumes B: "boot w" and a: "os_alloc os (hist w) (Calloc T_global_env)"
  shows "holds (transocks_global_env_new os w) (\<lambda>(e, w'). if e = NULL then no_objects w'
      else \<exists>env. idle e env w' \<and> signals env = replicate 4 NULL \<and> listener env = NULL)"
  using boot_simps [OF B] a idle_first [OF B refl]
  by (auto simp: transocks_global_env_new_def calloc_env_def alloc_simp calloc_sockaddr_def event_base_new_def
    on_env_def env_new_fail_def TRANSOCKS_FREE_def free_sockaddr_def event_base_free_def free_env_mem_def
    emit_after_calls on_nodes_def INIT_LIST_HEAD_def set_next_def set_prev_def no_objects_def first_env_def
    signals_def eval_nat_numeral intro!: exI)

subsection \<open>The listener\<close>

text \<open>The listening socket, its event and its structure, if they exist.\<close>

lemma listener_deinit_run:
  assumes e: "e \<noteq> NULL" "envs w = [e \<mapsto> env]" and l: "dom (listeners w) = {listener env} - {NULL}"
    and ev: "listener_events env w \<subseteq> dom (events w)" and ev0: "events w NULL = None"
  shows "\<exists>cs. listener_deinit e w = Some (after_calls cs
    (w\<lparr>events := (\<lambda>x. if x \<in> listener_events env w then None else events w x), listeners := Map.empty,
      envs := [e \<mapsto> env\<lparr>listener := NULL\<rparr>]\<rparr>))"
proof (cases "listener env = NULL")
  case True
  then have L: "listeners w = Map.empty" using l by auto
  have "env\<lparr>listener := NULL\<rparr> = env" using True by simp
  then have "w\<lparr>listeners := Map.empty, envs := [e \<mapsto> env\<lparr>listener := NULL\<rparr>]\<rparr> = w"
    using L e by (intro world.equality) simp_all
  with True L e show ?thesis
    by (auto simp: listener_deinit_def listener_events_def intro!: exI [of _ "[]"])
next
  case False
  then have "listener env \<in> dom (listeners w)" using l by simp
  then obtain r where r: "listeners w (listener env) = Some r" by blast
  have "dom ((listeners w)(listener env := None)) = {}" using l by auto
  then have L: "(listeners w)(listener env := None) = Map.empty" by (simp only: dom_eq_empty_conv)
  show ?thesis
  proof (cases "listener_ev r = NULL")
    case True
    then show ?thesis
      using False r e L
      by (auto simp: listener_deinit_def listener_events_def TRANSOCKS_CLOSE_simp TRANSOCKS_FREE_def
          free_listener_mem_def on_env_def emit_after_calls)
  next
    case ne: False
    then obtain x where x: "events w (listener_ev r) = Some x" using ev r by (auto simp: listener_events_def)
    have E: "(\<lambda>x. if x \<in> listener_events env w then None else events w x) = (events w)(listener_ev r := None)"
      using r ne by (auto simp: listener_events_def)
    show ?thesis
      unfolding E using False r e L x ne
      by (auto simp: listener_deinit_def TRANSOCKS_CLOSE_simp TRANSOCKS_FREE_def
          free_listener_mem_def on_env_def event_del_def event_free_def emit_after_calls)
  qed
qed

lemma idle_listener_deinit:
  assumes I: "idle e env w"
  shows "holds (listener_deinit e w) (\<lambda>w'. \<exists>env'. idle e env' w')"
proof -
  let ?E = "\<lambda>x. if x \<in> listener_events env w then None else events w x"
  let ?w = "w\<lparr>events := ?E, listeners := Map.empty, envs := [e \<mapsto> env\<lparr>listener := NULL\<rparr>]\<rparr>"
  have wf: "wf_world w" and ok: "env_ok e env w" and ev: "dom (events w) = env_events env w"
    using I by (simp_all add: idle_iff)
  have dis: "signal_events env \<inter> listener_events env w = {}"
    using ok by (simp add: env_ok_def env_events_distinct_def)
  have L: "listener_events (env\<lparr>listener := NULL\<rparr>) ?w = {}" "signal_events (env\<lparr>listener := NULL\<rparr>) = signal_events env"
    by (simp_all add: listener_events_def signal_events_def)
  have dom: "dom ?E = signal_events env"
    using ev dis by (auto simp: env_events_def dom_def split: if_splits)
  have "env_ok e (env\<lparr>listener := NULL\<rparr>) ?w"
    using ok dis unfolding env_ok_def env_events_distinct_def L
    by (auto simp del: filter.simps split: if_splits)
  moreover have "wf_world ?w"
    using wf dom ev idle_env [OF I] by (auto simp: wf_world_def env_events_def)
  ultimately have "idle e (env\<lparr>listener := NULL\<rparr>) ?w"
    using I dom by (simp add: idle_iff env_events_def L)
  moreover obtain cs where "listener_deinit e w = Some (after_calls cs ?w)"
    using listener_deinit_run [of e w env] idle_env [OF I] ok ev wf by (auto simp: env_ok_def env_events_def)
  ultimately show ?thesis by auto
qed

text \<open>The listener is there, its event with it or not.\<close>

lemma idle_new_listener:
  assumes I: "idle e env w" and l: "listener env = NULL"
  shows "idle e (env\<lparr>listener := brk w\<rparr>) (w\<lparr>brk := Suc (brk w), envs := [e \<mapsto> env\<lparr>listener := brk w\<rparr>],
      listeners := [brk w \<mapsto> \<lparr>listener_fd = fd, listener_ev = NULL\<rparr>]\<rparr>)"
    and "ev_cb r = Listener_cb \<Longrightarrow> ev_arg r = e \<Longrightarrow>
      idle e (env\<lparr>listener := brk w\<rparr>) (w\<lparr>envs := [e \<mapsto> env\<lparr>listener := brk w\<rparr>], brk := Suc (Suc (brk w)),
      events := (events w)(Suc (brk w) \<mapsto> r), listeners := [brk w \<mapsto> \<lparr>listener_fd = fd, listener_ev = Suc (brk w)\<rparr>]\<rparr>)"
proof -
  have wf: "wf_world w" and ok: "env_ok e env w" and ev: "dom (events w) = env_events env w"
    using I by (simp_all add: idle_iff)
  have L: "listener_events env w = {}"
    using l wf by (simp add: listener_events_def)
  have S: "signal_events (env\<lparr>listener := v\<rparr>) = signal_events env" for v
    by (simp add: signal_events_def)
  have fresh: "Suc (brk w) \<notin> signal_events env"
  proof
    assume "Suc (brk w) \<in> signal_events env"
    then have "Suc (brk w) \<in> dom (events w)" using ev by (simp add: env_events_def)
    with wf show False by (auto simp: wf_world_def)
  qed
  show "idle e (env\<lparr>listener := brk w\<rparr>) (w\<lparr>brk := Suc (brk w), envs := [e \<mapsto> env\<lparr>listener := brk w\<rparr>],
      listeners := [brk w \<mapsto> \<lparr>listener_fd = fd, listener_ev = NULL\<rparr>]\<rparr>)"
    using I wf ok ev L unfolding idle_iff env_ok_def
    by (auto simp: env_events_def listener_events_def env_events_distinct_def S wf_world_def simp del: filter.simps)
  show "ev_cb r = Listener_cb \<Longrightarrow> ev_arg r = e \<Longrightarrow>
      idle e (env\<lparr>listener := brk w\<rparr>) (w\<lparr>envs := [e \<mapsto> env\<lparr>listener := brk w\<rparr>], brk := Suc (Suc (brk w)),
      events := (events w)(Suc (brk w) \<mapsto> r), listeners := [brk w \<mapsto> \<lparr>listener_fd = fd, listener_ev = Suc (brk w)\<rparr>]\<rparr>)"
    using I wf ok ev L fresh unfolding idle_iff env_ok_def
    by (auto simp: env_events_def listener_events_def env_events_distinct_def S wf_world_def simp del: filter.simps)
qed

lemma idle_freeListener:
  "idle e env w \<Longrightarrow> holds (listener_init_freeListener e fd w) (\<lambda>(r, w'). \<exists>env'. idle e env' w')"
  using idle_listener_deinit [of e env w]
  by (auto simp: listener_init_freeListener_def listener_init_closeFd_def TRANSOCKS_CLOSE_simp elim!: holds_mono)

lemma listener_init_event_safe:
  assumes I: "idle e env w" and l: "listener env = NULL"
  shows "holds (listener_init_event os e fd w) (\<lambda>(r, w'). \<exists>env'. idle e env' w')"
proof -
  let ?env = "env\<lparr>listener := brk w\<rparr>"
  let ?r = "\<lparr>ev_fd = fd, ev_flags = EV_READ_PERSIST, ev_cb = Listener_cb, ev_arg = e, ev_added = False\<rparr>"
  let ?Q = "\<lambda>(r, w'). \<exists>env'. idle e env' w'"
  let ?w2 = "w\<lparr>envs := [e \<mapsto> ?env], brk := Suc (Suc (brk w)), events := (events w)(Suc (brk w) \<mapsto> ?r),
      listeners := [brk w \<mapsto> \<lparr>listener_fd = fd, listener_ev = Suc (brk w)\<rparr>]\<rparr>"
  have wf: "wf_world w" and L: "listeners w = Map.empty" using I l by (simp_all add: idle_iff env_ok_def)
  have b: "0 < brk w" using wf by (simp add: wf_world_def)
  have same_env: "env\<lparr>listener := NULL\<rparr> = env" using l by simp
  then have same: "w\<lparr>envs := [e \<mapsto> env\<lparr>listener := NULL\<rparr>]\<rparr> = w" using idle_env [OF I] by simp
  have I2: "idle e ?env ?w2" using idle_new_listener(2) [OF I l, of ?r] by simp
  have A: "holds (event_add os (Suc (brk w)) None (after_calls cs ?w2)) (\<lambda>(n, w'). idle e ?env w')" for cs
    using idle_event_add [of e ?env "after_calls cs ?w2" "Suc (brk w)" os None] I2 by (simp add: env_events_def listener_events_def)
  have "holds (event_add os (Suc (brk w)) None (after_calls cs ?w2) \<bind>
      (\<lambda>(r, w). if r \<noteq> 0 then listener_init_freeListener e fd w else Some (0, w))) ?Q" for cs
    by (rule holds_bindI, rule holds_mono [OF A]) (auto intro: idle_freeListener)
  moreover have "holds (listener_init_freeListener e fd (after_calls cs (w\<lparr>envs := [e \<mapsto> env\<lparr>listener := NULL\<rparr>]\<rparr>))) ?Q" for cs
    unfolding same by (rule idle_freeListener [of e env]) (simp add: I)
  moreover have "holds (listener_init_freeListener e fd (after_calls cs (w\<lparr>brk := Suc (brk w), envs := [e \<mapsto> ?env],
      listeners := [brk w \<mapsto> \<lparr>listener_fd = fd, listener_ev = NULL\<rparr>]\<rparr>))) ?Q" for cs
    by (rule idle_freeListener [of e ?env]) (simp add: idle_new_listener(1) [OF I l])
  ultimately show ?thesis
    unfolding listener_init_event_def using idle_env [OF I] b L
    by (simp add: malloc_listener_def alloc_simp Let_def on_env_def on_listener_def event_new_def
      del: holds_bind holds_case_prod)
qed

lemma holds_ipv6only:
  assumes "\<And>r cs. holds (f r (after_calls cs w)) Q"
  shows "holds (let (r, w') = (if b then apply_ipv6only os fd on w else (0, w)) in f r w') Q"
proof -
  obtain cs where "snd (apply_ipv6only os fd on w) = after_calls cs w"
    using only_calls_ipv6only [of w os fd on] by (auto simp: only_calls_def)
  with assms assms [of _ "[]"] show ?thesis by (auto simp: Let_def split: prod.splits)
qed

lemma idle_closeFd: "idle e env w \<Longrightarrow> holds (listener_init_closeFd fd w) (\<lambda>(r, w'). \<exists>env'. idle e env' w')"
  by (auto simp: listener_init_closeFd_def TRANSOCKS_CLOSE_simp)

lemma listener_init_safe:
  assumes I: "idle e env w" and l: "listener env = NULL"
  shows "holds (listener_init os e w) (\<lambda>(r, w'). \<exists>env'. idle e env' w')"
proof -
  obtain ba where ba: "sockaddrs w (bind_addr env) = Some ba" using idle_live(2) [OF I, of "bind_addr env"] by blast
  have env: "envs w e = Some env" using idle_env [OF I] by simp
  show ?thesis
    using I unfolding listener_init_def
    by - (((rule holds_bindI) | (rule holds_SomeI [OF env]) | (rule holds_SomeI [OF ba])
        | (rule holds_let_sys) | (rule holds_helpers) | (rule holds_ipv6only) | (rule holds_if)
        | (rule idle_closeFd [of e env], simp; fail) | (rule listener_init_event_safe [OF _ l], simp; fail)
        | (simp; blast))+)
qed

end
