(* ===== verification/Whole_Program.thy ===== *)
theory Whole_Program
  imports Startup
begin

text \<open>
  The program from \<^verbatim>\<open>main\<close> to its end: setting up the environment, running the event loop, and
  shutting down. With the copying pump, no run reaches undefined behaviour, and every run ends
  with everything released.
\<close>

unbundle bit_operations_syntax

subsection \<open>Releasing the environment\<close>

text \<open>
  An environment without clients, possibly still incomplete: its pointers are \<^const>\<open>NULL\<close> or live,
  and there is nothing else.
\<close>

definition env_only :: "addr \<Rightarrow> transocks_global_env \<Rightarrow> world \<Rightarrow> bool" where
  "env_only e env w \<longleftrightarrow> wf_world w \<and> e \<noteq> NULL \<and> envs w = [e \<mapsto> env] \<and> clients w = Map.empty
     \<and> dom (nodes w) = {current_clients_dlinklist env} \<and> bevs w = Map.empty
     \<and> splicepumps w = Map.empty \<and> splicepipes w = Map.empty
     \<and> dom (sockaddrs w) = {bind_addr env, relay_addr env} - {NULL}
     \<and> (bind_addr env = relay_addr env \<longrightarrow> bind_addr env = NULL)
     \<and> bases w = {eventBaseLoop env} - {NULL}
     \<and> dom (listeners w) = {listener env} - {NULL}
     \<and> dom (events w) = env_events env w \<and> env_events_distinct env w"

lemma env_events_calls [simp]:
  "env_events env (after_calls cs w) = env_events env w"
  "env_events_distinct env (after_calls cs w) = env_events_distinct env w"
  by (simp_all add: env_events_def env_events_distinct_def listener_events_def)

lemma env_only_calls [simp]: "env_only e env (after_calls cs w) = env_only e env w"
  by (simp add: env_only_def env_events_def env_events_distinct_def listener_events_def)

lemma FREE_base_simp:
  "bases w = {b} - {NULL} \<Longrightarrow>
   TRANSOCKS_FREE event_base_free b w =
     Some (after_calls (if b \<noteq> NULL then [Event_base_free b] else []) (w\<lparr>bases := {}\<rparr>))"
  by (auto simp: TRANSOCKS_FREE_def event_base_free_def emit_after_calls)

lemma free_signal_event_simp:
  "null_or_live (events w) ev \<Longrightarrow> events w NULL = None \<Longrightarrow>
   free_signal_event ev w =
     Some (after_calls (if ev \<noteq> NULL then [Event_del ev, Event_free ev] else []) (w\<lparr>events := (events w)(ev := None)\<rparr>))"
  by (auto simp: free_signal_event_def TRANSOCKS_FREE_def event_del_def event_free_def emit_after_calls
      null_or_live_def fun_upd_idem)

lemma signal_deinit_run:
  assumes e: "e \<noteq> NULL" "envs w = [e \<mapsto> env]" and ev: "signal_events env \<subseteq> dom (events w)"
    and d: "distinct (filter (\<lambda>x. x \<noteq> NULL) [sigint_ev env, sigterm_ev env, sighup_ev env, sigusr1_ev env])"
    and ev0: "events w NULL = None"
  shows "\<exists>cs. signal_deinit e w = Some (after_calls cs
    (w\<lparr>events := (events w)(sigint_ev env := None, sigterm_ev env := None, sighup_ev env := None, sigusr1_ev env := None),
      envs := [e \<mapsto> env\<lparr>sigint_ev := NULL, sigterm_ev := NULL, sighup_ev := NULL, sigusr1_ev := NULL\<rparr>]\<rparr>))"
proof -
  have live: "null_or_live (events w) (sigint_ev env)" "null_or_live (events w) (sigterm_ev env)"
    "null_or_live (events w) (sighup_ev env)" "null_or_live (events w) (sigusr1_ev env)"
    using ev by (auto simp: null_or_live_def signal_events_def)
  have ne: "sigterm_ev env \<noteq> sigint_ev env \<or> sigterm_ev env = NULL"
    "sighup_ev env \<noteq> sigint_ev env \<or> sighup_ev env = NULL" "sighup_ev env \<noteq> sigterm_ev env \<or> sighup_ev env = NULL"
    "sigusr1_ev env \<noteq> sigint_ev env \<or> sigusr1_ev env = NULL" "sigusr1_ev env \<noteq> sigterm_ev env \<or> sigusr1_ev env = NULL"
    "sigusr1_ev env \<noteq> sighup_ev env \<or> sigusr1_ev env = NULL"
    using d by (auto split: if_splits)
  show ?thesis
    unfolding signal_deinit_def using e live ne ev0
    by (simp split del: if_split del: neq0_conv add: free_signal_event_simp on_env_def null_or_live_upd if_None_eq_None) blast
qed

text \<open>Both together release all events of the environment, and only those.\<close>

lemma env_deinit_run:
  assumes wf: "wf_world w" and e: "e \<noteq> NULL" "envs w = [e \<mapsto> env]"
    and l: "dom (listeners w) = {listener env} - {NULL}"
    and ev: "env_events env w \<subseteq> dom (events w)" "env_events_distinct env w"
  shows "\<exists>cs env'. listener_deinit e w \<bind> signal_deinit e =
    Some (after_calls cs (w\<lparr>listeners := Map.empty, events := events w |` (- env_events env w), envs := [e \<mapsto> env']\<rparr>))
    \<and> eventBaseLoop env' = eventBaseLoop env \<and> current_clients_dlinklist env' = current_clients_dlinklist env"
proof -
  define E where "E = (\<lambda>x. if x \<in> listener_events env w then None else events w x)"
  define env1 where "env1 = env\<lparr>listener := NULL\<rparr>"
  obtain cs where cs: "listener_deinit e w = Some (after_calls cs (w\<lparr>events := E, listeners := Map.empty, envs := [e \<mapsto> env1]\<rparr>))"
    using listener_deinit_run [OF e l] ev wf by (auto simp: E_def env1_def env_events_def)
  have "dom E = dom (events w) - listener_events env w" by (auto simp: E_def split: if_splits)
  moreover have "signal_events env1 = signal_events env" by (simp add: env1_def signal_events_def)
  ultimately have sub: "signal_events env1 \<subseteq> dom E" "E NULL = None"
    using ev wf by (auto simp: E_def env_events_def env_events_distinct_def simp del: filter.simps)
  have d: "distinct (filter (\<lambda>x. x \<noteq> NULL) [sigint_ev env1, sigterm_ev env1, sighup_ev env1, sigusr1_ev env1])"
    using ev(2) by (simp add: env1_def env_events_distinct_def)
  have "E(sigint_ev env := None, sigterm_ev env := None, sighup_ev env := None, sigusr1_ev env := None) = events w |` (- env_events env w)"
    using wf by (auto simp: E_def fun_eq_iff env_events_def signal_events_def restrict_map_def)
  then obtain ds where ds: "signal_deinit e (after_calls cs (w\<lparr>events := E, listeners := Map.empty, envs := [e \<mapsto> env1]\<rparr>)) =
    Some (after_calls (cs @ ds) (w\<lparr>listeners := Map.empty, events := events w |` (- env_events env w),
      envs := [e \<mapsto> env1\<lparr>sigint_ev := NULL, sigterm_ev := NULL, sighup_ev := NULL, sigusr1_ev := NULL\<rparr>]\<rparr>))"
    using signal_deinit_run [of e "after_calls cs (w\<lparr>events := E, listeners := Map.empty, envs := [e \<mapsto> env1]\<rparr>)" env1]
      e(1) sub d by (auto simp: env1_def simp del: filter.simps)
  show ?thesis
    using cs ds by (intro exI [of _ "cs @ ds"] exI [of _ "env1\<lparr>sigint_ev := NULL, sigterm_ev := NULL, sighup_ev := NULL, sigusr1_ev := NULL\<rparr>"])
      (simp add: env1_def)
qed

text \<open>The memory without the environment and everything that belongs to it.\<close>

definition env_removed :: "transocks_global_env \<Rightarrow> world \<Rightarrow> world" where
  "env_removed env w = w\<lparr>sockaddrs := (sockaddrs w)(relay_addr env := None, bind_addr env := None), listeners := Map.empty,
     events := events w |` (- env_events env w), bases := {}, envs := Map.empty,
     nodes := (nodes w)(current_clients_dlinklist env := None)\<rparr>"

lemma env_free_run:
  assumes wf: "wf_world w" and e: "e \<noteq> NULL" "envs w = [e \<mapsto> env]"
    and sa: "{bind_addr env, relay_addr env} - {NULL} \<subseteq> dom (sockaddrs w)" "bind_addr env = relay_addr env \<longrightarrow> bind_addr env = NULL"
    and bs: "bases w = {eventBaseLoop env} - {NULL}" and l: "dom (listeners w) = {listener env} - {NULL}"
    and ev: "env_events env w \<subseteq> dom (events w)" "env_events_distinct env w"
  shows "holds (transocks_global_env_free e w) (\<lambda>w'. \<exists>cs. w' = after_calls cs (env_removed env w))"
proof -
  define env1 where "env1 = env\<lparr>pump_method_name := None, relay_addr := NULL, bind_addr := NULL\<rparr>"
  define w1 where "w1 = w\<lparr>sockaddrs := (sockaddrs w)(relay_addr env := None, bind_addr env := None), envs := [e \<mapsto> env1]\<rparr>"
  have live: "null_or_live (sockaddrs w) (relay_addr env)"
    "null_or_live ((sockaddrs w)(relay_addr env := None)) (bind_addr env)"
    using sa by (auto simp: null_or_live_def)
  have pre: "envs w1 = [e \<mapsto> env1]" "dom (listeners w1) = {listener env1} - {NULL}"
    using l by (simp_all add: w1_def env1_def)
  have wf1: "wf_world w1"
    using wf e(2) unfolding w1_def wf_world_def by (auto simp: dom_def split: if_splits)
  have ev1: "env_events env1 w1 = env_events env w" "env_events_distinct env1 w1 = env_events_distinct env w"
    by (simp_all add: w1_def env1_def env_events_def env_events_distinct_def listener_events_def signal_events_def
        del: filter.simps)
  have de: "\<exists>ds env'. listener_deinit e (after_calls cs w1) \<bind> signal_deinit e =
    Some (after_calls ds (w1\<lparr>listeners := Map.empty, events := events w |` (- env_events env w), envs := [e \<mapsto> env']\<rparr>))
    \<and> eventBaseLoop env' = eventBaseLoop env \<and> current_clients_dlinklist env' = current_clients_dlinklist env" for cs
  proof -
    have "env_events env1 w1 \<subseteq> dom (events w1)" "env_events_distinct env1 w1"
      using ev unfolding ev1 by (simp_all add: w1_def)
    then obtain ds env' where "listener_deinit e (after_calls cs w1) \<bind> signal_deinit e =
        Some (after_calls ds (after_calls cs w1\<lparr>listeners := Map.empty, events := events w1 |` (- env_events env1 w1), envs := [e \<mapsto> env']\<rparr>))"
      "eventBaseLoop env' = eventBaseLoop env1" "current_clients_dlinklist env' = current_clients_dlinklist env1"
      using env_deinit_run [of "after_calls cs w1" e env1] pre wf1 e(1) by auto
    then show ?thesis unfolding ev1 by (intro exI [of _ "cs @ ds"] exI [of _ env']) (simp add: env1_def w1_def)
  qed
  let ?name = "case pump_method_name env of None \<Rightarrow> [] | Some s \<Rightarrow> [Free_string s]"
  have nm: "(case pump_method_name env of None \<Rightarrow> w | Some s \<Rightarrow> emit (Free_string s) w) = after_calls ?name w"
    by (simp add: emit_after_calls split: option.split)
  have assoc: "listener_deinit e v \<bind> (\<lambda>w. signal_deinit e w \<bind> f) = (listener_deinit e v \<bind> signal_deinit e) \<bind> f" for v f
    by simp
  have rest: "holds (listener_deinit e (after_calls cs w1) \<bind> (\<lambda>w. signal_deinit e w \<bind> (\<lambda>w.
      TRANSOCKS_FREE event_base_free (eventBaseLoop env) w \<bind> (\<lambda>w. envs w e \<bind> (\<lambda>y.
        TRANSOCKS_FREE free_env_mem e (w\<lparr>envs := (envs w)(e \<mapsto> y\<lparr>eventBaseLoop := NULL\<rparr>)\<rparr>))))))
      (\<lambda>w'. \<exists>cs. w' = after_calls cs (env_removed env w))" for cs
  proof -
    obtain ds env' where ds: "listener_deinit e (after_calls cs w1) \<bind> signal_deinit e =
      Some (after_calls ds (w1\<lparr>listeners := Map.empty, events := events w |` (- env_events env w), envs := [e \<mapsto> env']\<rparr>))"
      "current_clients_dlinklist env' = current_clients_dlinklist env"
      using de by blast
    have "bases w1 = {eventBaseLoop env} - {NULL}" using bs by (simp add: w1_def)
    then have "holds (TRANSOCKS_FREE event_base_free (eventBaseLoop env) (after_calls ds (w1\<lparr>listeners := Map.empty,
        events := events w |` (- env_events env w), envs := [e \<mapsto> env']\<rparr>))) (\<lambda>v. holds (envs v e) (\<lambda>y.
        holds (TRANSOCKS_FREE free_env_mem e (v\<lparr>envs := (envs v)(e \<mapsto> y\<lparr>eventBaseLoop := NULL\<rparr>)\<rparr>)) (\<lambda>w'. \<exists>cs. w' = after_calls cs (env_removed env w))))"
      using e(1) ds(2)
      by (simp add: FREE_base_simp) (auto simp: TRANSOCKS_FREE_def free_env_mem_def emit_after_calls w1_def env_removed_def)
    then show ?thesis unfolding assoc ds(1) by simp
  qed
  show ?thesis
    unfolding transocks_global_env_free_def using e live wf rest
    by (simp split del: if_split del: neq0_conv holds_bind add: nm on_env_def FREE_sockaddr_simp if_None_eq_None w1_def env1_def)
qed

lemma env_free_clean:
  assumes E: "env_only e env w"
  shows "holds (transocks_global_env_free e w) no_objects"
proof -
  have "(sockaddrs w)(relay_addr env := None, bind_addr env := None) = Map.empty"
    "(nodes w)(current_clients_dlinklist env := None) = Map.empty" "events w |` (- env_events env w) = Map.empty"
    using E by (auto simp: env_only_def fun_eq_iff restrict_map_def)
  then have "no_objects (env_removed env w)" using E by (simp add: no_objects_def env_removed_def env_only_def)
  moreover have "holds (transocks_global_env_free e w) (\<lambda>w'. \<exists>cs. w' = after_calls cs (env_removed env w))"
    using E by (intro env_free_run) (simp_all add: env_only_def)
  ultimately show ?thesis by (auto elim!: holds_mono)
qed

subsection \<open>Shutting down\<close>

lemma env_only_empty:
  assumes "winv e env pm {} {} {} w" and "clients w = Map.empty"
  shows "env_only e env w"
  using assms by (auto simp: winv_def env_ok_def env_only_def registry_empty)

text \<open>The state in which \<^verbatim>\<open>main\<close> may reach its label \<^verbatim>\<open>shutdown\<close>: clients only with the copying pump.\<close>

definition settled :: "addr \<Rightarrow> world \<Rightarrow> bool" where
  "settled e w \<longleftrightarrow> (\<exists>env. steady e env w \<or> idle e env w)"

lemma drop_all_empty:
  assumes I: "winv e env pm {} {} {} w" and c: "clients w = Map.empty"
  shows "transocks_drop_all_clients os e w = Some w"
proof -
  have "dlist (nodes w) (current_clients_dlinklist env) []"
    using invD(4) [OF I] c by (simp add: registry_empty)
  then have "get_next (current_clients_dlinklist env) (nodes w) = Some (current_clients_dlinklist env)"
    using dlist_get_next_head by fastforce
  then show ?thesis
    using invD(8) [OF I]
    by (simp add: transocks_drop_all_clients_def list_for_each_entry_safe_def list_for_each_safe_loop.simps)
qed

lemma main_shutdown_clean:
  assumes "settled e w"
  shows "holds (main_shutdown os e w) (\<lambda>(st, w'). st = Return_0 \<and> no_objects w')"
proof -
  have free: "holds (TRANSOCKS_FREE transocks_global_env_free e w') no_objects"
    if "winv e env pm {} {} {} w'" "clients w' = Map.empty" for env pm w'
    using env_free_clean [OF env_only_empty [OF that]] that by (auto simp: TRANSOCKS_FREE_def winv_def env_ok_def)
  have "holds (transocks_drop_all_clients os e w) (\<lambda>w'. \<exists>env pm. winv e env pm {} {} {} w' \<and> clients w' = Map.empty)"
    using assms drop_all_safe [of e _ w os] drop_all_empty [of e _ None w os]
    by (fastforce simp: settled_def idle_def elim: holds_mono)
  then show ?thesis
    using free by (auto simp: main_shutdown_def elim!: holds_mono)
qed

subsection \<open>main\<close>

lemma wf_world_pump [simp]: "wf_world (w\<lparr>pumpMethodImpl := pm\<rparr>) = wf_world w"
  by (simp add: wf_world_def)

lemma winv_pump: "winv e env pm D X U w \<Longrightarrow> winv e env pm' D X U (w\<lparr>pumpMethodImpl := pm'\<rparr>)"
  by (simp add: winv_def env_ok_def env_events_distinct_def env_events_def listener_events_def
      registry_def regs_def)

lemma pump_init_safe:
  assumes I: "idle e env w" and n: "pump_method_name env = Some name" "name \<noteq> PUMPMETHOD_SPLICE"
  shows "holds (transocks_pump_init e w) (\<lambda>(r, w'). if r = 0 then steady e env w' else idle e env w')"
proof -
  have "pumpMethodImpl w = None" using I by (simp add: idle_iff)
  moreover have "steady e env (w\<lparr>pumpMethodImpl := Some Bufferpump_ops\<rparr>)"
    using I winv_pump by (auto simp: idle_def)
  ultimately show ?thesis
    using I n idle_env [OF I]
    by (auto simp: transocks_pump_init_def transocks_pumps_def transocks_splicepump_ops_def transocks_bufferpump_ops_def)
qed

text \<open>What the program needs of its environment from the start.\<close>

definition start_reliable :: "os \<Rightarrow> bool" where
  "start_reliable os \<longleftrightarrow> env_reliable os \<and> (\<forall>h. os_alloc os h (Calloc T_global_env))"

lemma idle_settled: "idle e env w \<Longrightarrow> settled e w" and steady_settled: "steady e env w \<Longrightarrow> settled e w"
  by (auto simp: settled_def)

lemma run_pump_clean:
  assumes I: "idle e env w" and n: "pump_method_name env = Some name" "name \<noteq> PUMPMETHOD_SPLICE"
    and R: "env_reliable os"
  shows "holds (transocks_pump_init e w \<bind> (\<lambda>(r, w). if r \<noteq> 0 then main_shutdown os e w
      else envs w e \<bind> (\<lambda>env. event_base_dispatch os occs (eventBaseLoop env) w \<bind> main_shutdown os e)))
    (\<lambda>(st, w'). st = Return_0 \<and> no_objects w')"
proof -
  have run: "holds (envs w e \<bind> (\<lambda>env. event_base_dispatch os occs (eventBaseLoop env) w \<bind> main_shutdown os e))
      (\<lambda>(st, w'). st = Return_0 \<and> no_objects w')" if "steady e env w" for w
    using invD(8) [OF that] holds_mono [OF dispatch_safe [OF that R] main_shutdown_clean [OF steady_settled]]
    by simp
  show ?thesis
    by (rule holds_bindI, rule holds_mono [OF pump_init_safe [OF I n]])
      (auto simp del: holds_bind intro: run main_shutdown_clean idle_settled split: if_splits)
qed

lemma holds_exI: "\<exists>w'. m = Some w' \<and> P w' \<Longrightarrow> (\<And>w'. P w' \<Longrightarrow> holds (f w') Q) \<Longrightarrow> holds (m \<bind> f) Q"
  by auto

text \<open>The steps before the pump is selected, for any condition \<open>Q\<close> that holds once everything has been released.\<close>

lemma idle_shutdown:
  assumes "idle e env w" and "\<And>w'. no_objects w' \<Longrightarrow> Q (Return_0, w')"
  shows "holds (main_shutdown os e w) Q"
  using main_shutdown_clean [OF idle_settled [OF assms(1)], of os] by (rule holds_mono) (auto intro: assms(2))

lemma run_named:
  assumes I: "idle e env w" and Q: "\<And>w'. no_objects w' \<Longrightarrow> Q (Return_0, w')"
    and k: "\<And>env w. idle e env w \<Longrightarrow> pump_method_name env = Some pm \<Longrightarrow> holds (k w) Q"
  shows "holds (let name = (if ok then Some pm else None); w = emit (Strdup pm) w in
      on_env e (\<lambda>x. x\<lparr>pump_method_name := name\<rparr>) w \<bind> (\<lambda>w. if name = None then main_shutdown os e w else k w)) Q"
proof -
  have I': "idle e env (emit (Strdup pm) w)" using I by (simp add: emit_after_calls)
  show ?thesis
    unfolding Let_def
    by (rule holds_exI [OF idle_on_env [OF I']])
      (auto simp del: holds_bind simp: same_env_def intro: k idle_shutdown [where Q = Q, OF _ Q])
qed

lemma run_addresses:
  assumes I: "idle e env w" and l: "listener env = NULL" and Q: "\<And>w'. no_objects w' \<Longrightarrow> Q (Return_0, w')"
    and k: "\<And>env w. idle e env w \<Longrightarrow> holds (k w) Q"
  shows "holds (envs w e \<bind> (\<lambda>env. on_sockaddr (bind_addr env) (\<lambda>_. Some a) w \<bind> (\<lambda>w.
      on_env e (\<lambda>x. x\<lparr>bind_addr_len := n\<rparr>) w \<bind> (\<lambda>w. on_sockaddr (relay_addr env) (\<lambda>_. Some b) w \<bind> (\<lambda>w.
      on_env e (\<lambda>x. x\<lparr>relay_addr_len := m\<rparr>) w \<bind> (\<lambda>w. listener_init os e w \<bind> (\<lambda>(r, w).
        if r \<noteq> 0 then main_shutdown os e w else k w))))))) Q"
proof -
  let ?e1 = "env\<lparr>bind_addr_len := n\<rparr>" and ?e2 = "env\<lparr>bind_addr_len := n, relay_addr_len := m\<rparr>"
  have env: "envs w e = Some env" using idle_env [OF I] by simp
  have L: "holds (listener_init os e w' \<bind> (\<lambda>(r, w). if r \<noteq> 0 then main_shutdown os e w else k w)) Q" if "idle e ?e2 w'" for w'
    by (rule holds_bindI, rule holds_mono [OF listener_init_safe [OF that]])
      (auto simp: l intro: k idle_shutdown [where Q = Q, OF _ Q])
  show ?thesis
    unfolding env bind.bind_lunit
    by (rule holds_exI [OF idle_sockaddr_upd [OF I]], simp,
        rule holds_exI [OF idle_on_env], assumption, simp add: same_env_def,
        rule holds_exI [OF idle_sockaddr_upd [of e ?e1]], assumption, simp,
        rule holds_exI [OF idle_on_env], assumption, simp add: same_env_def, rule L)
qed

lemma run_signals:
  assumes I: "idle e env w" "signals env = replicate 4 NULL" "listener env = NULL" and Q: "\<And>w'. no_objects w' \<Longrightarrow> Q (Return_0, w')"
    and k: "\<And>env w. idle e env w \<Longrightarrow> listener env = NULL \<Longrightarrow> holds (k w) Q"
  shows "holds (signal_init os e w \<bind> (\<lambda>(r, w). if r \<noteq> 0 then main_shutdown os e w else k w)) Q"
  by (rule holds_bindI, rule holds_mono [OF signal_init_safe [OF I(1,2)]])
    (auto simp: I(3) intro: k idle_shutdown [where Q = Q, OF _ Q])

lemma main_run_to_pump:
  assumes B: "boot w" and R: "start_reliable os" and Q: "\<And>w'. no_objects w' \<Longrightarrow> Q (Return_0, w')"
    and k: "\<And>e env w. idle e env w \<Longrightarrow> pump_method_name env = Some pm \<Longrightarrow>
      holds (transocks_pump_init e w \<bind> (\<lambda>(r, w). if r \<noteq> 0 then main_shutdown os e w
        else envs w e \<bind> (\<lambda>env. dispatch (eventBaseLoop env) w \<bind> main_shutdown os e))) Q"
  shows "holds (main_run os dispatch l s pm w) Q"
proof -
  have "\<exists>e w'. transocks_global_env_new os w = Some (e, w') \<and> (if e = NULL then no_objects w'
      else \<exists>env. idle e env w' \<and> signals env = replicate 4 NULL \<and> listener env = NULL)"
    using env_new_safe [OF B] R by (auto simp: holds_def start_reliable_def)
  then obtain e w' where new: "transocks_global_env_new os w = Some (e, w')" and e: "e = NULL \<Longrightarrow> no_objects w'"
    "e \<noteq> NULL \<Longrightarrow> \<exists>env. idle e env w' \<and> signals env = replicate 4 NULL \<and> listener env = NULL"
    by (auto split: if_splits)
  show ?thesis
  proof (cases "e = NULL")
    case True
    with new e(1) Q show ?thesis by (simp add: main_run_def)
  next
    case False
    with e(2) obtain env where env: "idle e env w'" "signals env = replicate 4 NULL" "listener env = NULL" by blast
    show ?thesis
      unfolding main_run_def new bind.bind_lunit prod.case if_not_P [OF False]
      by (rule run_signals [where Q = Q, OF env Q], assumption, rule run_addresses [where Q = Q, OF _ _ Q], assumption, assumption, assumption)
        (rule run_named [where Q = Q, OF _ Q k], assumption+)
  qed
qed

lemma main_run_clean:
  assumes B: "boot w" and R: "start_reliable os" and m: "pm \<noteq> PUMPMETHOD_SPLICE"
  shows "holds (main_run os (event_base_dispatch os occs) l s pm w) (\<lambda>(st, w'). st = Return_0 \<and> no_objects w')"
proof (rule main_run_to_pump [OF B R])
  have "env_reliable os" using R by (simp add: start_reliable_def)
  then show "holds (transocks_pump_init e w \<bind> (\<lambda>(r, w). if r \<noteq> 0 then main_shutdown os e w
      else envs w e \<bind> (\<lambda>env. event_base_dispatch os occs (eventBaseLoop env) w \<bind> main_shutdown os e)))
    (\<lambda>(st, w'). st = Return_0 \<and> no_objects w')" if "idle e env w" "pump_method_name env = Some pm" for e env w
    by (rule run_pump_clean [OF that m])
qed simp

lemma boot_calls [simp]: "boot (after_calls cs w) = boot w"
  by (simp add: boot_def)

lemma main_clean:
  assumes B: "boot w" and R: "start_reliable os"
    and m: "\<And>l s. parse_options opts (None, None, None) \<noteq> Some (l, s, Some PUMPMETHOD_SPLICE)"
  shows "holds (transocks_main os evutil_parse (event_base_dispatch os occs) opts w) (\<lambda>(st, w'). no_objects w')"
proof -
  let ?w = "after_calls [Signal_ignore SIGPIPE] w"
  have "no_objects w" using B by (simp add: boot_def)
  moreover have "PUMPMETHOD_BUFFER \<noteq> PUMPMETHOD_SPLICE" by (simp add: PUMPMETHOD_BUFFER_def PUMPMETHOD_SPLICE_def)
  moreover have "pm \<noteq> PUMPMETHOD_SPLICE \<Longrightarrow>
      holds (main_run os (event_base_dispatch os occs) la sa pm ?w) (\<lambda>(st, w'). no_objects w')" for pm la sa
    by (rule holds_mono [OF main_run_clean [OF _ R]]) (use B in auto)
  ultimately show ?thesis
    using m by (auto simp: transocks_main_def Let_def emit_after_calls give_up_calls split: option.splits prod.splits)
qed

end
