(* ===== verification/Locality.thy ===== *)
theory Locality
  imports Event_Loop
begin

text \<open>
  Locality of the operations on a client that has no pump yet. With the splicing pump the memory also holds the pumps of
  the clients that are past the handshake, with their pipes and events. An operation on another client does not notice
  them: what it does without them determines what it does in their presence.
\<close>

unbundle bit_operations_syntax

subsection \<open>A part of the memory\<close>

text \<open>The events, pumps and pipes of the running pumps, and the clients, bufferevents and timers that belong to them.\<close>

record part =
  part_events :: "addr \<rightharpoonup> ev_reg"
  part_pumps :: "addr \<rightharpoonup> transocks_splicepump"
  part_pipes :: "addr \<rightharpoonup> transocks_splicepipe"
  part_clients :: "addr \<rightharpoonup> transocks_client"
  part_bevs :: "addr \<rightharpoonup> bev_reg"
  part_timers :: "addr \<rightharpoonup> ev_reg"

definition adjoin :: "part \<Rightarrow> world \<Rightarrow> world" where
  "adjoin F w = w\<lparr>events := events w ++ part_events F, splicepumps := part_pumps F, splicepipes := part_pipes F,
     pumpMethodImpl := Some Splicepump_ops\<rparr>"

text \<open>A bufferevent with callbacks of the handshake only, and a client without a pump.\<close>

definition plain :: "bev_reg \<Rightarrow> bool" where
  "plain r \<longleftrightarrow> bev_readcb r \<in> {No_callback, Socks_on_server_selected_method_readcb, Socks_on_server_connect_reply_readcb}
     \<and> bev_writecb r = No_callback \<and> bev_eventcb r \<in> {No_callback, Relay_onconnect_eventcb, Socks_handshake_stage_errcb}"

definition tame :: "part \<Rightarrow> transocks_client \<Rightarrow> bool" where
  "tame F c \<longleftrightarrow> user_arg c = NULL \<and> relay_bev c \<notin> dom (part_bevs F) \<and> client_bev c \<notin> dom (part_bevs F) \<and> timeout_ev c \<notin> dom (part_timers F)"

text \<open>The state is apart from the part: it has the clients and bufferevents of the part, all others are tame.\<close>

definition apart :: "addr set \<Rightarrow> part \<Rightarrow> world \<Rightarrow> bool" where
  "apart X F w \<longleftrightarrow> dom (part_events F) \<inter> dom (events w) = {} \<and> dom (part_events F) \<subseteq> {0<..<brk w}
     \<and> part_clients F \<subseteq>\<^sub>m clients w \<and> dom (part_clients F) \<subseteq> {0<..<brk w}
     \<and> part_bevs F \<subseteq>\<^sub>m bevs w \<and> dom (part_bevs F) \<subseteq> {0<..<brk w} \<and> 0 < brk w
     \<and> part_timers F \<subseteq>\<^sub>m events w \<and> dom (part_timers F) \<subseteq> {0<..<brk w}
     \<and> dom (part_pumps F) \<subseteq> {0<..<brk w} \<and> dom (part_pipes F) \<subseteq> {0<..<brk w}
     \<and> (\<forall>p c. clients w p = Some c \<longrightarrow> p \<notin> dom (part_clients F) \<longrightarrow> p \<notin> X \<longrightarrow> tame F c)
     \<and> (\<forall>b r. bevs w b = Some r \<longrightarrow> plain r)"

lemma adjoin_simps [simp]:
  "clients (adjoin F w) = clients w" "envs (adjoin F w) = envs w" "nodes (adjoin F w) = nodes w" "listeners (adjoin F w) = listeners w"
  "sockaddrs (adjoin F w) = sockaddrs w" "bevs (adjoin F w) = bevs w" "brk (adjoin F w) = brk w" "hist (adjoin F w) = hist w"
  "bases (adjoin F w) = bases w" "events (adjoin F w) = events w ++ part_events F" "splicepumps (adjoin F w) = part_pumps F"
  "splicepipes (adjoin F w) = part_pipes F" "pumpMethodImpl (adjoin F w) = Some Splicepump_ops"
  by (simp_all add: adjoin_def)

lemma adjoin_upd:
  "adjoin F w\<lparr>clients := f1\<rparr> = adjoin F (w\<lparr>clients := f1\<rparr>)" "adjoin F w\<lparr>envs := f2\<rparr> = adjoin F (w\<lparr>envs := f2\<rparr>)"
  "adjoin F w\<lparr>nodes := f3\<rparr> = adjoin F (w\<lparr>nodes := f3\<rparr>)" "adjoin F w\<lparr>listeners := f4\<rparr> = adjoin F (w\<lparr>listeners := f4\<rparr>)"
  "adjoin F w\<lparr>sockaddrs := f5\<rparr> = adjoin F (w\<lparr>sockaddrs := f5\<rparr>)" "adjoin F w\<lparr>bevs := f6\<rparr> = adjoin F (w\<lparr>bevs := f6\<rparr>)"
  "adjoin F w\<lparr>brk := n\<rparr> = adjoin F (w\<lparr>brk := n\<rparr>)" "adjoin F (after_calls cs w) = after_calls cs (adjoin F w)"
  by (simp_all add: adjoin_def after_calls_def)

lemma apart_calls [simp]: "apart X F (after_calls cs w) = apart X F w"
  by (simp add: apart_def)

lemma adjoin_event:
  assumes "apart X F w" and "events w ev = Some r"
  shows "(events w ++ part_events F) ev = Some r"
    "adjoin F w\<lparr>events := (events w ++ part_events F)(ev \<mapsto> r')\<rparr> = adjoin F (w\<lparr>events := (events w)(ev \<mapsto> r')\<rparr>)"
    "adjoin F w\<lparr>events := (events w ++ part_events F)(ev := None)\<rparr> = adjoin F (w\<lparr>events := (events w)(ev := None)\<rparr>)"
proof -
  have ev: "part_events F ev = None" using assms by (auto simp: apart_def)
  then show "(events w ++ part_events F) ev = Some r" using assms(2) by (simp add: map_add_def)
  show "adjoin F w\<lparr>events := (events w ++ part_events F)(ev \<mapsto> r')\<rparr> = adjoin F (w\<lparr>events := (events w)(ev \<mapsto> r')\<rparr>)"
    "adjoin F w\<lparr>events := (events w ++ part_events F)(ev := None)\<rparr> = adjoin F (w\<lparr>events := (events w)(ev := None)\<rparr>)"
    using ev by (auto simp: adjoin_def map_add_def fun_eq_iff split: option.splits)
qed

lemma apart_event:
  assumes "apart X F w" and "events w ev = Some r" and "ev \<notin> dom (part_timers F)"
  shows "apart X F (w\<lparr>events := (events w)(ev \<mapsto> r')\<rparr>)" "apart X F (w\<lparr>events := (events w)(ev := None)\<rparr>)"
  using assms by (auto simp: apart_def map_le_def)

text \<open>Two computations that differ in the part only.\<close>

definition framed :: "part \<Rightarrow> ('a \<times> world) option \<Rightarrow> ('a \<times> world) option \<Rightarrow> bool" where
  "framed F m m' \<longleftrightarrow> (\<forall>r w. m = Some (r, w) \<longrightarrow> apart {} F w \<and> m' = Some (r, adjoin F w))"

definition framed0 :: "part \<Rightarrow> world option \<Rightarrow> world option \<Rightarrow> bool" where
  "framed0 F m m' \<longleftrightarrow> (\<forall>w. m = Some w \<longrightarrow> apart {} F w \<and> m' = Some (adjoin F w))"

lemma apart_client:
  assumes "apart {} F w" and "p \<notin> dom (part_clients F)" and "\<And>c. tame F c \<Longrightarrow> tame F (u c)" and "clients w p = Some c"
  shows "apart {} F (w\<lparr>clients := (clients w)(p \<mapsto> u c)\<rparr>)"
  using assms by (auto simp: apart_def map_le_def)

lemma apart_bev:
  assumes "apart X F w" and "b \<notin> dom (part_bevs F)"
  shows "plain r \<Longrightarrow> apart X F (w\<lparr>bevs := (bevs w)(b \<mapsto> r)\<rparr>)" "apart X F (w\<lparr>bevs := (bevs w)(b := None)\<rparr>)"
  using assms by (auto simp: apart_def map_le_def)

subsection \<open>Primitive operations\<close>

named_theorems local_ops \<open>operations that do not notice the part\<close>

lemma local_event_ops [local_ops]:
  assumes A: "apart {} F w" and ev: "ev \<notin> dom (part_timers F)"
  shows "framed0 F (event_del ev w) (event_del ev (adjoin F w))" "framed0 F (event_free ev w) (event_free ev (adjoin F w))"
    "framed F (event_add os ev tv w) (event_add os ev tv (adjoin F w))"
    "framed F (event_assign os ev base fd fl cb arg w) (event_assign os ev base fd fl cb arg (adjoin F w))"
  by (cases "events w ev"; simp add: framed0_def framed_def event_del_def event_free_def event_add_def event_assign_def
      emit_after_calls sys_after_calls adjoin_event [OF A] apart_event [OF A _ ev] adjoin_upd A)+

lemma apart_grow:
  assumes "apart X F w"
  shows "apart X F (w\<lparr>brk := Suc (brk w)\<rparr>)"
  using assms by (auto simp: apart_def subset_iff less_Suc_eq)

lemma apart_brk: "apart X F w \<Longrightarrow> 0 < brk w"
  by (simp add: apart_def)

lemma apart_fresh:
  assumes "apart X F w"
  shows "brk w \<notin> dom (part_clients F)" "brk w \<notin> dom (part_bevs F)" "NULL \<notin> dom (part_clients F)" "NULL \<notin> dom (part_bevs F)"
    "brk w \<notin> dom (part_timers F)" "NULL \<notin> dom (part_timers F)"
  using assms by (auto simp: apart_def)

lemma adjoin_event_new:
  assumes A: "apart {} F w"
  shows "event_new os base fd fl cb arg (adjoin F w) = apsnd (adjoin F) (event_new os base fd fl cb arg w)"
    and "apart {} F (snd (event_new os base fd fl cb arg w))"
    and "fst (event_new os base fd fl cb arg w) \<notin> dom (part_timers F)"
proof -
  have "part_events F (brk w) = None" using A by (auto simp: apart_def)
  then have upd: "(events w ++ part_events F)(brk w \<mapsto> r) = (events w)(brk w \<mapsto> r) ++ part_events F" for r
    by (simp add: map_add_def fun_eq_iff split: option.splits)
  have "adjoin F w\<lparr>brk := Suc (brk w), events := (events w ++ part_events F)(brk w \<mapsto> r)\<rparr> =
      adjoin F (w\<lparr>brk := Suc (brk w), events := (events w)(brk w \<mapsto> r)\<rparr>)" for r
    by (simp add: adjoin_def upd)
  then show "event_new os base fd fl cb arg (adjoin F w) = apsnd (adjoin F) (event_new os base fd fl cb arg w)"
    by (simp add: event_new_def alloc_simp adjoin_upd)
  have "apart {} F (w\<lparr>brk := Suc (brk w), events := (events w)(brk w \<mapsto> r)\<rparr>)" for r
    using apart_grow [OF A] \<open>part_events F (brk w) = None\<close> apart_fresh(5) [OF A] by (auto simp: apart_def map_le_def)
  then show "apart {} F (snd (event_new os base fd fl cb arg w))"
    using A apart_brk [OF A] by (simp add: event_new_def alloc_simp)
  show "fst (event_new os base fd fl cb arg w) \<notin> dom (part_timers F)"
    using apart_fresh [OF A] by (simp add: event_new_def alloc_simp)
qed

lemma adjoin_bev_new:
  assumes A: "apart {} F w"
  shows "bufferevent_socket_new os base fd (adjoin F w) = apsnd (adjoin F) (bufferevent_socket_new os base fd w)"
    and "apart {} F (snd (bufferevent_socket_new os base fd w))"
    and "fst (bufferevent_socket_new os base fd w) \<notin> dom (part_bevs F)"
proof -
  show "bufferevent_socket_new os base fd (adjoin F w) = apsnd (adjoin F) (bufferevent_socket_new os base fd w)"
    by (simp add: bufferevent_socket_new_def alloc_simp adjoin_upd)
  show "apart {} F (snd (bufferevent_socket_new os base fd w))"
    using A apart_bev(1) [OF apart_grow [OF A] apart_fresh(2) [OF A]] apart_brk [OF A]
    by (simp add: bufferevent_socket_new_def alloc_simp plain_def)
  show "fst (bufferevent_socket_new os base fd w) \<notin> dom (part_bevs F)"
    using apart_fresh [OF A] by (simp add: bufferevent_socket_new_def alloc_simp)
qed

lemma adjoin_alloc:
  assumes A: "apart {} F w"
  shows "alloc os k (adjoin F w) = apsnd (adjoin F) (alloc os k w)" and "apart {} F (snd (alloc os k w))"
    and "malloc_sockaddr os (adjoin F w) = apsnd (adjoin F) (malloc_sockaddr os w)" and "apart {} F (snd (malloc_sockaddr os w))"
  using A apart_grow [OF A] by (simp_all add: alloc_simp adjoin_upd malloc_sockaddr_def) (simp_all add: apart_def)

lemma local_client [local_ops]:
  assumes A: "apart {} F w" and p: "p \<notin> dom (part_clients F)"
  shows "(\<And>c. NULL \<notin> dom (part_bevs F) \<Longrightarrow> NULL \<notin> dom (part_timers F) \<Longrightarrow> tame F c \<Longrightarrow> tame F (u c)) \<Longrightarrow> framed0 F (on_client p u w) (on_client p u (adjoin F w))"
    and "framed0 F (free_client_mem p w) (free_client_mem p (adjoin F w))"
proof -
  have "apart {} F (w\<lparr>clients := (clients w)(p := None), nodes := h\<rparr>)" for h using A p by (auto simp: apart_def map_le_def)
  then show "framed0 F (free_client_mem p w) (free_client_mem p (adjoin F w))"
    by (cases "clients w p") (simp_all add: framed0_def free_client_mem_def emit_after_calls adjoin_upd)
  show "framed0 F (on_client p u w) (on_client p u (adjoin F w))" if "\<And>c. NULL \<notin> dom (part_bevs F) \<Longrightarrow> NULL \<notin> dom (part_timers F) \<Longrightarrow> tame F c \<Longrightarrow> tame F (u c)"
    using apart_client [OF A p, of u] that apart_fresh(4,6) [OF A] by (cases "clients w p") (simp_all add: framed0_def on_client_def adjoin_upd)
qed

lemma local_bev [local_ops]:
  assumes A: "apart {} F w" and b: "b \<notin> dom (part_bevs F)"
  shows "framed F (bufferevent_enable os b fl w) (bufferevent_enable os b fl (adjoin F w))"
    "framed F (bufferevent_disable os b fl w) (bufferevent_disable os b fl (adjoin F w))"
    "framed F (bufferevent_setfd os b fd w) (bufferevent_setfd os b fd (adjoin F w))"
    "framed F (bufferevent_write os b bs w) (bufferevent_write os b bs (adjoin F w))"
    "framed F (bufferevent_socket_connect os b ss len w) (bufferevent_socket_connect os b ss len (adjoin F w))"
    "framed0 F (bufferevent_free b w) (bufferevent_free b (adjoin F w))"
    "plain \<lparr>bev_fd = 0, bev_readcb = rcb, bev_writecb = wcb, bev_eventcb = ecb, bev_arg = arg, bev_enabled = 0\<rparr> \<Longrightarrow>
      framed0 F (bufferevent_setcb b rcb wcb ecb arg w) (bufferevent_setcb b rcb wcb ecb arg (adjoin F w))"
proof -
  have on: "framed F (on_bev os b k u w) (on_bev os b k u (adjoin F w))" if "\<And>r. plain r \<Longrightarrow> plain (u r)" for k u
  proof (cases "bevs w b")
    case (Some r)
    then have "plain (u r)" using A that by (auto simp: apart_def)
    with Some A apart_bev(1) [OF A b] show ?thesis by (simp add: framed_def on_bev_def sys_after_calls adjoin_upd)
  qed (simp add: framed_def on_bev_def)
  show "framed F (bufferevent_enable os b fl w) (bufferevent_enable os b fl (adjoin F w))"
    "framed F (bufferevent_disable os b fl w) (bufferevent_disable os b fl (adjoin F w))"
    "framed F (bufferevent_setfd os b fd w) (bufferevent_setfd os b fd (adjoin F w))"
    "framed F (bufferevent_write os b bs w) (bufferevent_write os b bs (adjoin F w))"
    "framed F (bufferevent_socket_connect os b ss len w) (bufferevent_socket_connect os b ss len (adjoin F w))"
    unfolding bufferevent_enable_def bufferevent_disable_def bufferevent_setfd_def bufferevent_write_def bufferevent_socket_connect_def
    by (rule on, simp add: plain_def)+
  show "framed0 F (bufferevent_free b w) (bufferevent_free b (adjoin F w))"
    using apart_bev(2) [OF A b] by (cases "bevs w b") (simp_all add: framed0_def bufferevent_free_def emit_after_calls adjoin_upd)
  show "framed0 F (bufferevent_setcb b rcb wcb ecb arg w) (bufferevent_setcb b rcb wcb ecb arg (adjoin F w))"
    if "plain \<lparr>bev_fd = 0, bev_readcb = rcb, bev_writecb = wcb, bev_eventcb = ecb, bev_arg = arg, bev_enabled = 0\<rparr>"
    using apart_bev(1) [OF A b] that
    by (cases "bevs w b") (simp_all add: framed0_def bufferevent_setcb_def emit_after_calls adjoin_upd plain_def)
qed

lemma local_rest [local_ops]:
  assumes A: "apart {} F w"
  shows "framed0 F (bufferevent_setwatermark b fl lo hi w) (bufferevent_setwatermark b fl lo hi (adjoin F w))"
    "framed F (evbuffer_pullup os buf n w) (evbuffer_pullup os buf n (adjoin F w))"
    "framed F (evbuffer_drain os buf n w) (evbuffer_drain os buf n (adjoin F w))"
    "framed0 F (free_sockaddr a w) (free_sockaddr a (adjoin F w))"
    "framed0 F (on_sockaddr a g w) (on_sockaddr a g (adjoin F w))"
    "framed0 F (on_nodes h w) (on_nodes h (adjoin F w))"
    "framed0 F (Some w) (Some (adjoin F w))"
proof -
  have upd: "apart {} F (w\<lparr>sockaddrs := s\<rparr>)" "apart {} F (w\<lparr>nodes := l\<rparr>)" for s l using A by (simp_all add: apart_def)
  show "framed0 F (bufferevent_setwatermark b fl lo hi w) (bufferevent_setwatermark b fl lo hi (adjoin F w))"
    "framed F (evbuffer_pullup os buf n w) (evbuffer_pullup os buf n (adjoin F w))"
    "framed F (evbuffer_drain os buf n w) (evbuffer_drain os buf n (adjoin F w))"
    "framed0 F (free_sockaddr a w) (free_sockaddr a (adjoin F w))"
    "framed0 F (on_sockaddr a g w) (on_sockaddr a g (adjoin F w))"
    "framed0 F (on_nodes h w) (on_nodes h (adjoin F w))" "framed0 F (Some w) (Some (adjoin F w))"
    using A upd
    by (auto simp: framed0_def framed_def bufferevent_setwatermark_def evbuffer_pullup_def evbuffer_drain_def free_sockaddr_def
        on_sockaddr_def on_nodes_def emit_after_calls sys_after_calls bind_Some_iff adjoin_upd Let_def)
qed

lemma adjoin_helpers:
  "sys os k (adjoin F w) = apsnd (adjoin F) (sys os k w)" "TRANSOCKS_CLOSE fd (adjoin F w) = apsnd (adjoin F) (TRANSOCKS_CLOSE fd w)"
  "setnonblocking os fd b (adjoin F w) = apsnd (adjoin F) (setnonblocking os fd b w)"
  "apply_tcp_keepalive os fd (adjoin F w) = apsnd (adjoin F) (apply_tcp_keepalive os fd w)"
  "apply_tcp_nodelay os fd (adjoin F w) = apsnd (adjoin F) (apply_tcp_nodelay os fd w)"
  "getorigdst os fd (adjoin F w) = apsnd (adjoin F) (getorigdst os fd w)"
  by (simp_all add: sys_after_calls TRANSOCKS_CLOSE_simp setnonblocking_def apply_tcp_keepalive_def apply_tcp_nodelay_def getorigdst_def
      Let_def adjoin_upd)

lemma apart_only_calls: "apart X F w \<Longrightarrow> only_calls w w' \<Longrightarrow> apart X F w'"
  by (auto simp: only_calls_def)

lemma apart_helpers:
  assumes "apart {} F w"
  shows "apart {} F (snd (sys os k w))" "apart {} F (snd (TRANSOCKS_CLOSE fd w))" "apart {} F (snd (setnonblocking os fd b w))"
    "apart {} F (snd (apply_tcp_keepalive os fd w))" "apart {} F (snd (apply_tcp_nodelay os fd w))" "apart {} F (snd (getorigdst os fd w))"
  using assms by (auto intro: apart_only_calls frame)

subsection \<open>Composition\<close>

named_theorems local_rules \<open>composition of local operations\<close>

lemma framed_bind [local_rules]:
  "framed0 F m m' \<Longrightarrow> (\<And>w. apart {} F w \<Longrightarrow> framed0 F (f w) (f' (adjoin F w))) \<Longrightarrow> framed0 F (m \<bind> f) (m' \<bind> f')"
  "framed F k k' \<Longrightarrow> (\<And>r w. apart {} F w \<Longrightarrow> framed0 F (h r w) (h' r (adjoin F w))) \<Longrightarrow>
    framed0 F (k \<bind> (\<lambda>(r, w). h r w)) (k' \<bind> (\<lambda>(r, w). h' r w))"
  "framed0 F m m' \<Longrightarrow> (\<And>w. apart {} F w \<Longrightarrow> framed F (g w) (g' (adjoin F w))) \<Longrightarrow> framed F (m \<bind> g) (m' \<bind> g')"
  "framed F k k' \<Longrightarrow> (\<And>r w. apart {} F w \<Longrightarrow> framed F (i r w) (i' r (adjoin F w))) \<Longrightarrow>
    framed F (k \<bind> (\<lambda>(r, w). i r w)) (k' \<bind> (\<lambda>(r, w). i' r w))"
  by (cases m; cases k; fastforce simp: framed0_def framed_def)+

lemma framed_control [local_rules]:
  "(b \<Longrightarrow> framed0 F m m') \<Longrightarrow> (\<not> b \<Longrightarrow> framed0 F n n') \<Longrightarrow> framed0 F (if b then m else n) (if b then m' else n')"
  "(b \<Longrightarrow> framed F k k') \<Longrightarrow> (\<not> b \<Longrightarrow> framed F l l') \<Longrightarrow> framed F (if b then k else l) (if b then k' else l')"
  "apart {} F w \<Longrightarrow> (a \<noteq> NULL \<Longrightarrow> framed0 F (g a w) (g a (adjoin F w))) \<Longrightarrow>
    framed0 F (TRANSOCKS_FREE g a w) (TRANSOCKS_FREE g a (adjoin F w))"
  "framed F k k' \<Longrightarrow> framed0 F (map_option snd k) (map_option snd k')"
  by (auto simp: TRANSOCKS_FREE_def framed0_def framed_def)

lemma framed_let [local_rules]:
  "X' = apsnd (adjoin F) X \<Longrightarrow> apart {} F (snd X) \<Longrightarrow>
    (\<And>r w. apart {} F w \<Longrightarrow> X = (r, w) \<Longrightarrow> framed0 F (f r w) (f' r (adjoin F w))) \<Longrightarrow>
    framed0 F (let (r, w) = X in f r w) (let (r, w) = X' in f' r w)"
  "X' = apsnd (adjoin F) X \<Longrightarrow> apart {} F (snd X) \<Longrightarrow>
    (\<And>r w. apart {} F w \<Longrightarrow> X = (r, w) \<Longrightarrow> framed F (g r w) (g' r (adjoin F w))) \<Longrightarrow>
    framed F (let (r, w) = X in g r w) (let (r, w) = X' in g' r w)"
  "x' = adjoin F x \<Longrightarrow> apart {} F x \<Longrightarrow> (\<And>w. apart {} F w \<Longrightarrow> framed0 F (h w) (h' (adjoin F w))) \<Longrightarrow>
    framed0 F (let w = x in h w) (let w = x' in h' w)"
  by (cases X; simp)+

lemma framed_None [simp]: "framed0 F None m" "framed F None k"
  by (simp_all add: framed0_def framed_def)

lemma framed_read:
  "m' = m \<Longrightarrow> (\<And>x. m = Some x \<Longrightarrow> framed0 F (f x) (f' x)) \<Longrightarrow> framed0 F (m \<bind> f) (m' \<bind> f')"
  "m' = m \<Longrightarrow> (\<And>x. m = Some x \<Longrightarrow> framed F (g x) (g' x)) \<Longrightarrow> framed F (m \<bind> g) (m' \<bind> g')"
  by (cases m; simp)+

lemma tame_client:
  "apart {} F w \<Longrightarrow> p \<notin> dom (part_clients F) \<Longrightarrow> clients w p = Some c \<Longrightarrow> tame F c"
  by (simp add: apart_def)

lemma framed_read_client [local_rules]:
  assumes "apart {} F w" and "p \<notin> dom (part_clients F)"
  shows "(\<And>c. relay_bev c \<notin> dom (part_bevs F) \<Longrightarrow> client_bev c \<notin> dom (part_bevs F) \<Longrightarrow> timeout_ev c \<notin> dom (part_timers F) \<Longrightarrow>
        framed0 F (f c) (f' c)) \<Longrightarrow>
      framed0 F (clients w p \<bind> f) (clients (adjoin F w) p \<bind> f')"
    and "(\<And>c. relay_bev c \<notin> dom (part_bevs F) \<Longrightarrow> client_bev c \<notin> dom (part_bevs F) \<Longrightarrow> timeout_ev c \<notin> dom (part_timers F) \<Longrightarrow>
        framed F (g c) (g' c)) \<Longrightarrow>
      framed F (clients w p \<bind> g) (clients (adjoin F w) p \<bind> g')"
  using tame_client [OF assms] by (cases "clients w p"; simp add: tame_def)+

lemmas local_simps = adjoin_helpers apart_helpers adjoin_event_new adjoin_bev_new adjoin_alloc TRANSOCKS_SHUTDOWN_def tame_def plain_def
  emit_after_calls adjoin_upd

lemma local_client_free [local_ops]:
  assumes "apart {} F w" and "p \<notin> dom (part_clients F)"
  shows "framed0 F (transocks_client_free os p w) (transocks_client_free os p (adjoin F w))"
  using assms unfolding transocks_client_free_def
  by - (assumption | rule local_rules local_ops | (simp add: local_simps; fail))+

lemma framed_value:
  "x' = x \<Longrightarrow> framed0 F (f x) (f' x) \<Longrightarrow> framed0 F (Let x f) (Let x' f')"
  by simp

lemma framed_option [local_rules]:
  "framed0 F m m' \<Longrightarrow> (\<And>x y. framed0 F (f x y) (f' x y)) \<Longrightarrow>
   framed0 F (case z of None \<Rightarrow> m | Some (x, y) \<Rightarrow> f x y) (case z of None \<Rightarrow> m' | Some (x, y) \<Rightarrow> f' x y)"
  by (cases z) auto

lemma framed_result [local_rules]: "apart {} F w \<Longrightarrow> framed F (Some (r, w)) (Some (r, adjoin F w))"
  by (simp add: framed_def)

lemmas local_reads = framed_read framed_value

subsection \<open>The handshake\<close>

lemma framed_event_new:
  assumes "apart {} F w" and "\<And>ev w'. apart {} F w' \<Longrightarrow> ev \<notin> dom (part_timers F) \<Longrightarrow> framed F (f ev w') (f' ev (adjoin F w'))"
  shows "framed F (let (ev, w) = event_new os base fd fl cb arg w in f ev w)
    (let (ev, w) = event_new os base fd fl cb arg (adjoin F w) in f' ev w)"
  using adjoin_event_new [OF assms(1), of os base fd fl cb arg] assms(2) by (cases "event_new os base fd fl cb arg w") simp

lemma local_set_timeout [local_ops]:
  assumes "apart {} F w" and "p \<notin> dom (part_clients F)"
  shows "framed F (transocks_client_set_timeout os p t cb arg w) (transocks_client_set_timeout os p t cb arg (adjoin F w))"
  using assms unfolding transocks_client_set_timeout_def
  by - (assumption | rule framed_event_new local_rules local_ops | (rule local_reads, (simp add: evbuffer_get_length_def; fail)) | (simp add: local_simps; fail))+

lemma local_await [local_ops]:
  assumes "apart {} F w" and "p \<notin> dom (part_clients F)" and "b \<notin> dom (part_bevs F)"
  shows "framed0 F (socks_await_connect_reply os b p w) (socks_await_connect_reply os b p (adjoin F w))"
  using assms unfolding socks_await_connect_reply_def
  by - (assumption | rule local_rules local_ops | (rule local_reads, (simp add: evbuffer_get_length_def; fail)) | (simp add: local_simps; fail))+

lemma local_send_request [local_ops]:
  assumes "apart {} F w" and "p \<notin> dom (part_clients F)"
  shows "framed0 F (socks_send_connect_request os p w) (socks_send_connect_request os p (adjoin F w))"
  using assms unfolding socks_send_connect_request_def
  by - (assumption | rule local_rules local_ops | (rule local_reads, (simp add: evbuffer_get_length_def; fail)) | (simp add: local_simps; fail))+

lemma local_selected_method:
  assumes "apart {} F w" and "p \<notin> dom (part_clients F)"
  shows "framed0 F (socks_on_server_selected_method_readcb os b p w) (socks_on_server_selected_method_readcb os b p (adjoin F w))"
  using assms unfolding socks_on_server_selected_method_readcb_def
  by - (assumption | rule local_rules local_ops | (rule local_reads, (simp add: evbuffer_get_length_def; fail)) | (simp add: local_simps; fail))+

lemma local_method_selection [local_ops]:
  assumes "apart {} F w" and "p \<notin> dom (part_clients F)"
  shows "framed0 F (socks_send_method_selection os p w) (socks_send_method_selection os p (adjoin F w))"
  using assms unfolding socks_send_method_selection_def Let_def
  by - (assumption | rule local_rules local_ops | (rule local_reads, (simp add: evbuffer_get_length_def; fail)) | (simp add: local_simps; fail))+

lemma local_handshake_callbacks:
  assumes "apart {} F w" and "p \<notin> dom (part_clients F)"
  shows "framed0 F (relay_onconnect_eventcb os what p w) (relay_onconnect_eventcb os what p (adjoin F w))"
    and "framed0 F (socks_handshake_stage_errcb os what p w) (socks_handshake_stage_errcb os what p (adjoin F w))"
    and "framed0 F (socks5_timeout_cb os p w) (socks5_timeout_cb os p (adjoin F w))"
  using assms unfolding relay_onconnect_eventcb_def socks_handshake_stage_errcb_def socks5_timeout_cb_def
  by - (assumption | rule local_rules local_ops | (rule local_reads, (simp add: evbuffer_get_length_def; fail)) | (simp add: local_simps; fail))+

lemma local_closeFd [local_ops]:
  assumes "apart {} F w" and "p \<notin> dom (part_clients F)"
  shows "framed0 F (connect_relay_closeFd os fd p w) (connect_relay_closeFd os fd p (adjoin F w))"
    and "b \<notin> dom (part_bevs F) \<Longrightarrow> framed0 F (connect_relay_freeBev os b fd p w) (connect_relay_freeBev os b fd p (adjoin F w))"
  using assms unfolding connect_relay_freeBev_def connect_relay_closeFd_def
  by - (assumption | rule local_rules local_ops | (rule local_reads, (simp add: evbuffer_get_length_def; fail)) | (simp add: local_simps; fail))+

text \<open>New objects are not in the part.\<close>

lemma framed_bev_new:
  assumes "apart {} F w" and "\<And>b w'. apart {} F w' \<Longrightarrow> b \<notin> dom (part_bevs F) \<Longrightarrow> framed0 F (f b w') (f' b (adjoin F w'))"
  shows "framed0 F (let (b, w) = bufferevent_socket_new os base fd w in f b w)
    (let (b, w) = bufferevent_socket_new os base fd (adjoin F w) in f' b w)"
  using adjoin_bev_new [OF assms(1), of os base fd] assms(2) by (cases "bufferevent_socket_new os base fd w") simp

lemma local_start_connect [local_ops]:
  assumes "apart {} F w" and "p \<notin> dom (part_clients F)"
  shows "framed0 F (transocks_start_connect_relay os p w) (transocks_start_connect_relay os p (adjoin F w))"
  using assms unfolding transocks_start_connect_relay_def
  by - (assumption | rule framed_bev_new local_rules local_ops | (rule local_reads, (simp add: evbuffer_get_length_def; fail)) | (simp add: local_simps; fail))+

lemma local_client_new_fail [local_ops]:
  assumes "apart {} F w" and "p \<notin> dom (part_clients F)"
  shows "framed F (client_new_fail p w) (client_new_fail p (adjoin F w))"
  using assms unfolding client_new_fail_def
  by - (assumption | rule framed_bev_new local_rules local_ops | (rule local_reads, (simp add: evbuffer_get_length_def; fail)) | (simp add: local_simps; fail))+

text \<open>The memory once a new client has been allocated and its fields have been set.\<close>

definition cleared :: "os \<Rightarrow> world \<Rightarrow> world" where
  "cleared os w = after_calls [Malloc T_client] (w\<lparr>brk := Suc (brk w), nodes := (nodes w)(brk w \<mapsto> \<lparr>lh_next = brk w, lh_prev = brk w\<rparr>),
     clients := (clients w)(brk w \<mapsto> (garbage_client os)\<lparr>global_env := NULL, client_addr := NULL, dest_addr := NULL,
       client_fd := -1, relay_fd := -1, client_bev := NULL, relay_bev := NULL, timeout_ev := NULL, user_arg := NULL,
       client_shutdown_read := False, client_shutdown_write := False, relay_shutdown_read := False, relay_shutdown_write := False,
       client_state := client_NEW\<rparr>)\<rparr>)"

lemma client_new_cleared:
  assumes "os_alloc os (hist w) (Malloc T_client)" and "0 < brk w"
  shows "transocks_client_new os e w = do {
       let (a, w') = malloc_sockaddr os (cleared os w);
       w' \<leftarrow> on_client (brk w) (\<lambda>c. c\<lparr>client_addr := a\<rparr>) w';
       let (d, w') = malloc_sockaddr os w';
       w' \<leftarrow> on_client (brk w) (\<lambda>c. c\<lparr>dest_addr := d\<rparr>) w';
       if a = NULL \<or> d = NULL then client_new_fail (brk w) w'
       else do {
         w' \<leftarrow> on_client (brk w) (\<lambda>c. c\<lparr>global_env := e\<rparr>) w';
         Some (brk w, w')
       }
     }"
  using assms by (simp add: transocks_client_new_def malloc_client_def alloc_simp on_nodes_def INIT_LIST_HEAD_def set_next_def set_prev_def
      on_client_simp cleared_def)

lemma local_cleared:
  assumes "apart {} F w"
  shows "apart {} F (cleared os w)" and "cleared os (adjoin F w) = adjoin F (cleared os w)"
proof -
  have "brk w \<notin> dom (part_clients F)" "NULL \<notin> dom (part_bevs F)" using apart_fresh [OF assms] by simp_all
  then show "apart {} F (cleared os w)"
    using apart_grow [OF assms] by (auto simp: apart_def cleared_def tame_def map_le_def)
qed (simp add: cleared_def adjoin_upd)

lemma yields_let_read: "(\<And>a w. yields (f a w) Q) \<Longrightarrow> yields (let (a, w) = X in f a w) Q"
  by (cases X) simp

lemma client_new_address: "yields (transocks_client_new os e w) (\<lambda>(p, w'). p = NULL \<or> p = brk w)"
proof -
  obtain p v where m: "malloc_client os w = (p, v)" "p = NULL \<or> p = brk w"
    by (cases "malloc_client os w") (auto simp: malloc_client_def alloc_simp split: if_splits)
  show ?thesis
    unfolding transocks_client_new_def client_new_fail_def m(1) Let_def [of "(p, v)"] prod.case
    using m(2) by - (rule yields_if yields_bind_read yields_let_read | (auto; fail))+
qed

lemma local_client_new:
  assumes A: "apart {} F w"
  shows "framed F (transocks_client_new os e w) (transocks_client_new os e (adjoin F w))"
proof (cases "os_alloc os (hist w) (Malloc T_client)")
  case True
  note fresh = apart_fresh(1) [OF A] and cl = local_cleared [OF A, of os]
  show ?thesis
    using True A fresh cl(1) unfolding client_new_cleared [OF True apart_brk [OF A]] 
      client_new_cleared [of os "adjoin F w" e, unfolded adjoin_simps, OF True apart_brk [OF A]] cl(2)
    by - (assumption | rule framed_bev_new local_rules local_ops | (rule local_reads, (simp add: evbuffer_get_length_def; fail)) | (simp add: local_simps; fail))+
next
  case False
  then have eq: "transocks_client_new os e v = client_new_fail NULL (after_calls [Malloc T_client] v)" if "hist v = hist w" for v
    using that by (simp add: transocks_client_new_def malloc_client_def alloc_simp)
  show ?thesis
    using local_client_new_fail [of F "after_calls [Malloc T_client] w" NULL] A apart_fresh(3) [OF A]
    by (simp add: eq adjoin_upd)
qed

lemma framed_client_new:
  assumes A: "apart {} F w"
    and step: "\<And>p w'. apart {} F w' \<Longrightarrow> p \<notin> dom (part_clients F) \<Longrightarrow> framed0 F (f p w') (f' p (adjoin F w'))"
  shows "framed0 F (transocks_client_new os e w \<bind> (\<lambda>(p, w). f p w)) (transocks_client_new os e (adjoin F w) \<bind> (\<lambda>(p, w). f' p w))"
proof (cases "transocks_client_new os e w")
  case (Some x)
  obtain p w' where x: "x = (p, w')" by (cases x)
  have "apart {} F w'" "transocks_client_new os e (adjoin F w) = Some (p, adjoin F w')"
    using local_client_new [OF A, of os e] Some x by (simp_all add: framed_def)
  moreover have "p \<notin> dom (part_clients F)" using yieldsD [OF client_new_address Some] x apart_fresh [OF A] by auto
  ultimately show ?thesis using step Some x by simp
qed simp

lemma local_freeFd [local_ops]:
  "apart {} F w \<Longrightarrow> framed0 F (listener_freeFd fd w) (listener_freeFd fd (adjoin F w))"
  by (simp add: listener_freeFd_def framed0_def adjoin_helpers apart_helpers)

lemma local_listener_fails [local_ops]:
  assumes "apart {} F w" and "p \<notin> dom (part_clients F)"
  shows "framed0 F (listener_freeClient os p fd w) (listener_freeClient os p fd (adjoin F w))"
    and "b \<notin> dom (part_bevs F) \<Longrightarrow> framed0 F (listener_freeBev os b p fd w) (listener_freeBev os b p fd (adjoin F w))"
  using assms unfolding listener_freeBev_def listener_freeClient_def
  by - (assumption | rule local_rules local_ops)+

lemma local_listener_cb:
  assumes "apart {} F w"
  shows "framed0 F (listener_cb os e w) (listener_cb os e (adjoin F w))"
  using assms unfolding listener_cb_def
  by - (assumption | rule framed_bev_new framed_client_new local_rules local_ops | (rule local_reads, (simp add: evbuffer_get_length_def; fail)) | (simp add: local_simps; fail))+

end

