(* ===== verification/Splice_Start.thy ===== *)
theory Splice_Start
  imports Socks5
begin

text \<open>
  Starting the splicing pump (\<^verbatim>\<open>transocks_splicepump_start_pump\<close> of \<^verbatim>\<open>src/src/splicepump.c\<close>): every outcome of the
  calls it makes is followed to the end, and what a caller finds after a failure.
\<close>

subsection \<open>The pump under construction\<close>

definition attached :: "addr \<Rightarrow> transocks_client \<Rightarrow> transocks_splicepump \<Rightarrow> transocks_splicepipe \<Rightarrow> transocks_splicepipe \<Rightarrow>
  addr \<Rightarrow> addr list \<Rightarrow> addr list \<Rightarrow> world \<Rightarrow> bool" where
  "attached p c s ip op head us vs w \<longleftrightarrow> splice_ok p c s ip op w \<and> dlist (nodes w) head (us @ p # vs)"

definition splice_reg :: "addr \<Rightarrow> bool \<Rightarrow> int \<Rightarrow> callback \<Rightarrow> ev_reg" where
  "splice_reg p added fd cb = \<lparr>ev_fd = fd, ev_flags = EV_READ_PERSIST, ev_cb = cb, ev_arg = p, ev_added = added\<rparr>"

text \<open>
  A running pump: each socket is watched for input by the callback that fills a pipe, and the reading end of each pipe by
  the callback that empties it.
\<close>

definition splicing :: "addr \<Rightarrow> transocks_client \<Rightarrow> transocks_splicepump \<Rightarrow> transocks_splicepipe \<Rightarrow> transocks_splicepipe \<Rightarrow>
  world \<Rightarrow> bool" where
  "splicing p c s ip op w \<longleftrightarrow>
     events w (client_read_ev s) = Some (splice_reg p True (client_fd c) Splicepump_client_readcb)
     \<and> events w (client_write_ev s) = Some (splice_reg p True (pipe_readfd ip) Splicepump_client_writecb)
     \<and> events w (relay_read_ev s) = Some (splice_reg p True (relay_fd c) Splicepump_relay_readcb)
     \<and> events w (relay_write_ev s) = Some (splice_reg p True (pipe_readfd op) Splicepump_relay_writecb)"

text \<open>A system that grants everything the start asks for.\<close>

definition splice_served :: "os \<Rightarrow> bool" where
  "splice_served os \<longleftrightarrow> (\<forall>h c. os_alloc os h c) \<and> (\<forall>h. fst (os_pipe os h) \<ge> 0 \<and> snd (os_pipe os h) \<ge> 0)
     \<and> (\<forall>h. os_ret os h Pipe \<noteq> -1 \<and> (\<forall>fd. os_ret os h (Fcntl_getfl fd) \<noteq> -1 \<and> os_ret os h (Fcntl_getpipe_sz fd) \<noteq> -1
       \<and> (\<forall>fl. os_ret os h (Fcntl_setfl fd fl) = 0)) \<and> (\<forall>e t. os_ret os h (Event_add e t) = 0))"

text \<open>What the caller finds: a running pump, or no client.\<close>

definition start_result :: "os \<Rightarrow> addr \<Rightarrow> transocks_client \<Rightarrow> addr \<Rightarrow> addr list \<Rightarrow> addr list \<Rightarrow> world \<Rightarrow> int \<times> world \<Rightarrow> bool" where
  "start_result os p c head us vs w res \<longleftrightarrow> (case res of (r, w') \<Rightarrow>
     r = 0 \<and> (\<exists>a s ip op. attached p (c\<lparr>user_arg := a\<rparr>) s ip op head us vs w' \<and> splicing p c s ip op w'
       \<and> clients w' = (clients w)(p \<mapsto> c\<lparr>user_arg := a\<rparr>))
     \<or> r = -1 \<and> \<not> splice_served os \<and> clients w' = (clients w)(p := None) \<and> dlist (nodes w') head (us @ vs))"

lemma attached_calls [simp]: "attached p c s ip op head us vs (after_calls cs w) = attached p c s ip op head us vs w"
  by (simp add: attached_def splice_ok_def client_ok_def)

lemma attachedD:
  assumes "attached p c s ip op head us vs w"
  shows "p \<noteq> NULL" "clients w p = Some c" "user_arg c \<noteq> NULL" "splicepumps w (user_arg c) = Some s" "wf_world w" "0 < brk w"
    "splicepipes w (inbound_pipe s) = Some ip" "splicepipes w (outbound_pipe s) = Some op"
    "inbound_pipe s \<noteq> outbound_pipe s"
  using assms by (auto simp: attached_def splice_ok_def client_ok_def wf_world_def)

lemma start_fail_attached:
  assumes "attached p c s ip op head us vs w"
  shows "holds (splicepump_start_fail os p w) (\<lambda>(r, w'). r = -1 \<and> clients w' = (clients w)(p := None) \<and> dlist (nodes w') head (us @ vs))"
proof -
  have d: "dlist (nodes w) head (us @ p # vs)" and S: "splice_ok p c s ip op w" using assms by (simp_all add: attached_def)
  obtain h' where h': "list_del p (nodes w) = Some h'" "dlist h' head (us @ vs)" using list_del_law [OF d] by blast
  have "dlist (h'(p := None)) head (us @ vs)" using dlist_distinct [OF d] by (auto intro: dlist_agree [OF h'(2)])
  with splicepump_free_run [OF S h'(1), of os] show ?thesis
    using attachedD(1) [OF assms] by (simp add: splicepump_start_fail_def TRANSOCKS_FREE_def client_removed_def pump_removed_def)
qed

lemma start_failed:
  assumes "attached p c s ip op head us vs w" and "clients w = (clients w0)(p \<mapsto> c)" and "\<not> splice_served os"
  shows "holds (splicepump_start_fail os p w) (start_result os p c0 head us vs w0)"
  using start_fail_attached [OF assms(1), of os] by (rule holds_mono) (auto simp: start_result_def assms(2,3))

subsection \<open>The steps\<close>

text \<open>Adding an event of the pump.\<close>

lemma attached_events:
  assumes "attached p c s ip op head us vs w" and "dom E = dom (events w)"
  shows "attached p c s ip op head us vs (w\<lparr>events := E\<rparr>)"
  using assms by (simp add: attached_def splice_ok_def client_ok_def wf_world_def null_or_live_def)

lemma event_add_attached:
  assumes A: "attached p c s ip op head us vs w" "clients w = (clients w0)(p \<mapsto> c)" and e: "events w e = Some (splice_reg p False fd cb)"
    and step: "\<And>w'. attached p c s ip op head us vs w' \<Longrightarrow> clients w' = (clients w0)(p \<mapsto> c) \<Longrightarrow>
      splicepumps w' = splicepumps w \<Longrightarrow> events w' = (events w)(e \<mapsto> splice_reg p True fd cb) \<Longrightarrow>
      holds (f w') (start_result os p c0 head us vs w0)"
  shows "holds (do { (r, w) \<leftarrow> event_add os e None w; if r \<noteq> 0 then splicepump_start_fail os p w else f w }) (start_result os p c0 head us vs w0)"
  using e start_failed [of p c s ip op head us vs "after_calls [Event_add e None] w" w0 os c0] A
    step [of "(after_calls [Event_add e None] w)\<lparr>events := (events w)(e \<mapsto> splice_reg p True fd cb)\<rparr>"]
    attached_events [of p c s ip op head us vs "after_calls [Event_add e None] w" "(events w)(e \<mapsto> splice_reg p True fd cb)"]
  by (cases "splice_served os") (simp_all add: event_add_def sys_after_calls splice_reg_def insert_absorb domI splice_served_def)

lemma add_events_attached:
  assumes A: "attached p (c\<lparr>user_arg := a\<rparr>) s ip op head us vs w" "clients w = (clients w0)(p \<mapsto> c\<lparr>user_arg := a\<rparr>)"
    and E: "events w (client_read_ev s) = Some (splice_reg p False (client_fd c) Splicepump_client_readcb)"
      "events w (client_write_ev s) = Some (splice_reg p False (pipe_readfd ip) Splicepump_client_writecb)"
      "events w (relay_read_ev s) = Some (splice_reg p False (relay_fd c) Splicepump_relay_readcb)"
      "events w (relay_write_ev s) = Some (splice_reg p False (pipe_readfd op) Splicepump_relay_writecb)"
  shows "holds (splicepump_add_events os p a w) (start_result os p c head us vs w0)"
proof -
  have s: "splicepumps w a = Some s" using attachedD(4) [OF A(1)] by simp
  have ne: "client_write_ev s \<noteq> client_read_ev s" "relay_read_ev s \<noteq> client_read_ev s" "relay_read_ev s \<noteq> client_write_ev s"
    "relay_write_ev s \<noteq> client_read_ev s" "relay_write_ev s \<noteq> client_write_ev s" "relay_write_ev s \<noteq> relay_read_ev s"
    using E by (auto simp: splice_reg_def)
  show ?thesis
    unfolding splicepump_add_events_def s Option.bind.simps
    apply (rule event_add_attached [OF A E(1)])
    apply (rule event_add_attached, assumption, assumption, simp add: E ne)
    apply (rule event_add_attached, assumption, assumption, simp add: E ne)
    apply (rule event_add_attached, assumption, assumption, simp add: E ne)
    apply (unfold start_result_def holds_Some prod.case, rule disjI1, rule conjI, rule refl, intro exI conjI, assumption)
    apply (simp_all add: splicing_def E ne ne [symmetric])
    done
qed

text \<open>Creating an event and storing it in the pump.\<close>

lemma null_or_live_new: "h e = None \<Longrightarrow> e \<noteq> NULL \<Longrightarrow> null_or_live (h(e \<mapsto> g)) a = (a = e \<or> null_or_live h a)"
  by (auto simp: null_or_live_def)

definition event_stored :: "addr \<Rightarrow> ev_reg \<Rightarrow> transocks_splicepump \<Rightarrow> world \<Rightarrow> world" where
  "event_stored a g s w = w\<lparr>brk := Suc (brk w), events := (events w)(brk w \<mapsto> g), splicepumps := (splicepumps w)(a \<mapsto> s)\<rparr>"

lemma wf_event_stored:
  assumes "wf_world w" and "splicepumps w a = Some s"
  shows "wf_world (event_stored a g s' w)"
proof -
  have "a \<in> {0<..<brk w}" using assms by (auto simp: wf_world_def)
  then show ?thesis using assms(1) by (auto simp: wf_world_def event_stored_def subset_iff less_Suc_eq)
qed

definition pump_events :: "transocks_splicepump \<Rightarrow> addr list" where
  "pump_events s = [client_read_ev s, client_write_ev s, relay_read_ev s, relay_write_ev s]"

lemma attached_pump_events:
  "attached p c s ip op head us vs w \<longleftrightarrow> wf_world w \<and> client_ok w p c \<and> user_arg c \<noteq> NULL
     \<and> splicepumps w (user_arg c) = Some s \<and> inbound_pipe s \<noteq> NULL \<and> outbound_pipe s \<noteq> NULL \<and> inbound_pipe s \<noteq> outbound_pipe s
     \<and> splicepipes w (inbound_pipe s) = Some ip \<and> splicepipes w (outbound_pipe s) = Some op
     \<and> (\<forall>e \<in> set (pump_events s). null_or_live (events w) e)
     \<and> distinct (filter (\<lambda>x. x \<noteq> NULL) (pump_events s @ [timeout_ev c])) \<and> dlist (nodes w) head (us @ p # vs)"
  unfolding attached_def splice_ok_def pump_events_def by (simp add: conj_ac)

lemma attached_event_stored:
  assumes A: "attached p c s ip op head us vs w"
    and s': "pump_events s = xs @ NULL # ys" "pump_events s' = xs @ brk w # ys" "inbound_pipe s' = inbound_pipe s" "outbound_pipe s' = outbound_pipe s"
  shows "attached p c s' ip op head us vs (event_stored (user_arg c) g s' w)"
proof -
  note wf = attachedD(5) [OF A]
  have fr: "events w (brk w) = None" "brk w \<noteq> NULL" using wf attachedD(6) [OF A] by simp_all
  have "\<forall>e \<in> set xs \<union> set ys \<union> {timeout_ev c}. null_or_live (events w) e"
    using A s'(1) by (simp add: attached_pump_events client_ok_def)
  moreover have "\<not> null_or_live (events w) (brk w)" using fr by (auto simp: null_or_live_def)
  ultimately have "brk w \<notin> set xs \<union> set ys \<union> {timeout_ev c}" by blast
  moreover have "client_ok (event_stored (user_arg c) g s' w) p c"
    using A fr by (simp add: attached_pump_events client_ok_def event_stored_def null_or_live_new)
  ultimately show ?thesis
    using A fr s' wf_event_stored [OF wf attachedD(4) [OF A], of g s'] unfolding attached_pump_events s'(1,2)
    by (simp add: event_stored_def null_or_live_new)
qed

lemma event_new_attached:
  assumes A: "attached p c s ip op head us vs w" "clients w = (clients w0)(p \<mapsto> c)" "user_arg c = a"
    and s': "pump_events s = xs @ NULL # ys" "\<And>e. pump_events (u e s) = xs @ e # ys" "\<And>e. inbound_pipe (u e s) = inbound_pipe s"
      "\<And>e. outbound_pipe (u e s) = outbound_pipe s" "u NULL s = s"
    and step: "\<And>w'. attached p c (u (brk w) s) ip op head us vs w' \<Longrightarrow> clients w' = (clients w0)(p \<mapsto> c) \<Longrightarrow>
      brk w' = Suc (brk w) \<Longrightarrow> events w' = (events w)(brk w \<mapsto> splice_reg p False fd cb) \<Longrightarrow>
      holds (f w') (start_result os p c0 head us vs w0)"
  shows "holds (do { let (ev, w) = event_new os base fd EV_READ_PERSIST cb p w; w \<leftarrow> on_splicepump a (u ev) w;
      if ev = NULL then splicepump_start_fail os p w else f w }) (start_result os p c0 head us vs w0)"
proof (cases "os_alloc os (hist w) (Event_new base fd EV_READ_PERSIST cb p)")
  case True
  define w' where "w' = after_calls [Event_new base fd EV_READ_PERSIST cb p] (event_stored a (splice_reg p False fd cb) (u (brk w) s) w)"
  have "attached p c (u (brk w) s) ip op head us vs w'"
    using attached_event_stored [OF A(1) s'(1,2) s'(3,4)] A(3) by (simp add: w'_def)
  then have "holds (f w') (start_result os p c0 head us vs w0)"
    by (rule step) (simp_all add: w'_def event_stored_def A(2))
  with True attachedD(4,6) [OF A(1)] A(3) show ?thesis
    by (simp add: event_new_def alloc_def on_splicepump_def emit_after_calls w'_def event_stored_def splice_reg_def)
next
  case False
  then have "\<not> splice_served os" by (auto simp: splice_served_def)
  then show ?thesis
    using False attachedD(4) [OF A(1)] A(3) s'(5) start_failed [of p c s ip op head us vs "after_calls [Event_new base fd EV_READ_PERSIST cb p] w" w0 os c0] A(1,2)
    by (simp add: event_new_def alloc_def on_splicepump_def emit_after_calls fun_upd_idem)
qed

lemma new_events_attached:
  assumes A: "attached p (c\<lparr>user_arg := a\<rparr>) s ip op head us vs w" "clients w = (clients w0)(p \<mapsto> c\<lparr>user_arg := a\<rparr>)"
    and s: "pump_events s = [NULL, NULL, NULL, NULL]"
  shows "holds (splicepump_new_events os base p a w) (start_result os p c head us vs w0)"
proof -
  note live = attachedD(2,4,7,8) [OF A(1), simplified]
  note s0 = s [unfolded pump_events_def, simplified]
  have fr: "brk w \<noteq> NULL" using attachedD(6) [OF A(1)] by simp
  show ?thesis
    unfolding splicepump_new_events_def live Option.bind.simps
    apply (rule event_new_attached [where xs = "[]" and ys = "[NULL, NULL, NULL]", OF A])
    apply (simp_all add: pump_events_def s0)[6]
    apply (rule event_new_attached [where xs = "[brk w]" and ys = "[NULL, NULL]"], assumption, assumption)
    apply (simp_all add: pump_events_def s0)[6]
    apply (rule event_new_attached [where xs = "[brk w, Suc (brk w)]" and ys = "[NULL]"], assumption, assumption)
    apply (simp_all add: pump_events_def s0)[6]
    apply (rule event_new_attached [where xs = "[brk w, Suc (brk w), Suc (Suc (brk w))]" and ys = "[]"], assumption, assumption)
    apply (simp_all add: pump_events_def s0)[6]
    apply (rule add_events_attached, assumption, assumption)
    apply (simp_all)
    done
qed

text \<open>Opening the pipes.\<close>

lemma holds_createpipe:
  assumes "\<And>cs. \<not> splice_served os \<Longrightarrow> holds (m (after_calls cs w)) Q"
    and "\<And>r x cs. r \<ge> 0 \<Longrightarrow> holds (f r x (after_calls cs w)) Q"
  shows "holds (let (z, w') = createpipe os w in case z of None \<Rightarrow> m w' | Some (r, x) \<Rightarrow> f r x w') Q"
proof -
  obtain cs where cs: "snd (createpipe os w) = after_calls cs w" using only_calls_createpipe [of w os] by (auto simp: only_calls_def)
  have "fst (createpipe os w) = None \<Longrightarrow> \<not> splice_served os" "fst (createpipe os w) = Some (r, x) \<Longrightarrow> r \<ge> 0" for r x
    by (auto simp: createpipe_def setnonblocking_def splice_served_def sys_def Let_def split: prod.splits if_splits)
      (rule exI [of _ "hist w"], simp)+
  with cs assms show ?thesis by (cases "createpipe os w") (auto split: option.splits)
qed

lemma holds_getpipesize:
  assumes "fd \<ge> 0" and "\<And>cs. \<not> splice_served os \<Longrightarrow> holds (m (after_calls cs w)) Q" and "\<And>r cs. holds (f r (after_calls cs w)) Q"
  shows "holds (let (r, w') = getpipesize os fd w in if r = -1 then m w' else f r w') Q"
  using assms by (cases "splice_served os") (simp_all add: getpipesize_def Let_def sys_after_calls splice_served_def)

lemma holds_if_split: "(b \<Longrightarrow> holds m Q) \<Longrightarrow> (\<not> b \<Longrightarrow> holds m' Q) \<Longrightarrow> holds (if b then m else m') Q"
  by simp

lemma attached_pipes:
  assumes "attached p c s ip op head us vs w"
  shows "attached p c s (u ip) op head us vs (w\<lparr>splicepipes := (splicepipes w)(inbound_pipe s \<mapsto> u ip)\<rparr>)"
    and "attached p c s ip (u op) head us vs (w\<lparr>splicepipes := (splicepipes w)(outbound_pipe s \<mapsto> u op)\<rparr>)"
  using assms by (simp_all add: attached_pump_events client_ok_def wf_world_def domI insert_absorb)

lemma on_pipe_attached:
  assumes "attached p c s ip op head us vs w" "clients w = (clients w0)(p \<mapsto> c)"
  shows "(\<And>w'. attached p c s (u ip) op head us vs w' \<Longrightarrow> clients w' = (clients w0)(p \<mapsto> c) \<Longrightarrow> holds (f w') Q) \<Longrightarrow>
      holds (on_splicepipe (inbound_pipe s) u w \<bind> f) Q"
    and "(\<And>w'. attached p c s ip (u op) head us vs w' \<Longrightarrow> clients w' = (clients w0)(p \<mapsto> c) \<Longrightarrow> holds (f w') Q) \<Longrightarrow>
      holds (on_splicepipe (outbound_pipe s) u w \<bind> f) Q"
  using attachedD(7,8) [OF assms(1)] attached_pipes [OF assms(1), of u] assms(2) by (simp_all add: on_splicepipe_def)

lemma open_pipes_attached:
  assumes A: "attached p (c\<lparr>user_arg := a\<rparr>) s ip op head us vs w" "clients w = (clients w0)(p \<mapsto> c\<lparr>user_arg := a\<rparr>)"
    and s: "pump_events s = [NULL, NULL, NULL, NULL]"
  shows "holds (splicepump_open_pipes os base p a w) (start_result os p c head us vs w0)"
proof -
  have s': "splicepumps w a = Some s" using attachedD(4) [OF A(1)] by simp
  have fails: "holds (splicepump_start_fail os p (after_calls cs v)) (start_result os p c head us vs w0)"
    if "attached p (c\<lparr>user_arg := a\<rparr>) s ip op head us vs v" "clients v = (clients w0)(p \<mapsto> c\<lparr>user_arg := a\<rparr>)" "\<not> splice_served os" for ip op v cs
    using that by (intro start_failed [where c = "c\<lparr>user_arg := a\<rparr>"]) simp_all
  have inbound: "holds (on_splicepipe (inbound_pipe s) u (after_calls cs v) \<bind> f) Q"
    if "attached p (c\<lparr>user_arg := a\<rparr>) s ip op head us vs v" "clients v = (clients w0)(p \<mapsto> c\<lparr>user_arg := a\<rparr>)"
      "\<And>w'. attached p (c\<lparr>user_arg := a\<rparr>) s (u ip) op head us vs w' \<Longrightarrow> clients w' = (clients w0)(p \<mapsto> c\<lparr>user_arg := a\<rparr>) \<Longrightarrow> holds (f w') Q"
    for u cs ip op v f Q using that by (intro on_pipe_attached(1)) simp_all
  have outbound: "holds (on_splicepipe (outbound_pipe s) u (after_calls cs v) \<bind> f) Q"
    if "attached p (c\<lparr>user_arg := a\<rparr>) s ip op head us vs v" "clients v = (clients w0)(p \<mapsto> c\<lparr>user_arg := a\<rparr>)"
      "\<And>w'. attached p (c\<lparr>user_arg := a\<rparr>) s ip (u op) head us vs w' \<Longrightarrow> clients w' = (clients w0)(p \<mapsto> c\<lparr>user_arg := a\<rparr>) \<Longrightarrow> holds (f w') Q"
    for u cs ip op v f Q using that by (intro on_pipe_attached(2)) simp_all
  show ?thesis
    unfolding splicepump_open_pipes_def s' Option.bind.simps
    apply (rule holds_createpipe, erule fails [OF A])
    apply (rule inbound [OF A])
    apply (rule holds_createpipe, rule fails, assumption, assumption, assumption)
    apply (rule outbound, assumption, assumption)
    apply (rule holds_getpipesize, assumption, rule fails, assumption, assumption, assumption)
    apply (rule inbound, assumption, assumption)
    apply (rule holds_getpipesize, assumption, rule fails, assumption, assumption, assumption)
    apply (rule outbound, assumption, assumption)
    apply (rule new_events_attached [OF _ _ s], assumption, assumption)
    done
qed

subsection \<open>The whole start\<close>

text \<open>Some call that the start relies on is refused.\<close>

definition splice_refused :: "os \<Rightarrow> bool" where
  "splice_refused os \<longleftrightarrow> (\<exists>h. \<not> os_alloc os h (Malloc T_splicepump) \<or> \<not> os_alloc os h (Malloc T_splicepipe)
     \<or> (\<exists>b. os_ret os h (Bufferevent_disable b EV_READ_WRITE) \<noteq> 0))"

text \<open>The outcome without a pump: the client is as it was.\<close>

definition not_started :: "addr \<Rightarrow> transocks_client \<Rightarrow> addr \<Rightarrow> addr list \<Rightarrow> addr list \<Rightarrow> world \<Rightarrow> int \<times> world \<Rightarrow> bool" where
  "not_started p c head us vs w res \<longleftrightarrow> (case res of (r, w') \<Rightarrow> r = -1 \<and> clients w' = clients w \<and> pump_ok p c head us vs w')"

lemma start_fail_detached:
  assumes "pump_ok p c head us vs w" and "user_arg c = NULL" and "clients w = clients w0"
  shows "holds (splicepump_start_fail os p w) (not_started p c head us vs w0)"
  using assms pump_okD(1,2) [OF assms(1)]
  by (simp add: splicepump_start_fail_def TRANSOCKS_FREE_def transocks_splicepump_free_def not_started_def)

definition blank_pipe :: "os \<Rightarrow> transocks_splicepipe" where
  "blank_pipe os = \<lparr>pipe_readfd = -1, pipe_writefd = -1, data_in_pipe = 0, capacity = of_nat (os_garbage os)\<rparr>"

lemma wf_world_grow:
  assumes "wf_world w" and "brk w \<le> n" and "dom P \<subseteq> {0<..<n}" and "dom Q \<subseteq> {0<..<n}"
  shows "wf_world (w\<lparr>brk := n, splicepipes := Q, splicepumps := P\<rparr>)"
  using assms by (auto simp: wf_world_def subset_iff intro: less_le_trans)

lemma pump_ok_grow:
  assumes P: "pump_ok p c head us vs w"
  shows "pump_ok p c head us vs (w\<lparr>brk := Suc (brk w), splicepumps := (splicepumps w)(brk w \<mapsto> s)\<rparr>)"
    and "pump_ok p c head us vs (w\<lparr>brk := Suc (Suc (brk w)), splicepipes := (splicepipes w)(Suc (brk w) \<mapsto> q),
        splicepumps := (splicepumps w)(brk w \<mapsto> s)\<rparr>)"
proof -
  have D: "wf_world w" "dom (splicepumps w) \<subseteq> {0<..<brk w}" "dom (splicepipes w) \<subseteq> {0<..<brk w}" "0 < brk w"
    using pump_okD(5) [OF P] by (simp_all add: wf_world_def)
  have "wf_world (w\<lparr>brk := Suc (brk w), splicepumps := (splicepumps w)(brk w \<mapsto> s)\<rparr>)"
    using wf_world_grow [OF D(1), of "Suc (brk w)" "(splicepumps w)(brk w \<mapsto> s)" "splicepipes w"] D(2-4)
    by (auto simp: subset_iff less_Suc_eq)
  moreover have "wf_world (w\<lparr>brk := Suc (Suc (brk w)), splicepipes := (splicepipes w)(Suc (brk w) \<mapsto> q),
      splicepumps := (splicepumps w)(brk w \<mapsto> s)\<rparr>)"
    using D(2-4) by (intro wf_world_grow [OF D(1)]) (auto simp: subset_iff less_Suc_eq)
  ultimately show "pump_ok p c head us vs (w\<lparr>brk := Suc (brk w), splicepumps := (splicepumps w)(brk w \<mapsto> s)\<rparr>)"
    and "pump_ok p c head us vs (w\<lparr>brk := Suc (Suc (brk w)), splicepipes := (splicepipes w)(Suc (brk w) \<mapsto> q),
        splicepumps := (splicepumps w)(brk w \<mapsto> s)\<rparr>)"
    using P by (simp_all add: pump_ok_def client_ok_def)
qed

definition blank_pump :: "addr \<Rightarrow> transocks_splicepump" where
  "blank_pump a = \<lparr>client_read_ev = NULL, client_write_ev = NULL, relay_read_ev = NULL, relay_write_ev = NULL,
     inbound_pipe = Suc a, outbound_pipe = Suc (Suc a)\<rparr>"

lemma attached_blank:
  assumes P: "pump_ok p c head us vs w" and q: "q = blank_pipe os" and s: "s = blank_pump (brk w)"
  shows "attached p (c\<lparr>user_arg := brk w\<rparr>) s q q head us vs
    (w\<lparr>brk := Suc (Suc (Suc (brk w))), splicepumps := (splicepumps w)(brk w \<mapsto> s),
      splicepipes := (splicepipes w)(Suc (brk w) \<mapsto> q, Suc (Suc (brk w)) \<mapsto> q), clients := (clients w)(p \<mapsto> c\<lparr>user_arg := brk w\<rparr>)\<rparr>)"
proof -
  have D: "wf_world w" "dom (splicepumps w) \<subseteq> {0<..<brk w}" "dom (splicepipes w) \<subseteq> {0<..<brk w}" "0 < brk w"
    using pump_okD(5) [OF P] by (simp_all add: wf_world_def)
  have "wf_world (w\<lparr>brk := Suc (Suc (Suc (brk w))), splicepipes := (splicepipes w)(Suc (brk w) \<mapsto> q, Suc (Suc (brk w)) \<mapsto> q),
      splicepumps := (splicepumps w)(brk w \<mapsto> s)\<rparr>)"
    using D(2-4) by (intro wf_world_grow [OF D(1)]) (auto simp: subset_iff less_Suc_eq)
  then have "wf_world (w\<lparr>brk := Suc (Suc (Suc (brk w))), splicepumps := (splicepumps w)(brk w \<mapsto> s),
      splicepipes := (splicepipes w)(Suc (brk w) \<mapsto> q, Suc (Suc (brk w)) \<mapsto> q), clients := (clients w)(p \<mapsto> c\<lparr>user_arg := brk w\<rparr>)\<rparr>)"
    using pump_okD(1) [OF P] D(1) by (auto simp: wf_world_def)
  moreover have "null_or_live (events w) NULL" by (simp add: null_or_live_def)
  ultimately show ?thesis using P D(4)
    by (simp add: attached_pump_events pump_ok_def client_ok_def pump_events_def s blank_pump_def)
qed

lemma splicepump_new_outcome:
  assumes P: "pump_ok p c head us vs w" and u: "user_arg c = NULL"
  shows "holds (transocks_splicepump_new os p w) (\<lambda>(a, w'). envs w' = envs w \<and>
    (if a = NULL then splice_refused os \<and> pump_ok p c head us vs w' \<and> clients w' = clients w
     else attached p (c\<lparr>user_arg := a\<rparr>) (blank_pump a) (blank_pipe os) (blank_pipe os) head us vs w'
       \<and> clients w' = (clients w)(p \<mapsto> c\<lparr>user_arg := a\<rparr>)))"
proof -
  note D = pump_okD [OF P]
  have b: "0 < brk w" using D(5) by (simp add: wf_world_def)
  have R: "\<not> os_alloc os h (Malloc T_splicepump) \<Longrightarrow> splice_refused os" "\<not> os_alloc os h (Malloc T_splicepipe) \<Longrightarrow> splice_refused os" for h
    by (auto simp: splice_refused_def)
  show ?thesis
    using b D(1) R P pump_ok_grow [OF P] attached_blank [OF P refl refl, of os]
    by (auto simp: transocks_splicepump_new_def malloc_splicepump_def malloc_splicepipe_def alloc_def Let_def emit_after_calls
       on_splicepump_def on_splicepipe_def on_client_def blank_pump_def blank_pipe_def)
qed

lemma bev_op_runs:
  assumes "pump_ok p c head us vs w" and "b = client_bev c \<or> b = relay_bev c"
  shows "holds (bufferevent_disable os b fl w) (\<lambda>(r, w'). (r = os_ret os (hist w) (Bufferevent_disable b fl))
      \<and> pump_ok p c head us vs w' \<and> clients w' = clients w \<and> envs w' = envs w \<and> pumpMethodImpl w' = pumpMethodImpl w)"
    and "holds (bufferevent_setfd os b fd w) (\<lambda>(r, w'). pump_ok p c head us vs w' \<and> clients w' = clients w \<and> envs w' = envs w \<and> pumpMethodImpl w' = pumpMethodImpl w)"
proof -
  obtain r where "bevs w b = Some r" using pump_okD(3,4) [OF assms(1)] assms(2) by blast
  then show "holds (bufferevent_disable os b fl w) (\<lambda>(r, w'). (r = os_ret os (hist w) (Bufferevent_disable b fl))
      \<and> pump_ok p c head us vs w' \<and> clients w' = clients w \<and> envs w' = envs w \<and> pumpMethodImpl w' = pumpMethodImpl w)"
    and "holds (bufferevent_setfd os b fd w) (\<lambda>(r, w'). pump_ok p c head us vs w' \<and> clients w' = clients w \<and> envs w' = envs w \<and> pumpMethodImpl w' = pumpMethodImpl w)"
    using assms(1) pump_ok_bevs [of "(bevs w)(b \<mapsto> _)" "after_calls _ w"]
    by (simp_all add: bufferevent_disable_def bufferevent_setfd_def on_bev_def sys_after_calls insert_absorb domI)
qed

lemma holds_pairI: "holds m R \<Longrightarrow> (\<And>x y. R (x, y) \<Longrightarrow> holds (f x y) Q) \<Longrightarrow> holds (m \<bind> (\<lambda>(x, y). f x y)) Q"
  by (cases m) auto

lemma splice_start_outcome:
  assumes P: "pump_ok p c head us vs w" and u: "user_arg c = NULL" and env: "envs w (global_env c) = Some env"
  shows "holds (transocks_splicepump_start_pump os p w)
    (\<lambda>res. start_result os p c head us vs w res \<or> splice_refused os \<and> not_started p c head us vs w res)"
proof -
  let ?Q = "\<lambda>res. start_result os p c head us vs w res \<or> splice_refused os \<and> not_started p c head us vs w res"
  have fails: "holds (splicepump_start_fail os p v) ?Q"
    if "pump_ok p c head us vs v" "clients v = clients w" "splice_refused os" for v
    using start_fail_detached [OF that(1) u that(2), of os] by (rule holds_mono) (simp add: that(3))
  have refused: "os_ret os h (Bufferevent_disable b EV_READ_WRITE) \<noteq> 0 \<Longrightarrow> splice_refused os" for h b
    by (auto simp: splice_refused_def)
  have opens: "holds (splicepump_open_pipes os base p a v) ?Q"
    if "attached p (c\<lparr>user_arg := a\<rparr>) (blank_pump a) ip op head us vs v" "clients v = (clients w)(p \<mapsto> c\<lparr>user_arg := a\<rparr>)" for base a v ip op
    using open_pipes_attached [OF that, of os base] by (rule holds_mono) (simp_all add: blank_pump_def pump_events_def)
  note runs = bev_op_runs [where p = p and c = c and head = head and us = us and vs = vs]
    splicepump_new_outcome [where p = p and c = c and head = head and us = us and vs = vs, OF _ u]
  show ?thesis
    unfolding transocks_splicepump_start_pump_def pump_okD(1) [OF P] Option.bind.simps
    apply (rule holds_pairI [OF bev_op_runs(1) [OF P]], simp, rule holds_if_split)
    apply (rule fails, simp, simp, rule refused, simp)
    apply (rule holds_pairI, rule runs(1), simp, simp, rule holds_if_split)
    apply (rule fails, simp, simp, rule refused, simp)
    apply (rule holds_pairI, rule runs(2), simp, simp)
    apply (rule holds_pairI, rule runs(2), simp, simp)
    apply (rule holds_pairI, rule runs(3), simp, rule holds_if_split)
    apply (rule fails, simp, simp, simp)
    apply (simp add: env opens [where ip = "blank_pipe os" and op = "blank_pipe os"])
    done
qed

lemma start_without_pipes:
  assumes "\<forall>h. os_ret os h Pipe = -1"
  shows "yields (transocks_splicepump_start_pump os p w) (\<lambda>(r, w'). r = -1)"
proof -
  have fail: "splicepump_start_fail os p v = Some (r, w') \<Longrightarrow> r = -1" for v r w'
    by (auto simp: splicepump_start_fail_def Prelude.bind_Some_iff)
  have no_pipes: "splicepump_open_pipes os base p a v = Some (r, w') \<Longrightarrow> r = -1" for base a v r w'
    using assms
    by (auto simp: splicepump_open_pipes_def createpipe_def sys_def Let_def Prelude.bind_Some_iff split: prod.splits dest: fail)
  show ?thesis
    by (auto simp: transocks_splicepump_start_pump_def yields_def Prelude.bind_Some_iff split: if_splits dest: fail no_pipes)
qed


text \<open>
  C40: A client whose splicing pump cannot open its pipes has been released when the start reports the failure, and the handshake then
  releases it again: the reply callback uses the client after it has been freed.
\<close>

theorem splice_start_failure_use_after_free:
  assumes H: "handshake_ok p c head us vs w" and u: "user_arg c = NULL" and env: "envs w (global_env c) = Some env"
    and pm: "pumpMethodImpl w = Some Splicepump_ops"
    and os: "\<And>h n. os_alloc os h (Evbuffer_pullup (Input (relay_bev c)) n)" "\<not> splice_refused os" "\<forall>h. os_ret os h Pipe = -1"
    and d: "d = os_data os (hist w @ [Event_del (timeout_ev c)]) (Input (relay_bev c))" "reply_accepted d"
  shows "socks_on_server_connect_reply_readcb os p w = None"
proof -
  let ?c = "c\<lparr>client_state := client_socks5_finish_handshake\<rparr>" and ?v = "reply_taken p c (length d) (if d ! 3 = 1 then 10 else 22) w"
  have P: "pump_ok p ?c head us vs ?v" by (rule pump_ok_reply_taken [OF H])
  obtain r v where v: "bufferevent_disable os (relay_bev c) EV_READ_WRITE ?v = Some (r, v)" "pump_ok p ?c head us vs v"
      "clients v = clients ?v" "envs v = envs ?v" "pumpMethodImpl v = pumpMethodImpl ?v"
    using bev_op_runs(1) [OF P, of "relay_bev c" os EV_READ_WRITE] by (auto simp: holds_def)
  obtain n w' where start: "transocks_splicepump_start_pump os p v = Some (n, w')"
      "start_result os p ?c head us vs v (n, w') \<or> splice_refused os \<and> not_started p ?c head us vs v (n, w')"
    using splice_start_outcome [OF v(2), of env os] u env v(4) by (auto simp: holds_def reply_taken_def)
  have "n = -1" using yieldsD [OF start_without_pipes [OF os(3)] start(1)] by simp
  with start(2) os(2) have "clients w' p = None" by (simp add: start_result_def)
  then have "TRANSOCKS_FREE (transocks_client_free os) p w' = None"
    using pump_okD(2) [OF P] by (simp add: TRANSOCKS_FREE_def transocks_client_free_def)
  then show ?thesis
    using connect_reply_accepts [OF H os(1) d] v start(1) \<open>n = -1\<close> pm
    by (simp add: transocks_start_pump_def transocks_splicepump_ops_def reply_taken_def timer_stopped_def)
qed

text \<open>A client without a pump is not freed by the splicing pump: it outlives a request to drop all clients.\<close>

lemma splicepump_free_skips_handshake:
  assumes "clients w p = Some c" and "user_arg c = NULL"
  shows "transocks_splicepump_free os p w = Some w"
  using assms by (simp add: transocks_splicepump_free_def)


subsection \<open>Examples\<close>

definition splice_start_world :: world where
  "splice_start_world = sample_world\<lparr>envs := [1 \<mapsto> sample_env], pumpMethodImpl := Some Splicepump_ops\<rparr>"

lemma splice_start_ok: "handshake_ok 3 sample_client 2 [] [] splice_start_world"
  using sample_handshake
  by (simp add: handshake_ok_def pump_ok_def client_ok_def splice_start_world_def wf_world_def sample_world_def)

lemma splice_start_fields:
  "pump_ok 3 sample_client 2 [] [] splice_start_world" "user_arg sample_client = NULL"
  "envs splice_start_world (global_env sample_client) = Some sample_env"
  "pumpMethodImpl splice_start_world = Some Splicepump_ops"
  using splice_start_ok by (simp_all add: handshake_ok_def) (simp_all add: sample_client_def splice_start_world_def)

lemma demo_splice_served: "splice_served demo_os" "\<not> splice_refused demo_os"
  by (auto simp: splice_served_def splice_refused_def demo_os_def)


text \<open>A system that answers the reply \<open>d\<close> and has no more pipes.\<close>

definition no_pipe_os :: "byte list \<Rightarrow> os" where
  "no_pipe_os d = (reply_os d)\<lparr>os_ret := \<lambda>h c. if c = Pipe then -1 else 0\<rparr>"

theorem splice_start_failure_use_after_free_witness:
  "socks_on_server_connect_reply_readcb (no_pipe_os [5, 0, 0, 1, 0, 0, 0, 0, 0, 0]) 3 splice_start_world = None"
  using splice_start_failure_use_after_free [OF splice_start_ok splice_start_fields(2-4), of "no_pipe_os [5, 0, 0, 1, 0, 0, 0, 0, 0, 0]"
      "[5, 0, 0, 1, 0, 0, 0, 0, 0, 0]"]
  by (simp add: no_pipe_os_def reply_os_def demo_os_def reply_accepted_def splice_refused_def)

end
