(* ===== verification/Splice_Invariant.thy ===== *)
theory Splice_Invariant
  imports Locality Splice_Start
begin

text \<open>
  The invariant of the running program with the splicing pump. The memory is that of a program whose clients have
  no pumps, to which the pumps of the clients past the handshake are adjoined: each client of the part owns one
  pump, with two pipes and four events; its bufferevent towards the relay is silent and its timer is stopped.
\<close>

unbundle bit_operations_syntax

subsection \<open>Ownership of the pumps\<close>

definition pump_of :: "part \<Rightarrow> transocks_client \<Rightarrow> transocks_splicepump" where
  "pump_of F c = the (part_pumps F (user_arg c))"

definition own_pump :: "transocks_client \<Rightarrow> addr set" where
  "own_pump c = {user_arg c}"

definition own_pipes :: "part \<Rightarrow> transocks_client \<Rightarrow> addr set" where
  "own_pipes F c = {inbound_pipe (pump_of F c), outbound_pipe (pump_of F c)}"

definition own_pump_events :: "part \<Rightarrow> transocks_client \<Rightarrow> addr set" where
  "own_pump_events F c = set (pump_events (pump_of F c))"

definition splice_callbacks :: "callback set" where
  "splice_callbacks = {Splicepump_client_readcb, Splicepump_client_writecb, Splicepump_relay_readcb, Splicepump_relay_writecb}"

text \<open>Nothing is enabled on a bufferevent.\<close>

definition silent :: "bev_reg \<Rightarrow> bool" where
  "silent r \<longleftrightarrow> bev_enabled r AND EV_READ_WRITE = 0"

text \<open>Each client of the part owns one pump with its pipes and events, and the events call back with this client.\<close>

definition pumps_owned :: "part \<Rightarrow> bool" where
  "pumps_owned F \<longleftrightarrow> owned_once {} (part_clients F) own_pump (dom (part_pumps F))
     \<and> owned_once {} (part_clients F) (own_pipes F) (dom (part_pipes F))
     \<and> owned_once {} (part_clients F) (own_pump_events F) (dom (part_events F))
     \<and> (\<forall>p c. part_clients F p = Some c \<longrightarrow> inbound_pipe (pump_of F c) \<noteq> outbound_pipe (pump_of F c)
         \<and> distinct (pump_events (pump_of F c)))
     \<and> (\<forall>ev r p c. part_events F ev = Some r \<longrightarrow> part_clients F p = Some c \<longrightarrow> ev \<in> own_pump_events F c \<longrightarrow>
         ev_arg r = p \<and> ev_cb r \<in> splice_callbacks)"

text \<open>What is left of the handshake is quiet.\<close>

definition quiet :: "part \<Rightarrow> bool" where
  "quiet F \<longleftrightarrow> (\<forall>p c. part_clients F p = Some c \<longrightarrow> (\<exists>r. part_bevs F (relay_bev c) = Some r \<and> silent r))
     \<and> (\<forall>b. b \<in> dom (part_bevs F) \<longrightarrow> (\<exists>p c. part_clients F p = Some c \<and> b = relay_bev c))
     \<and> (\<forall>p c. part_clients F p = Some c \<longrightarrow> (\<exists>r. part_timers F (timeout_ev c) = Some r \<and> \<not> ev_added r))
     \<and> (\<forall>ev. ev \<in> dom (part_timers F) \<longrightarrow> (\<exists>p c. part_clients F p = Some c \<and> ev = timeout_ev c))"

definition running :: "part \<Rightarrow> bool" where
  "running F \<longleftrightarrow> pumps_owned F \<and> quiet F"

lemmas running_defs = running_def pumps_owned_def quiet_def

definition spliced :: "addr \<Rightarrow> transocks_global_env \<Rightarrow> part \<Rightarrow> world \<Rightarrow> bool" where
  "spliced e env F w \<longleftrightarrow> steady e env w \<and> apart {} F w \<and> running F"

definition splice_steady :: "addr \<Rightarrow> transocks_global_env \<Rightarrow> world \<Rightarrow> bool" where
  "splice_steady e env w \<longleftrightarrow> (\<exists>F w0. w = adjoin F w0 \<and> spliced e env F w0)"

lemma spliced_calls [simp]: "spliced e env F (after_calls cs w) = spliced e env F w"
  by (simp add: spliced_def)

lemma owned_once_cong:
  assumes "owned_once R cl own A" and "\<And>p c. cl p = Some c \<Longrightarrow> own' c = own c"
  shows "owned_once R cl own' A"
proof -
  have "owned_by cl own' = owned_by cl own" using assms(2) by (auto simp: owned_by_def fun_eq_iff split: option.splits)
  with assms(1) show ?thesis by (simp add: owned_once_def)
qed

lemma parts_add:
  assumes "parts R f A" and "f p = {}" and "S \<inter> A = {}"
  shows "parts R (f(p := S)) (A \<union> S)"
proof -
  have R: "R \<subseteq> A" and f: "f q \<subseteq> A" for q using assms(1) by (auto simp: parts_def)
  have "A \<union> S = R \<union> (\<Union>q. (f(p := S)) q)" using assms(1,2) by (auto simp: parts_def split: if_splits)
  moreover have "(f(p := S)) q \<inter> R = {}" for q using assms R by (auto simp: parts_def)
  moreover have "(f(p := S)) q \<inter> (f(p := S)) r = {}" if "q \<noteq> r" for q r
    using assms(1,3) f [of q] f [of r] that by (auto simp: parts_def)
  ultimately show ?thesis by (simp add: parts_def)
qed

lemma owned_once_add:
  assumes "owned_once R cl own A" and "cl p = None" and "own c \<inter> A = {}"
  shows "owned_once R (cl(p \<mapsto> c)) own (A \<union> own c)"
  using assms parts_add [of R "owned_by cl own" A p "own c"] by (simp add: owned_once_def)

text \<open>What the invariant says of one client with a pump.\<close>

lemma running_client:
  assumes S: "spliced e env F w" and c: "part_clients F p = Some c"
  shows "clients w p = Some c" "part_pumps F (user_arg c) = Some (pump_of F c)" "user_arg c \<noteq> NULL"
    "own_pipes F c \<subseteq> dom (part_pipes F)" "own_pump_events F c \<subseteq> dom (part_events F)"
    "inbound_pipe (pump_of F c) \<noteq> outbound_pipe (pump_of F c)" "distinct (pump_events (pump_of F c))"
proof -
  have R: "running F" and A: "apart {} F w" using S by (simp_all add: spliced_def)
  show "clients w p = Some c" using A c by (simp add: apart_def map_le_def) (metis domI)
  have "user_arg c \<in> dom (part_pumps F)" using owned_once_live [of "{}" "part_clients F" own_pump _ p c] R c
    by (auto simp: running_defs own_pump_def)
  then show "part_pumps F (user_arg c) = Some (pump_of F c)" "user_arg c \<noteq> NULL" using A by (auto simp: pump_of_def apart_def)
  show "own_pipes F c \<subseteq> dom (part_pipes F)" "own_pump_events F c \<subseteq> dom (part_events F)"
    using owned_once_live [of "{}" "part_clients F" _ _ p c] R c by (auto simp: running_defs)
  show "inbound_pipe (pump_of F c) \<noteq> outbound_pipe (pump_of F c)" "distinct (pump_events (pump_of F c))"
    using R c by (simp_all add: running_defs)
qed

lemma running_quiet:
  assumes "running F"
  shows "part_clients F p = Some c \<Longrightarrow> \<exists>r. part_bevs F (relay_bev c) = Some r \<and> silent r"
    "part_clients F p = Some c \<Longrightarrow> \<exists>r. part_timers F (timeout_ev c) = Some r \<and> \<not> ev_added r"
    "ev \<in> dom (part_timers F) \<Longrightarrow> \<exists>r. part_timers F ev = Some r \<and> \<not> ev_added r"
proof -
  have Q: "quiet F" using assms by (simp add: running_def)
  then show "part_clients F p = Some c \<Longrightarrow> \<exists>r. part_bevs F (relay_bev c) = Some r \<and> silent r"
    "part_clients F p = Some c \<Longrightarrow> \<exists>r. part_timers F (timeout_ev c) = Some r \<and> \<not> ev_added r"
    by (simp_all add: quiet_def)
  assume "ev \<in> dom (part_timers F)"
  then obtain p c where "part_clients F p = Some c" "ev = timeout_ev c" using Q unfolding quiet_def by blast
  with Q show "\<exists>r. part_timers F ev = Some r \<and> \<not> ev_added r" by (simp add: quiet_def)
qed

lemma wf_adjoin: "wf_world w \<Longrightarrow> apart X F w \<Longrightarrow> wf_world (adjoin F w)"
  by (auto simp: wf_world_def apart_def)

lemma client_ok_adjoin: "client_ok w p c \<Longrightarrow> client_ok (adjoin F w) p c"
  by (auto simp: client_ok_def null_or_live_def)

lemma running_splice_ok:
  assumes S: "spliced e env F w" and c: "part_clients F p = Some c"
  obtains ip op where "splice_ok p c (pump_of F c) ip op (adjoin F w)"
    "part_pipes F (inbound_pipe (pump_of F c)) = Some ip" "part_pipes F (outbound_pipe (pump_of F c)) = Some op"
proof -
  note D = running_client [OF S c]
  have I: "steady e env w" and A: "apart {} F w" using S by (simp_all add: spliced_def)
  obtain ip op where pipes: "part_pipes F (inbound_pipe (pump_of F c)) = Some ip" "part_pipes F (outbound_pipe (pump_of F c)) = Some op"
    using D(4) by (auto simp: own_pipes_def)
  have "NULL \<notin> dom (part_pipes F)" "NULL \<notin> dom (part_events F)" using A by (auto simp: apart_def)
  then have nz: "inbound_pipe (pump_of F c) \<noteq> NULL" "outbound_pipe (pump_of F c) \<noteq> NULL" "NULL \<notin> set (pump_events (pump_of F c))"
    using pipes D(5) by (auto simp: own_pump_events_def)
  have "timeout_ev c \<notin> set (pump_events (pump_of F c))"
    using inv_completeD(9) [OF I D(1)] D(5) A by (auto simp: apart_def own_pump_events_def)
  moreover have "\<forall>ev \<in> set (pump_events (pump_of F c)). null_or_live (events (adjoin F w)) ev"
    using D(5) by (auto simp: own_pump_events_def null_or_live_def)
  moreover have "wf_world (adjoin F w)" "client_ok (adjoin F w) p c"
    using wf_adjoin [OF invD(1) [OF I] A] client_ok_adjoin [OF inv_client_ok [OF I D(1)]] by simp_all
  ultimately have "splice_ok p c (pump_of F c) ip op (adjoin F w)"
    using D pipes nz inv_completeD(3) [OF I D(1)] by (auto simp: splice_ok_def pump_events_def)
  with pipes show ?thesis using that by blast
qed

subsection \<open>Releasing a client with its pump\<close>

definition without :: "addr \<Rightarrow> transocks_client \<Rightarrow> part \<Rightarrow> part" where
  "without p c F = F\<lparr>part_events := (part_events F)(client_read_ev (pump_of F c) := None, client_write_ev (pump_of F c) := None,
       relay_read_ev (pump_of F c) := None, relay_write_ev (pump_of F c) := None),
     part_pumps := (part_pumps F)(user_arg c := None),
     part_pipes := (part_pipes F)(inbound_pipe (pump_of F c) := None, outbound_pipe (pump_of F c) := None),
     part_clients := (part_clients F)(p := None), part_bevs := (part_bevs F)(relay_bev c := None),
     part_timers := (part_timers F)(timeout_ev c := None)\<rparr>"

lemma dom_without:
  "dom (part_events (without p c F)) = dom (part_events F) - own_pump_events F c"
  "dom (part_pumps (without p c F)) = dom (part_pumps F) - own_pump c"
  "dom (part_pipes (without p c F)) = dom (part_pipes F) - own_pipes F c"
  by (auto simp: without_def own_pump_events_def own_pump_def own_pipes_def pump_events_def split: if_splits)

lemma running_unique:
  assumes "running F" and "part_clients F p = Some c" and "part_clients F q = Some d" and "q \<noteq> p"
  shows "user_arg d \<noteq> user_arg c" "own_pump_events F d \<inter> own_pump_events F c = {}"
  using assms owned_once_unique [of "{}" "part_clients F" own_pump _ p c q d "user_arg c"]
    owned_once_unique [of "{}" "part_clients F" "own_pump_events F" _ p c q d]
  by (auto simp: running_defs own_pump_def)

lemma pump_of_without:
  assumes "running F" and "part_clients F p = Some c" and "part_clients F q = Some d" and "q \<noteq> p"
  shows "pump_of (without p c F) d = pump_of F d"
  using running_unique(1) [OF assms] by (simp add: pump_of_def without_def)

lemma part_clients_without: "part_clients (without p c F) = (part_clients F)(p := None)"
  by (simp add: without_def)

lemma pumps_owned_without:
  assumes R: "running F" and c: "part_clients F p = Some c"
  shows "pumps_owned (without p c F)"
proof -
  note pump = pump_of_without [OF R c] and cl = part_clients_without [of p c F]
  have O: "pumps_owned F" using R by (simp add: running_def)
  have "owned_once {} (part_clients (without p c F)) own_pump (dom (part_pumps (without p c F)))"
    using O owned_once_remove [of "{}" "part_clients F" own_pump _ p c] c by (simp add: pumps_owned_def cl dom_without)
  moreover have "owned_once {} (part_clients (without p c F)) (own_pipes (without p c F)) (dom (part_pipes (without p c F)))"
    unfolding cl dom_without using O c pump
    by (intro owned_once_cong [OF owned_once_remove [of "{}" "part_clients F" "own_pipes F" _ p c]])
      (auto simp: pumps_owned_def own_pipes_def split: if_splits)
  moreover have "owned_once {} (part_clients (without p c F)) (own_pump_events (without p c F)) (dom (part_events (without p c F)))"
    unfolding cl dom_without using O c pump
    by (intro owned_once_cong [OF owned_once_remove [of "{}" "part_clients F" "own_pump_events F" _ p c]])
      (auto simp: pumps_owned_def own_pump_events_def split: if_splits)
  moreover have "inbound_pipe (pump_of (without p c F) d) \<noteq> outbound_pipe (pump_of (without p c F) d)
      \<and> distinct (pump_events (pump_of (without p c F) d))" if "part_clients (without p c F) q = Some d" for q d
    using that O pump [of q d] by (auto simp: cl pumps_owned_def split: if_splits)
  moreover have "ev_arg r = q \<and> ev_cb r \<in> splice_callbacks"
    if "part_events (without p c F) ev = Some r" "part_clients (without p c F) q = Some d" "ev \<in> own_pump_events (without p c F) d" for ev r q d
    using that O pump [of q d] by (auto simp: cl pumps_owned_def own_pump_events_def without_def split: if_splits)
  ultimately show ?thesis unfolding pumps_owned_def by blast
qed

text \<open>Two clients share neither a bufferevent nor a timer.\<close>

lemma spliced_distinct:
  assumes S: "spliced e env F w" and c: "clients w p = Some c" and d: "clients w q = Some d" and "q \<noteq> p"
  shows "relay_bev d \<noteq> relay_bev c" "client_bev d \<noteq> relay_bev c" "timeout_ev d \<noteq> timeout_ev c"
proof -
  have I: "steady e env w" using S by (simp add: spliced_def)
  note D = inv_completeD [OF I c, simplified]
  show "relay_bev d \<noteq> relay_bev c" "client_bev d \<noteq> relay_bev c"
    using owned_once_unique [OF invD(6) [OF I] c d, of "relay_bev c"] D(2) assms(4) by (auto simp: own_bevs_def)
  show "timeout_ev d \<noteq> timeout_ev c"
    using owned_once_unique [OF invD(7) [OF I] c d, of "timeout_ev c"] D(3) assms(4) by (auto simp: own_events_def)
qed

lemma quiet_without:
  assumes S: "spliced e env F w" and c: "part_clients F p = Some c"
  shows "quiet (without p c F)"
proof -
  have Q: "quiet F" using S by (simp add: spliced_def running_def)
  have ne: "relay_bev d \<noteq> relay_bev c" "timeout_ev d \<noteq> timeout_ev c" if "part_clients F q = Some d" "q \<noteq> p" for q d
    using spliced_distinct [OF S running_client(1) [OF S c] running_client(1) [OF S that(1)] that(2)] by simp_all
  note cl = part_clients_without [of p c F]
  have "\<exists>r. part_bevs (without p c F) (relay_bev d) = Some r \<and> silent r"
    "\<exists>r. part_timers (without p c F) (timeout_ev d) = Some r \<and> \<not> ev_added r" if "part_clients (without p c F) q = Some d" for q d
    using that Q ne [of q d] by (auto simp: cl quiet_def without_def split: if_splits)
  moreover have "\<exists>q d. part_clients (without p c F) q = Some d \<and> b = relay_bev d" if "b \<in> dom (part_bevs (without p c F))" for b
  proof -
    have b: "b \<noteq> relay_bev c" "b \<in> dom (part_bevs F)" using that by (auto simp: without_def split: if_splits)
    then obtain q d where d: "part_clients F q = Some d" "b = relay_bev d" using Q unfolding quiet_def by blast
    with b c have "q \<noteq> p" by auto
    with d show ?thesis by (auto simp: cl)
  qed
  moreover have "\<exists>q d. part_clients (without p c F) q = Some d \<and> ev = timeout_ev d" if "ev \<in> dom (part_timers (without p c F))" for ev
  proof -
    have ev: "ev \<noteq> timeout_ev c" "ev \<in> dom (part_timers F)" using that by (auto simp: without_def split: if_splits)
    then obtain q d where d: "part_clients F q = Some d" "ev = timeout_ev d" using Q unfolding quiet_def by blast
    with ev c have "q \<noteq> p" by auto
    with d show ?thesis by (auto simp: cl)
  qed
  ultimately show ?thesis unfolding quiet_def by blast
qed

lemma running_without:
  assumes "spliced e env F w" and "part_clients F p = Some c"
  shows "running (without p c F)"
  using pumps_owned_without [OF _ assms(2)] quiet_without [OF assms] assms(1) by (simp add: running_def spliced_def)

lemma relay_bevs_of_part:
  assumes S: "spliced e env F w" and c: "clients w p = Some c"
  shows "client_bev c \<notin> dom (part_bevs F)"
proof
  assume "client_bev c \<in> dom (part_bevs F)"
  then obtain q d where d: "part_clients F q = Some d" "client_bev c = relay_bev d" using S by (auto simp: spliced_def running_defs)
  have I: "steady e env w" using S by (simp add: spliced_def)
  note q = running_client(1) [OF S d(1)]
  have "p = q"
    using owned_once_unique [OF invD(6) [OF I] c q, of "client_bev c"] d(2) inv_completeD(1) [OF I c] by (simp add: own_bevs_def)
  with c q d(2) inv_clientD(1) [OF I c] inv_completeD(1) [OF I c] show False by (simp add: client_base_def)
qed

lemma apart_without:
  assumes S: "spliced e env F w" and c: "part_clients F p = Some c"
  shows "apart {} (without p c F) (client_removed p c h w)"
proof -
  have A: "apart {} F w" using S by (simp add: spliced_def)
  note cl = running_client(1) [OF S c] and bev = relay_bevs_of_part [OF S running_client(1) [OF S c]]
  have ev: "dom (part_events (without p c F)) \<subseteq> dom (part_events F)" "dom (part_pumps (without p c F)) \<subseteq> dom (part_pumps F)"
    "dom (part_pipes (without p c F)) \<subseteq> dom (part_pipes F)"
    by (auto simp: dom_without)
  have "part_bevs (without p c F) \<subseteq>\<^sub>m bevs (client_removed p c h w)"
    using A bev by (auto simp: apart_def map_le_def without_def client_removed_def)
  moreover have "part_clients (without p c F) \<subseteq>\<^sub>m clients (client_removed p c h w)"
    using A by (auto simp: apart_def map_le_def without_def client_removed_def)
  moreover have "tame (without p c F) d" if "clients (client_removed p c h w) q = Some d" "q \<notin> dom (part_clients (without p c F))" for q d
    using that A by (auto simp: apart_def tame_def without_def client_removed_def split: if_splits)
  moreover have "plain r" if "bevs (client_removed p c h w) b = Some r" for b r
    using that A by (auto simp: apart_def client_removed_def split: if_splits)
  moreover have "dom (part_events (without p c F)) \<inter> dom (events (client_removed p c h w)) = {}"
    using A ev(1) by (auto simp: apart_def client_removed_def)
  moreover have "dom (part_events (without p c F)) \<subseteq> {0<..<brk w}" "dom (part_pumps (without p c F)) \<subseteq> {0<..<brk w}"
    "dom (part_pipes (without p c F)) \<subseteq> {0<..<brk w}" "0 < brk w"
    using ev [THEN order_trans] A by (simp_all add: apart_def)
  moreover have "part_timers (without p c F) \<subseteq>\<^sub>m events (client_removed p c h w)"
    using A by (auto simp: apart_def map_le_def without_def client_removed_def)
  moreover have "dom (part_clients (without p c F)) \<subseteq> {0<..<brk w}" "dom (part_bevs (without p c F)) \<subseteq> {0<..<brk w}"
    "dom (part_timers (without p c F)) \<subseteq> {0<..<brk w}"
    using A by (auto simp: apart_def without_def)
  ultimately show ?thesis unfolding apart_def by (simp add: client_removed_def)
qed

lemma removed_adjoin:
  assumes S: "spliced e env F w" and c: "part_clients F p = Some c"
  shows "client_removed p c h (pump_removed c (pump_of F c) (adjoin F w)) = adjoin (without p c F) (client_removed p c h w)"
proof -
  have A: "apart {} F w" and I: "steady e env w" using S by (simp_all add: spliced_def)
  note D = running_client [OF S c]
  have "part_events F (timeout_ev c) = None" using inv_completeD(9) [OF I D(1)] A by (auto simp: apart_def)
  moreover have "events w ev = None" if "ev \<in> own_pump_events F c" for ev using that D(5) A by (auto simp: apart_def)
  ultimately show ?thesis
    by (auto simp: client_removed_def pump_removed_def adjoin_def without_def own_pump_events_def pump_events_def map_add_def fun_eq_iff
        split: option.splits)
qed

lemma spliced_free:
  assumes S: "spliced e env F w" and c: "part_clients F p = Some c"
  shows "holds (transocks_splicepump_free os p (adjoin F w)) (\<lambda>w'. \<exists>w0. w' = adjoin (without p c F) w0
    \<and> spliced e env (without p c F) w0 \<and> clients w0 = (clients w)(p := None)
    \<and> (\<forall>us vs. dlist (nodes w) (current_clients_dlinklist env) (us @ p # vs) \<longrightarrow>
         dlist (nodes w0) (current_clients_dlinklist env) (us @ vs)))"
proof -
  let ?head = "current_clients_dlinklist env"
  have I: "steady e env w" using S by (simp add: spliced_def)
  note cl = running_client(1) [OF S c]
  obtain ip op where ok: "splice_ok p c (pump_of F c) ip op (adjoin F w)" by (rule running_splice_ok [OF S c])
  obtain h' where h': "list_del p (nodes w) = Some h'" "dom h' = dom (nodes w)"
    "registry ({} - {p}) ?head (w\<lparr>clients := (clients w)(p := None), nodes := h'(p := None)\<rparr>)"
    using registry_unlink [OF invD(4) [OF I], of p] cl by auto
  have "dlist (h'(p := None)) ?head (us @ vs)" if d: "dlist (nodes w) ?head (us @ p # vs)" for us vs
  proof -
    have "dlist h' ?head (us @ vs)" using list_del_law [OF d] h'(1) by auto
    then show ?thesis using dlist_distinct [OF d] by (auto intro: dlist_agree)
  qed
  moreover have "steady e env (client_removed p c h' w)" using inv_client_removed [OF I cl h'(2,3)] by simp
  moreover have "transocks_splicepump_free os p (adjoin F w) =
      Some (adjoin (without p c F) (after_calls (splicepump_free_calls p c (pump_of F c) ip op) (client_removed p c h' w)))"
    using splicepump_free_run [OF ok, of h' os] h'(1) by (simp add: removed_adjoin [OF S c] adjoin_upd)
  ultimately show ?thesis
    using apart_without [OF S c, of h'] running_without [OF S c]
    by (intro holds_SomeI) (auto simp: spliced_def client_removed_def)
qed
end
