(* ===== verification/Splice_Safety.thy ===== *)
theory Splice_Safety
  imports Splice_Invariant
begin

text \<open>
  The callbacks of the splicing pump are defined in a state that satisfies the invariant of the program with the
  splicing pump, and re-establish it.
\<close>

unbundle bit_operations_syntax

subsection \<open>Transfers\<close>

text \<open>A part with the same owners: contents of pipes, registrations and flags of clients may differ.\<close>

definition similar :: "part \<Rightarrow> part \<Rightarrow> bool" where
  "similar F F' \<longleftrightarrow> part_pumps F' = part_pumps F \<and> part_bevs F' = part_bevs F \<and> part_timers F' = part_timers F \<and> dom (part_pipes F') = dom (part_pipes F)
     \<and> dom (part_events F') = dom (part_events F)
     \<and> (\<forall>ev r r'. part_events F ev = Some r \<longrightarrow> part_events F' ev = Some r' \<longrightarrow> ev_arg r' = ev_arg r \<and> ev_cb r' = ev_cb r)
     \<and> dom (part_clients F') = dom (part_clients F)
     \<and> (\<forall>p c c'. part_clients F p = Some c \<longrightarrow> part_clients F' p = Some c' \<longrightarrow> user_arg c' = user_arg c \<and> relay_bev c' = relay_bev c
         \<and> timeout_ev c' = timeout_ev c)"

lemma similar_client:
  assumes "similar F F'" and "part_clients F' p = Some c'"
  obtains c where "part_clients F p = Some c" "user_arg c' = user_arg c" "relay_bev c' = relay_bev c" "pump_of F' c' = pump_of F c"
    "timeout_ev c' = timeout_ev c"
proof -
  have "p \<in> dom (part_clients F)" using assms by (auto simp: similar_def dom_def)
  then obtain c where "part_clients F p = Some c" by blast
  with assms that show ?thesis by (auto simp: similar_def pump_of_def)
qed

lemma similar_owned:
  assumes S: "similar F F'" and own: "\<And>c c'. user_arg c' = user_arg c \<Longrightarrow> own' c' = own c"
  shows "owned_once {} (part_clients F') own' A = owned_once {} (part_clients F) own A"
proof -
  have "owned_by (part_clients F') own' p = owned_by (part_clients F) own p" for p
  proof (cases "part_clients F' p")
    case None
    then have "part_clients F p = None" using S unfolding similar_def by (metis domIff)
    with None show ?thesis by simp
  next
    case (Some c')
    then show ?thesis using similar_client [OF S Some] own by (metis owned_by_Some)
  qed
  then have "owned_by (part_clients F') own' = owned_by (part_clients F) own" by (rule ext)
  then show ?thesis by (simp add: owned_once_def)
qed

lemma similar_client_back:
  assumes "similar F F'" and "part_clients F p = Some c"
  obtains c' where "part_clients F' p = Some c'" "relay_bev c' = relay_bev c" "timeout_ev c' = timeout_ev c"
proof -
  have "p \<in> dom (part_clients F')" using assms by (auto simp: similar_def)
  then obtain c' where c': "part_clients F' p = Some c'" by blast
  then have "relay_bev c' = relay_bev c" "timeout_ev c' = timeout_ev c" using assms by (simp_all add: similar_def)
  with c' that show ?thesis by blast
qed

lemma similar_own:
  assumes "similar F F'" and "user_arg c' = user_arg c"
  shows "own_pump c' = own_pump c" "own_pipes F' c' = own_pipes F c" "own_pump_events F' c' = own_pump_events F c"
  using assms by (simp_all add: similar_def pump_of_def own_pump_def own_pipes_def own_pump_events_def)

lemma pumps_owned_similar:
  assumes O: "pumps_owned F" and S: "similar F F'"
  shows "pumps_owned F'"
proof -
  have doms: "dom (part_pumps F') = dom (part_pumps F)" "dom (part_pipes F') = dom (part_pipes F)" "dom (part_events F') = dom (part_events F)"
    using S by (simp_all add: similar_def)
  have owns: "owned_once {} (part_clients F') own_pump A = owned_once {} (part_clients F) own_pump A"
    "owned_once {} (part_clients F') (own_pipes F') A = owned_once {} (part_clients F) (own_pipes F) A"
    "owned_once {} (part_clients F') (own_pump_events F') A = owned_once {} (part_clients F) (own_pump_events F) A" for A
    by (rule similar_owned [OF S], erule similar_own [OF S])+
  have "owned_once {} (part_clients F') own_pump (dom (part_pumps F'))"
    "owned_once {} (part_clients F') (own_pipes F') (dom (part_pipes F'))"
    "owned_once {} (part_clients F') (own_pump_events F') (dom (part_events F'))"
    using O unfolding doms owns by (simp_all add: pumps_owned_def)
  moreover have "inbound_pipe (pump_of F' c') \<noteq> outbound_pipe (pump_of F' c') \<and> distinct (pump_events (pump_of F' c'))"
    if c': "part_clients F' p = Some c'" for p c'
  proof -
    obtain c where "part_clients F p = Some c" "pump_of F' c' = pump_of F c" using similar_client [OF S c'] by blast
    with O show ?thesis by (simp add: pumps_owned_def)
  qed
  moreover have "ev_arg r' = p \<and> ev_cb r' \<in> splice_callbacks"
    if r': "part_events F' ev = Some r'" and c': "part_clients F' p = Some c'" and ev: "ev \<in> own_pump_events F' c'" for ev r' p c'
  proof -
    obtain c where c: "part_clients F p = Some c" "user_arg c' = user_arg c" using similar_client [OF S c'] by blast
    have "ev \<in> dom (part_events F)" using r' doms(3) by blast
    then obtain r where r: "part_events F ev = Some r" by blast
    have "ev \<in> own_pump_events F c" using ev similar_own(3) [OF S c(2)] by simp
    then have "ev_arg r = p \<and> ev_cb r \<in> splice_callbacks" using O r c(1) unfolding pumps_owned_def by blast
    moreover have "ev_arg r' = ev_arg r \<and> ev_cb r' = ev_cb r" using S r r' unfolding similar_def by blast
    ultimately show ?thesis by simp
  qed
  ultimately show ?thesis unfolding pumps_owned_def by blast
qed

lemma quiet_similar:
  assumes Q: "quiet F" and S: "similar F F'"
  shows "quiet F'"
proof -
  have eq: "part_bevs F' = part_bevs F" "part_timers F' = part_timers F" using S by (simp_all add: similar_def)
  have "(\<exists>r. part_bevs F (relay_bev c') = Some r \<and> silent r) \<and> (\<exists>r. part_timers F (timeout_ev c') = Some r \<and> \<not> ev_added r)"
    if c': "part_clients F' p = Some c'" for p c'
  proof -
    obtain c where "part_clients F p = Some c" "relay_bev c' = relay_bev c" "timeout_ev c' = timeout_ev c" using similar_client [OF S c'] by blast
    with Q show ?thesis by (simp add: quiet_def)
  qed
  moreover have "\<exists>p c'. part_clients F' p = Some c' \<and> b = relay_bev c'" if b: "b \<in> dom (part_bevs F)" for b
  proof -
    obtain p c where c: "part_clients F p = Some c" "b = relay_bev c" using Q b unfolding quiet_def by blast
    then show ?thesis using similar_client_back [OF S c(1)] by metis
  qed
  moreover have "\<exists>p c'. part_clients F' p = Some c' \<and> ev = timeout_ev c'" if ev: "ev \<in> dom (part_timers F)" for ev
  proof -
    obtain p c where c: "part_clients F p = Some c" "ev = timeout_ev c" using Q ev unfolding quiet_def by blast
    then show ?thesis using similar_client_back [OF S c(1)] by metis
  qed
  ultimately show ?thesis unfolding quiet_def eq by blast
qed

lemma running_similar: "running F \<Longrightarrow> similar F F' \<Longrightarrow> running F'"
  by (auto simp: running_def intro: pumps_owned_similar quiet_similar)

text \<open>The invariant, seen from the client \<open>p\<close> whose contents are \<open>c\<close> and whose pump is \<open>s\<close>.\<close>

definition pumping :: "addr \<Rightarrow> transocks_global_env \<Rightarrow> addr \<Rightarrow> transocks_client \<Rightarrow> transocks_splicepump \<Rightarrow> world \<Rightarrow> bool" where
  "pumping e env p c s w \<longleftrightarrow> (\<exists>F w0. w = adjoin F w0 \<and> spliced e env F w0 \<and> part_clients F p = Some c \<and> pump_of F c = s)"

lemma pumping_calls [simp]: "pumping e env p c s w \<Longrightarrow> pumping e env p c s (after_calls cs w)"
  unfolding pumping_def by (metis adjoin_upd(8) spliced_calls)

lemma pumping_steady: "pumping e env p c s w \<Longrightarrow> splice_steady e env w"
  by (auto simp: pumping_def splice_steady_def)

lemma pumping_read:
  assumes "pumping e env p c s w"
  shows "clients w p = Some c" "splicepumps w (user_arg c) = Some s"
    "inbound_pipe s \<in> dom (splicepipes w)" "outbound_pipe s \<in> dom (splicepipes w)"
    "set (pump_events s) \<subseteq> dom (events w)" "p \<noteq> NULL"
proof -
  obtain F w0 where F: "w = adjoin F w0" "spliced e env F w0" "part_clients F p = Some c" "pump_of F c = s"
    using assms by (auto simp: pumping_def)
  note D = running_client [OF F(2,3)]
  show "clients w p = Some c" "splicepumps w (user_arg c) = Some s"
    "inbound_pipe s \<in> dom (splicepipes w)" "outbound_pipe s \<in> dom (splicepipes w)"
    using D F by (auto simp: own_pipes_def)
  show "set (pump_events s) \<subseteq> dom (events w)" using D F by (auto simp: own_pump_events_def)
  show "p \<noteq> NULL" using D(1) F(2) inv_clientD(3) by (auto simp: spliced_def)
qed

text \<open>The rules: an operation on the parts of a client leads to a state of the same kind.\<close>

lemma pumping_similar:
  assumes F: "spliced e env F w0" "part_clients F p = Some c" "pump_of F c = s"
    and F': "similar F F'" "apart {} F' w1" "steady e env w1" "part_clients F' p = Some c'" "user_arg c' = user_arg c"
  shows "pumping e env p c' s (adjoin F' w1)"
proof -
  have "running F'" using running_similar [OF _ F'(1)] F(1) by (simp add: spliced_def)
  moreover have "pump_of F' c' = s" using F'(1,5) F(3) by (simp add: similar_def pump_of_def)
  ultimately show ?thesis using F' by (auto simp: pumping_def spliced_def)
qed

lemma pumping_pipe:
  assumes P: "pumping e env p c s w" and q: "q = inbound_pipe s \<or> q = outbound_pipe s"
    and Q: "\<And>w'. pumping e env p c s w' \<Longrightarrow> Q w'"
  shows "holds (on_splicepipe q u w) Q"
proof -
  obtain F w0 where F: "w = adjoin F w0" "spliced e env F w0" "part_clients F p = Some c" "pump_of F c = s"
    using P by (auto simp: pumping_def)
  obtain x where x: "splicepipes w q = Some x" using pumping_read(3,4) [OF P] q by blast
  let ?F = "F\<lparr>part_pipes := (part_pipes F)(q \<mapsto> u x)\<rparr>"
  have "similar F ?F" using x F(1) by (auto simp: similar_def)
  moreover have "apart {} ?F w0" using F(1,2) x by (simp add: spliced_def apart_def tame_def insert_absorb domI)
  moreover have "w\<lparr>splicepipes := (splicepipes w)(q \<mapsto> u x)\<rparr> = adjoin ?F w0" using F(1) by (simp add: adjoin_def)
  ultimately have "pumping e env p c s (w\<lparr>splicepipes := (splicepipes w)(q \<mapsto> u x)\<rparr>)"
    using pumping_similar [OF F(2-4), of ?F w0 c] F(2,3) by (simp add: spliced_def)
  with Q x show ?thesis by (simp add: on_splicepipe_def)
qed

lemma pumping_client:
  assumes P: "pumping e env p c s w" and u: "same_parts c (u c)" "user_arg (u c) = user_arg c"
    and Q: "\<And>w'. pumping e env p (u c) s w' \<Longrightarrow> Q w'"
  shows "holds (on_client p u w) Q"
proof -
  obtain F w0 where F: "w = adjoin F w0" "spliced e env F w0" "part_clients F p = Some c" "pump_of F c = s"
    using P by (auto simp: pumping_def)
  note cl = running_client(1) [OF F(2,3)]
  let ?F = "F\<lparr>part_clients := (part_clients F)(p \<mapsto> u c)\<rparr>" and ?w = "w0\<lparr>clients := (clients w0)(p \<mapsto> u c)\<rparr>"
  have "similar F ?F" using F(3) u by (auto simp: similar_def same_parts_def)
  moreover have "apart {} ?F ?w" using F(2,3) cl by (auto simp: spliced_def apart_def tame_def map_le_def)
  moreover have "steady e env ?w" using F(2) cl u(1) by (auto simp: spliced_def intro: inv_client_upd)
  moreover have "w\<lparr>clients := (clients w)(p \<mapsto> u c)\<rparr> = adjoin ?F ?w" using F(1) by (simp add: adjoin_def)
  ultimately have "pumping e env p (u c) s (w\<lparr>clients := (clients w)(p \<mapsto> u c)\<rparr>)"
    using pumping_similar [OF F(2-4), of ?F ?w "u c"] u(2) by simp
  with Q cl F(1) show ?thesis by (simp add: on_client_def)
qed

lemma pumping_unadded:
  assumes P: "pumping e env p c s w" and ev: "ev \<in> set (pump_events s)" and r: "events w ev = Some r"
  shows "pumping e env p c s (w\<lparr>events := (events w)(ev \<mapsto> r\<lparr>ev_added := False\<rparr>)\<rparr>)"
proof -
  obtain F w0 where F: "w = adjoin F w0" "spliced e env F w0" "part_clients F p = Some c" "pump_of F c = s"
    using P by (auto simp: pumping_def)
  have "ev \<in> dom (part_events F)" using running_client(5) [OF F(2,3)] F(4) ev by (auto simp: own_pump_events_def)
  with r F(1) have r': "part_events F ev = Some r" by auto
  let ?F = "F\<lparr>part_events := (part_events F)(ev \<mapsto> r\<lparr>ev_added := False\<rparr>)\<rparr>"
  have "similar F ?F" using r' by (auto simp: similar_def)
  moreover have "apart {} ?F w0" using F(2) r' by (simp add: spliced_def apart_def tame_def insert_absorb domI)
  moreover have "w\<lparr>events := (events w)(ev \<mapsto> r\<lparr>ev_added := False\<rparr>)\<rparr> = adjoin ?F w0" using F(1) by (simp add: adjoin_def)
  ultimately show ?thesis using pumping_similar [OF F(2-4), of ?F w0 c] F(2,3) by (simp add: spliced_def)
qed

lemma pumping_event:
  assumes P: "pumping e env p c s w" and ev: "ev \<in> set (pump_events s)"
    and Q: "\<And>w'. pumping e env p c s w' \<Longrightarrow> Q w'"
  shows "holds (event_del ev w) Q" and "holds (TRANSOCKS_EVENT_ACTIVE os ev fl w) Q"
proof -
  obtain r where r: "events w ev = Some r" using pumping_read(5) [OF P] ev by blast
  show "holds (event_del ev w) Q" using pumping_unadded [OF P ev r] Q r by (simp add: event_del_def emit_after_calls)
  show "holds (TRANSOCKS_EVENT_ACTIVE os ev fl w) Q"
    using P Q r by (simp add: TRANSOCKS_EVENT_ACTIVE_def event_active_def emit_after_calls)
qed

lemma pumping_free:
  assumes P: "pumping e env p c s w"
  shows "holds (TRANSOCKS_FREE (transocks_splicepump_free os) p w) (splice_steady e env)"
proof -
  obtain F w0 where F: "w = adjoin F w0" "spliced e env F w0" "part_clients F p = Some c"
    using P by (auto simp: pumping_def)
  have "holds (transocks_splicepump_free os p w) (splice_steady e env)"
    unfolding F(1) using spliced_free [OF F(2,3), of os] by (rule holds_mono) (auto simp: splice_steady_def)
  then show ?thesis using pumping_read(6) [OF P] by (simp add: TRANSOCKS_FREE_def)
qed

lemma pumping_termination:
  assumes "pumping e env p c s w"
  shows "holds (transocks_check_normal_termination os p d w) (splice_steady e env)"
  using pumping_free [OF assms, of os] pumping_read(1) [OF assms] pumping_steady [OF assms]
  by (simp add: transocks_check_normal_termination_def Let_def)

lemma pumping_flags:
  assumes "pumping e env p c s w"
  shows "same_parts c c"
proof -
  obtain F w0 where F: "w = adjoin F w0" "spliced e env F w0" "part_clients F p = Some c" using assms by (auto simp: pumping_def)
  then have "steady_at e env p c w0" using running_client(1) [OF F(2,3)] by (simp add: at_def spliced_def)
  then show ?thesis by (rule steady_same_parts)
qed

lemma holds_splice:
  "(\<And>r n cs. holds (f r n (after_calls cs w)) Q) \<Longrightarrow> holds (let (r, n, w') = transocks_single_splice os a b len w in f r n w') Q"
  by (simp add: transocks_single_splice_def sys_after_calls Let_def)

lemma Let_pair: "(let (a, b) = (v, w) in f a b) = f v w"
  by simp

text \<open>What both transfers do with the result of the system call.\<close>

lemma fill_result_safe:
  assumes P: "pumping e env p c s w" and q: "q = inbound_pipe s \<or> q = outbound_pipe s"
    and ev: "ev \<in> set (pump_events s)" "ev' \<in> set (pump_events s)" and u: "same_parts c (u c)" "user_arg (u c) = user_arg c"
  shows "holds (case r of
       normal_transfer \<Rightarrow> do { w \<leftarrow> on_splicepipe q g w; transocks_check_normal_termination os p d w }
     | can_retry \<Rightarrow> do { w \<leftarrow> (if b then TRANSOCKS_EVENT_ACTIVE os ev' fl w else Some w); transocks_check_normal_termination os p d w }
     | fatal_failure \<Rightarrow> transocks_on_fatal_failure os p w
     | read_eof \<Rightarrow> do {
         w \<leftarrow> on_client p u w;
         let w = snd (TRANSOCKS_SHUTDOWN os fd how w);
         let (fd', w) = TRANSOCKS_CLOSE fd2 w;
         w \<leftarrow> event_del ev w;
         transocks_check_normal_termination os p d w
       }) (splice_steady e env)"
proof (cases r)
  case read_eof
  then show ?thesis
    by (auto simp: TRANSOCKS_SHUTDOWN_def sys_after_calls TRANSOCKS_CLOSE_simp
      intro!: pumping_client [where u = u, OF P u] pumping_event(1) [OF _ ev(1), where c = "u c"] pumping_termination [of e env p "u c" s])
qed (use pumping_pipe [OF P q] pumping_event(2) [OF P ev(2)] pumping_free [OF P] pumping_termination pumping_termination [OF P] in
    \<open>simp_all add: transocks_on_fatal_failure_def\<close>)

lemma write_to_pipe_safe:
  assumes P: "pumping e env p c s w"
  shows "holds (transocks_write_to_pipe os p d w) (splice_steady e env)"
proof -
  note D = pumping_read [OF P] and fl = pumping_flags [OF P]
  obtain ip op where pipes: "splicepipes w (inbound_pipe s) = Some ip" "splicepipes w (outbound_pipe s) = Some op" using D(3,4) by blast
  note fatal = pumping_free [OF P, of os, folded transocks_on_fatal_failure_def]
  show ?thesis
  proof (cases d)
    case inbound
    show ?thesis
      unfolding transocks_write_to_pipe_def D(1,2) Option.bind.simps inbound transocks_splicepump_data_direction.case Let_pair prod.case pipes
        Let_def [of "pipe_writefd _"] Let_def [of "capacity _"]
      by (rule holds_if, rule fatal, rule holds_splice, rule fill_result_safe [of _ _ _ c s])
        (simp_all add: P fl pump_events_def)
  next
    case outbound
    show ?thesis
      unfolding transocks_write_to_pipe_def D(1,2) Option.bind.simps outbound transocks_splicepump_data_direction.case Let_pair prod.case pipes
        Let_def [of "pipe_writefd _"] Let_def [of "capacity _"]
      by (rule holds_if, rule fatal, rule holds_splice, rule fill_result_safe [of _ _ _ c s])
        (simp_all add: P fl pump_events_def)
  qed
qed

lemma drain_result_safe:
  assumes P: "pumping e env p c s w" and q: "q = inbound_pipe s \<or> q = outbound_pipe s"
    and u: "same_parts c (u c)" "user_arg (u c) = user_arg c"
  shows "holds (case r of
       normal_transfer \<Rightarrow> do { w \<leftarrow> on_splicepipe q g w; transocks_check_normal_termination os p d w }
     | can_retry \<Rightarrow> transocks_check_normal_termination os p d w
     | fatal_failure \<Rightarrow> transocks_on_fatal_failure os p w
     | read_eof \<Rightarrow> do {
         w \<leftarrow> on_client p u w;
         let w = snd (TRANSOCKS_SHUTDOWN os fd how w);
         let (fd', w) = TRANSOCKS_CLOSE fd2 w;
         transocks_check_normal_termination os p d w
       }) (splice_steady e env)"
proof (cases r)
  case read_eof
  then show ?thesis
    by (auto simp: TRANSOCKS_SHUTDOWN_def sys_after_calls TRANSOCKS_CLOSE_simp
      intro!: pumping_client [where u = u, OF P u] pumping_termination [of e env p "u c" s])
qed (use pumping_pipe [OF P q] pumping_free [OF P] pumping_termination pumping_termination [OF P] in
    \<open>simp_all add: transocks_on_fatal_failure_def\<close>)

lemma read_from_pipe_safe:
  assumes P: "pumping e env p c s w"
  shows "holds (transocks_read_from_pipe os p d w) (splice_steady e env)"
proof -
  note D = pumping_read [OF P] and fl = pumping_flags [OF P]
  obtain ip op where pipes: "splicepipes w (inbound_pipe s) = Some ip" "splicepipes w (outbound_pipe s) = Some op" using D(3,4) by blast
  note fatal = pumping_free [OF P, of os, folded transocks_on_fatal_failure_def]
  show ?thesis
    unfolding transocks_read_from_pipe_def D(1,2) Option.bind.simps
    by (cases d; hypsubst; unfold transocks_splicepump_data_direction.case Let_pair pipes Option.bind.simps
        Let_def [of "pipe_readfd _"] Let_def [of "data_in_pipe _"];
      rule holds_if, rule fatal, rule holds_splice, rule drain_result_safe [of _ _ _ c s]; simp add: P fl)
qed

lemma splice_callbacks_safe:
  assumes "pumping e env p c s w"
  shows "holds (transocks_splicepump_client_readcb os p w) (splice_steady e env)"
    "holds (transocks_splicepump_client_writecb os p w) (splice_steady e env)"
    "holds (transocks_splicepump_relay_readcb os p w) (splice_steady e env)"
    "holds (transocks_splicepump_relay_writecb os p w) (splice_steady e env)"
  unfolding transocks_splicepump_client_readcb_def transocks_splicepump_client_writecb_def transocks_splicepump_relay_readcb_def
    transocks_splicepump_relay_writecb_def
  by (rule write_to_pipe_safe [OF assms] read_from_pipe_safe [OF assms])+
end
