(* ===== verification/Splice_Entry.thy ===== *)
theory Splice_Entry
  imports Splice_Safety
begin

text \<open>
  A client that has finished its handshake enters the splicing pump: what the start does when everything it asks
  for is granted, and that the client then belongs to the part of the memory with the running pumps.
\<close>

unbundle bit_operations_syntax

subsection \<open>Starting a pump\<close>

definition splice_granted :: "os \<Rightarrow> bool" where
  "splice_granted os \<longleftrightarrow> splice_served os \<and> (\<forall>h b. os_ret os h (Bufferevent_disable b EV_READ_WRITE) = 0)"

lemma silent_disabled: "silent (r\<lparr>bev_enabled := bev_enabled r AND NOT EV_READ_WRITE\<rparr>)"
proof -
  have off: "(x AND NOT y) AND y = 0" for x y :: "16 word"
    by (rule bit_word_eqI) (auto simp: bit_simps)
  show ?thesis unfolding silent_def using off [of "bev_enabled r" EV_READ_WRITE] by (cases r) simp
qed

lemma createpipe_granted:
  assumes "splice_granted os"
  shows "\<exists>r x cs. createpipe os w = (Some (r, x), after_calls cs w) \<and> r \<ge> 0"
proof -
  obtain cs where cs: "snd (createpipe os w) = after_calls cs w" using only_calls_createpipe [of w os] by (auto simp: only_calls_def)
  obtain r x where p: "os_pipe os (hist w) = (r, x)" by fastforce
  have "0 \<le> r" "0 \<le> x" using assms p unfolding splice_granted_def splice_served_def by (metis fst_conv, metis snd_conv)
  then have "fst (createpipe os w) = Some (r, x)"
    using assms by (simp add: createpipe_def p setnonblocking_def splice_granted_def splice_served_def sys_def Let_def)
  with cs \<open>0 \<le> r\<close> show ?thesis by (metis prod.collapse)
qed

lemma getpipesize_granted:
  assumes "splice_granted os" and "fd \<ge> 0"
  shows "\<exists>n. getpipesize os fd w = (n, after_calls [Fcntl_getpipe_sz fd] w) \<and> n \<noteq> -1"
  using assms by (simp add: getpipesize_def sys_after_calls splice_granted_def splice_served_def)

text \<open>The memory of a client whose pump has been allocated, and of the pump with its events.\<close>

definition with_pump :: "addr \<Rightarrow> transocks_client \<Rightarrow> transocks_splicepipe \<Rightarrow> transocks_splicepipe \<Rightarrow> world \<Rightarrow> world" where
  "with_pump p c ip op w = (let a = brk w in w\<lparr>brk := Suc (Suc (Suc a)), splicepumps := (splicepumps w)(a \<mapsto> blank_pump a),
     splicepipes := (splicepipes w)(Suc a \<mapsto> ip, Suc (Suc a) \<mapsto> op), clients := (clients w)(p \<mapsto> c\<lparr>user_arg := a\<rparr>)\<rparr>)"

lemma splicepump_new_run:
  assumes "splice_granted os" and "0 < brk w" and "clients w p = Some c"
  shows "\<exists>cs. transocks_splicepump_new os p w = Some (brk w, after_calls cs (with_pump p c (blank_pipe os) (blank_pipe os) w))"
  using assms
  by (simp add: splice_granted_def splice_served_def transocks_splicepump_new_def malloc_splicepump_def malloc_splicepipe_def alloc_simp
      on_splicepump_def on_splicepipe_def on_client_def with_pump_def Let_def blank_pump_def blank_pipe_def) blast

lemma open_pipes_run:
  assumes G: "splice_granted os" and b: "0 < brk w"
  shows "\<exists>ip op cs. splicepump_open_pipes os base p (brk w) (after_calls ds (with_pump p c ip0 op0 w)) =
    splicepump_new_events os base p (brk w) (after_calls cs (with_pump p c ip op w))"
proof -
  let ?w = "after_calls ds (with_pump p c ip0 op0 w)"
  obtain r x cs1 where p1: "createpipe os ?w = (Some (r, x), after_calls cs1 ?w)" "r \<ge> 0" using createpipe_granted [OF G] by blast
  let ?w1 = "after_calls (ds @ cs1) (with_pump p c (ip0\<lparr>pipe_readfd := r, pipe_writefd := x\<rparr>) op0 w)"
  obtain r' x' cs2 where p2: "createpipe os ?w1 = (Some (r', x'), after_calls cs2 ?w1)" "r' \<ge> 0" using createpipe_granted [OF G] by blast
  let ?op = "op0\<lparr>pipe_readfd := r', pipe_writefd := x'\<rparr>"
  let ?w2 = "after_calls (ds @ cs1 @ cs2) (with_pump p c (ip0\<lparr>pipe_readfd := r, pipe_writefd := x\<rparr>) ?op w)"
  obtain n where n: "getpipesize os r ?w2 = (n, after_calls [Fcntl_getpipe_sz r] ?w2)" "n \<noteq> -1" using getpipesize_granted [OF G p1(2)] by blast
  let ?ip = "ip0\<lparr>pipe_readfd := r, pipe_writefd := x, capacity := word_of_int n\<rparr>"
  let ?w3 = "after_calls (ds @ cs1 @ cs2 @ [Fcntl_getpipe_sz r]) (with_pump p c ?ip ?op w)"
  obtain m where m: "getpipesize os r' ?w3 = (m, after_calls [Fcntl_getpipe_sz r'] ?w3)" "m \<noteq> -1" using getpipesize_granted [OF G p2(2)] by blast
  have upd: "on_splicepipe (Suc (brk w)) u (after_calls cs (with_pump p c y z w)) = Some (after_calls cs (with_pump p c (u y) z w))"
    "on_splicepipe (Suc (Suc (brk w))) u (after_calls cs (with_pump p c y z w)) = Some (after_calls cs (with_pump p c y (u z) w))" for u cs y z
    by (simp_all add: on_splicepipe_def with_pump_def Let_def fun_upd_twist)
  have s: "splicepumps (with_pump p c y z w) (brk w) = Some (blank_pump (brk w))" for y z by (simp add: with_pump_def Let_def)
  have pipes: "inbound_pipe (blank_pump a) = Suc a" "outbound_pipe (blank_pump a) = Suc (Suc a)" for a by (simp_all add: blank_pump_def)
  show ?thesis
    using p1 p2 n m by (simp add: splicepump_open_pipes_def s pipes upd) blast
qed

definition full_pump :: "addr \<Rightarrow> transocks_splicepump" where
  "full_pump a = (blank_pump a)\<lparr>client_read_ev := Suc (Suc (Suc a)), client_write_ev := Suc (Suc (Suc (Suc a))),
     relay_read_ev := Suc (Suc (Suc (Suc (Suc a)))), relay_write_ev := Suc (Suc (Suc (Suc (Suc (Suc a)))))\<rparr>"

definition pump_regs :: "addr \<Rightarrow> transocks_client \<Rightarrow> transocks_splicepipe \<Rightarrow> transocks_splicepipe \<Rightarrow> addr \<Rightarrow> addr \<rightharpoonup> ev_reg" where
  "pump_regs p c ip op a = [Suc (Suc (Suc a)) \<mapsto> splice_reg p True (client_fd c) Splicepump_client_readcb,
     Suc (Suc (Suc (Suc a))) \<mapsto> splice_reg p True (pipe_readfd ip) Splicepump_client_writecb,
     Suc (Suc (Suc (Suc (Suc a)))) \<mapsto> splice_reg p True (relay_fd c) Splicepump_relay_readcb,
     Suc (Suc (Suc (Suc (Suc (Suc a))))) \<mapsto> splice_reg p True (pipe_readfd op) Splicepump_relay_writecb]"

definition started :: "addr \<Rightarrow> transocks_client \<Rightarrow> transocks_splicepipe \<Rightarrow> transocks_splicepipe \<Rightarrow> world \<Rightarrow> world" where
  "started p c ip op w = (let a = brk w in w\<lparr>splicepipes := (splicepipes w)(Suc a \<mapsto> ip, Suc (Suc a) \<mapsto> op),
     clients := (clients w)(p \<mapsto> c\<lparr>user_arg := a\<rparr>), brk := Suc (Suc (Suc (Suc (Suc (Suc (Suc a)))))), splicepumps := (splicepumps w)(a \<mapsto> full_pump a),
     events := events w ++ pump_regs p c ip op a\<rparr>)"

lemma new_events_run:
  assumes "splice_granted os" and "0 < brk w"
  shows "\<exists>cs. splicepump_new_events os base p (brk w) (after_calls ds (with_pump p c ip op w)) =
    Some (0, after_calls cs (started p c ip op w))"
  using assms
  by (simp add: splicepump_new_events_def with_pump_def started_def Let_def splice_granted_def splice_served_def event_new_def alloc_simp
    on_splicepump_def splicepump_add_events_def event_add_def sys_after_calls blank_pump_def full_pump_def pump_regs_def splice_reg_def
    fun_upd_twist) blast

text \<open>The bufferevents of the client are switched off before the pump is made.\<close>

lemma disable_granted:
  assumes "splice_granted os" and "bevs w b = Some r"
  shows "\<exists>r'. bufferevent_disable os b EV_READ_WRITE w =
      Some (0, after_calls [Bufferevent_disable b EV_READ_WRITE] (w\<lparr>bevs := (bevs w)(b \<mapsto> r')\<rparr>)) \<and> same_cbs r r' \<and> silent r'"
proof -
  let ?r = "r\<lparr>bev_enabled := bev_enabled r AND NOT EV_READ_WRITE\<rparr>"
  show ?thesis
    using assms silent_disabled [of r]
    by (intro exI [of _ ?r]) (simp add: bufferevent_disable_def on_bev_def sys_after_calls splice_granted_def same_cbs_def)
qed

lemma setfd_silent:
  assumes "bevs w b = Some r" and "silent r"
  shows "\<exists>n r'. bufferevent_setfd os b fd w =
      Some (n, after_calls [Bufferevent_setfd b fd] (w\<lparr>bevs := (bevs w)(b \<mapsto> r')\<rparr>)) \<and> same_cbs r r' \<and> silent r'"
proof -
  let ?r = "if os_ret os (hist w) (Bufferevent_setfd b fd) = 0 then r\<lparr>bev_fd := fd\<rparr> else r"
  show ?thesis
    using assms
    by (intro exI [of _ "os_ret os (hist w) (Bufferevent_setfd b fd)"] exI [of _ ?r])
      (simp add: bufferevent_setfd_def on_bev_def sys_after_calls same_cbs_def silent_def fun_upd_idem)
qed

text \<open>The memory with the bufferevents of the client in the states \<open>r\<close> and \<open>s\<close>.\<close>

definition with_bevs :: "transocks_client \<Rightarrow> bev_reg \<Rightarrow> bev_reg \<Rightarrow> world \<Rightarrow> world" where
  "with_bevs c r s w = w\<lparr>bevs := (bevs w)(client_bev c \<mapsto> r, relay_bev c \<mapsto> s)\<rparr>"


lemma start_run:
  assumes G: "splice_granted os" and c: "clients w p = Some c" "client_bev c \<noteq> relay_bev c" "envs w (global_env c) = Some env"
    and bev: "bevs w (client_bev c) = Some r" "bevs w (relay_bev c) = Some s" and b: "0 < brk w"
  shows "\<exists>r' s' ip op cs. transocks_splicepump_start_pump os p w = Some (0, after_calls cs (started p c ip op (with_bevs c r' s' w)))
    \<and> same_cbs r r' \<and> same_cbs s s' \<and> silent s'"
proof -
  obtain r1 where r1: "bufferevent_disable os (client_bev c) EV_READ_WRITE w =
      Some (0, after_calls [Bufferevent_disable (client_bev c) EV_READ_WRITE] (w\<lparr>bevs := (bevs w)(client_bev c \<mapsto> r1)\<rparr>))" "same_cbs r r1" "silent r1"
    using disable_granted [OF G bev(1)] by blast
  let ?w1 = "after_calls [Bufferevent_disable (client_bev c) EV_READ_WRITE] (w\<lparr>bevs := (bevs w)(client_bev c \<mapsto> r1)\<rparr>)"
  obtain s1 cs2 where s1: "bufferevent_disable os (relay_bev c) EV_READ_WRITE ?w1 = Some (0, after_calls cs2 (with_bevs c r1 s1 w))"
      "same_cbs s s1" "silent s1"
    using disable_granted [OF G, of ?w1 "relay_bev c" s] bev(2) c(2) by (auto simp: with_bevs_def)
  obtain n r2 cs3 where r2: "bufferevent_setfd os (client_bev c) (-1) (after_calls cs2 (with_bevs c r1 s1 w)) = Some (n, after_calls cs3 (with_bevs c r2 s1 w))"
      "same_cbs r1 r2" "silent r2"
    using setfd_silent [of "after_calls cs2 (with_bevs c r1 s1 w)" "client_bev c" r1 os "-1"] r1(3) c(2) by (auto simp: with_bevs_def fun_upd_twist)
  obtain m s2 cs4 where s2: "bufferevent_setfd os (relay_bev c) (-1) (after_calls cs3 (with_bevs c r2 s1 w)) = Some (m, after_calls cs4 (with_bevs c r2 s2 w))"
      "same_cbs s1 s2" "silent s2"
    using setfd_silent [of "after_calls cs3 (with_bevs c r2 s1 w)" "relay_bev c" s1 os "-1"] s1(3) c(2) by (auto simp: with_bevs_def)
  let ?w = "after_calls cs4 (with_bevs c r2 s2 w)"
  have w: "clients ?w p = Some c" "0 < brk ?w" "brk ?w = brk w" "envs ?w (global_env c) = Some env" using c b by (simp_all add: with_bevs_def)
  obtain cs5 where new: "transocks_splicepump_new os p ?w = Some (brk w, after_calls cs5 (with_pump p c (blank_pipe os) (blank_pipe os) ?w))"
    using splicepump_new_run [OF G w(2,1)] w(3) by auto
  obtain ip op cs6 where op: "splicepump_open_pipes os (eventBaseLoop env) p (brk w) (after_calls cs5 (with_pump p c (blank_pipe os) (blank_pipe os) ?w)) =
      splicepump_new_events os (eventBaseLoop env) p (brk w) (after_calls cs6 (with_pump p c ip op ?w))"
    using open_pipes_run [OF G w(2)] w(3) by metis
  obtain cs7 where ev: "splicepump_new_events os (eventBaseLoop env) p (brk w) (after_calls cs6 (with_pump p c ip op ?w)) =
      Some (0, after_calls cs7 (started p c ip op ?w))"
    using new_events_run [OF G w(2), of "eventBaseLoop env" p cs6 c ip op] w(3) by auto
  have "envs (after_calls cs5 (with_pump p c (blank_pipe os) (blank_pipe os) ?w)) (global_env c) = Some env"
    using w(4) by (simp add: with_pump_def Let_def)
  then have "transocks_splicepump_start_pump os p w = Some (0, after_calls cs7 (started p c ip op ?w))"
    using b by (simp add: transocks_splicepump_start_pump_def c(1) r1(1) s1(1) r2(1) s2(1) new op ev)
  moreover have "started p c ip op ?w = after_calls cs4 (started p c ip op (with_bevs c r2 s2 w))"
    by (simp add: started_def Let_def)
  moreover have "same_cbs r r2" "same_cbs s s2" using r1(2) r2(2) s1(2) s2(2) by (simp_all add: same_cbs_def)
  ultimately show ?thesis using s2(3) by simp blast
qed

text \<open>A part with one more client.\<close>

definition joined :: "addr \<Rightarrow> transocks_client \<Rightarrow> transocks_splicepipe \<Rightarrow> transocks_splicepipe \<Rightarrow> bev_reg \<Rightarrow> ev_reg \<Rightarrow> addr \<Rightarrow> part \<Rightarrow> part" where
  "joined p c ip op s t a F = F\<lparr>part_events := part_events F ++ pump_regs p c ip op a, part_pumps := (part_pumps F)(a \<mapsto> full_pump a),
     part_pipes := (part_pipes F)(Suc a \<mapsto> ip, Suc (Suc a) \<mapsto> op), part_clients := (part_clients F)(p \<mapsto> c\<lparr>user_arg := a\<rparr>),
     part_bevs := (part_bevs F)(relay_bev c \<mapsto> s), part_timers := (part_timers F)(timeout_ev c \<mapsto> t)\<rparr>"

definition past_start :: "addr \<Rightarrow> transocks_client \<Rightarrow> bev_reg \<Rightarrow> bev_reg \<Rightarrow> world \<Rightarrow> world" where
  "past_start p c r s w = (with_bevs c r s w)\<lparr>clients := (clients w)(p \<mapsto> c\<lparr>user_arg := brk w\<rparr>), brk := brk w + 7\<rparr>"

lemma started_adjoin:
  "started p c ip op (with_bevs c r s (adjoin F w)) = adjoin (joined p c ip op s t (brk w) F) (past_start p c r s w)"
  by (simp add: started_def with_bevs_def past_start_def joined_def adjoin_def Let_def)

lemma at_past_start:
  assumes A: "steady_at e env p c w" and r: "bevs w (client_bev c) = Some r" "same_cbs r r'" and s: "bevs w (relay_bev c) = Some s" "same_cbs s s'"
  shows "steady e env (past_start p c r' s' w)"
proof -
  note own = own_bevs_complete [OF steady_complete [OF A]]
  have ne: "relay_bev c \<noteq> client_bev c" using steady_complete [OF A] inv_clientD(1) [of e env _ "{}" "{}" "{}" w p c] A
    by (auto simp: at_def client_base_def complete_def)
  have "steady_at e env p c (w\<lparr>bevs := (bevs w)(client_bev c \<mapsto> r')\<rparr>)" by (rule at_bev_upd [OF A own(1) r])
  then have "steady_at e env p c (with_bevs c r' s' w)" using at_bev_upd [of e env _ "{}" "{}" "{}" p c _ "relay_bev c" s s'] own(2) s ne
    by (fastforce simp: with_bevs_def)
  then have I: "steady e env (w\<lparr>bevs := bevs (with_bevs c r' s' w), clients := (clients w)(p \<mapsto> c\<lparr>user_arg := brk w\<rparr>)\<rparr>)"
    using inv_client_upd [of e env _ "{}" "{}" "{}" "with_bevs c r' s' w" p c "c\<lparr>user_arg := brk w\<rparr>"] steady_same_parts [OF A]
    by (simp add: at_def same_parts_def with_bevs_def)
  have "wf_world (v\<lparr>brk := brk v + 7\<rparr>)" if "wf_world v" for v using that by (auto simp: wf_world_def)
  then have "steady e env (v\<lparr>brk := brk v + 7\<rparr>)" if "steady e env v" for v
    using that by (simp add: winv_def)
  from this [OF I] show ?thesis by (simp add: past_start_def with_bevs_def)
qed


lemma dom_pump_regs: "dom (pump_regs p c ip op a) = set (pump_events (full_pump a))" "dom (pump_regs p c ip op a) \<subseteq> {a<..<a + 7}"
  by (auto simp: pump_regs_def pump_events_def full_pump_def blank_pump_def)

lemma dom_joined:
  "dom (part_events (joined p c ip op s t a F)) = dom (part_events F) \<union> dom (pump_regs p c ip op a)"
  "dom (part_pumps (joined p c ip op s t a F)) = insert a (dom (part_pumps F))"
  "dom (part_pipes (joined p c ip op s t a F)) = {Suc a, Suc (Suc a)} \<union> dom (part_pipes F)"
  "dom (part_clients (joined p c ip op s t a F)) = insert p (dom (part_clients F))"
  "dom (part_bevs (joined p c ip op s t a F)) = insert (relay_bev c) (dom (part_bevs F))"
  "dom (part_timers (joined p c ip op s t a F)) = insert (timeout_ev c) (dom (part_timers F))"
  by (auto simp: joined_def)

lemma disjoint_above: "N \<subseteq> {a<..<a + 7} \<Longrightarrow> E \<subseteq> {0<..<a} \<Longrightarrow> N \<inter> E = {}" for a :: nat
  by fastforce

lemma widen: "E \<subseteq> {0<..<a} \<Longrightarrow> E \<subseteq> {0<..<a + 7}" "N \<subseteq> {a<..<a + 7} \<Longrightarrow> N \<subseteq> {0<..<a + 7}" for a :: nat
  by fastforce+

lemma apart_joined:
  assumes S: "spliced e env F w" and c: "clients w p = Some c" "p \<notin> dom (part_clients F)"
    and r: "bevs w (client_bev c) = Some r" "same_cbs r r'" and s: "bevs w (relay_bev c) = Some s" "same_cbs s s'"
    and t: "events w (timeout_ev c) = Some t"
  shows "apart {} (joined p c ip op s' t (brk w) F) (past_start p c r' s' w)"
proof -
  let ?F = "joined p c ip op s' t (brk w) F" and ?w = "past_start p c r' s' w"
  have A: "apart {} F w" and I: "steady e env w" using S by (simp_all add: spliced_def)
  note D = inv_completeD [OF I c(1), simplified]
  have wf: "dom (events w) \<subseteq> {0<..<brk w}" "p < brk w" "p \<noteq> NULL" "relay_bev c < brk w" "0 < brk w" "timeout_ev c < brk w"
    using invD(1) [OF I] c(1) D(8,9) inv_clientD(3) [OF I c(1)] by (auto simp: wf_world_def)
  have tame: "tame F c" by (rule tame_client [OF A c(2,1)])
  have ne: "relay_bev c \<noteq> client_bev c" using inv_clientD(1) [OF I c(1)] D(1) by (auto simp: client_base_def)
  have brk: "brk ?w = brk w + 7" "events ?w = events w" by (simp_all add: past_start_def with_bevs_def)
  note above = dom_pump_regs(2) [of p c ip op "brk w"]
  have low: "dom (part_events F) \<subseteq> {0<..<brk w}" "dom (part_pumps F) \<subseteq> {0<..<brk w}" "dom (part_pipes F) \<subseteq> {0<..<brk w}"
    "dom (part_clients F) \<subseteq> {0<..<brk w}" "dom (part_bevs F) \<subseteq> {0<..<brk w}" "dom (part_events F) \<inter> dom (events w) = {}"
    "dom (part_timers F) \<subseteq> {0<..<brk w}"
    using A by (simp_all add: apart_def)
  have "dom (part_events ?F) \<inter> dom (events ?w) = {}"
    using low(6) disjoint_above [OF above wf(1)] unfolding dom_joined(1) brk by blast
  moreover have "dom (part_events ?F) \<subseteq> {0<..<brk ?w}"
    using widen(1) [OF low(1)] widen(2) [OF above] unfolding dom_joined(1) brk by blast
  moreover have "dom (part_pumps ?F) \<subseteq> {0<..<brk ?w}" "dom (part_pipes ?F) \<subseteq> {0<..<brk ?w}" "dom (part_clients ?F) \<subseteq> {0<..<brk ?w}"
    "dom (part_bevs ?F) \<subseteq> {0<..<brk ?w}" "dom (part_timers ?F) \<subseteq> {0<..<brk ?w}" "0 < brk ?w"
    using low(1-5,7) [THEN widen(1)] wf(2-6) D(2,3) unfolding dom_joined brk by simp_all
  moreover have "part_clients ?F \<subseteq>\<^sub>m clients ?w"
    using A c(2) by (auto simp: apart_def map_le_def joined_def past_start_def)
  moreover have "part_timers ?F \<subseteq>\<^sub>m events ?w"
    using A t by (auto simp: apart_def map_le_def joined_def past_start_def with_bevs_def)
  moreover have "part_bevs ?F \<subseteq>\<^sub>m bevs ?w"
    using A tame ne by (auto simp: apart_def map_le_def joined_def past_start_def with_bevs_def tame_def)
  moreover have "tame ?F d" if "clients ?w q = Some d" "q \<notin> dom (part_clients ?F)" for q d
  proof -
    have q: "clients w q = Some d" "q \<noteq> p" "q \<notin> dom (part_clients F)" using that by (auto simp: past_start_def dom_joined split: if_splits)
    then show ?thesis using tame_client [OF A q(3,1)] spliced_distinct [OF S c(1) q(1,2)] by (auto simp: tame_def dom_joined)
  qed
  moreover have "plain x" if "bevs ?w b = Some x" for b x
  proof -
    have "plain r" "plain s" using A r(1) s(1) by (simp_all add: apart_def)
    then have "plain r'" "plain s'" using r(2) s(2) by (simp_all add: plain_def same_cbs_def)
    with that A show ?thesis by (auto simp: apart_def past_start_def with_bevs_def split: if_splits)
  qed
  ultimately show ?thesis unfolding apart_def by blast
qed

lemma part_clients_joined: "part_clients (joined p c ip op s t a F) = (part_clients F)(p \<mapsto> c\<lparr>user_arg := a\<rparr>)"
  by (simp add: joined_def)

lemma pump_of_joined:
  assumes S: "spliced e env F w"
  shows "pump_of (joined p c ip op s t (brk w) F) (c\<lparr>user_arg := brk w\<rparr>) = full_pump (brk w)"
    and "part_clients F q = Some d \<Longrightarrow> pump_of (joined p c ip op s t (brk w) F) d = pump_of F d"
proof -
  show "pump_of (joined p c ip op s t (brk w) F) (c\<lparr>user_arg := brk w\<rparr>) = full_pump (brk w)" by (simp add: pump_of_def joined_def)
  assume "part_clients F q = Some d"
  then have "part_pumps F (user_arg d) \<noteq> None" using running_client(2) [OF S] by simp
  then have "user_arg d \<noteq> brk w" using S by (auto simp: spliced_def apart_def)
  then show "pump_of (joined p c ip op s t (brk w) F) d = pump_of F d" by (simp add: pump_of_def joined_def)
qed

lemma owned_joined:
  assumes S: "spliced e env F w" and p: "part_clients F p = None" and F': "F' = joined p c ip op s t (brk w) F"
  shows "owned_once {} (part_clients F') own_pump (dom (part_pumps F'))"
    "owned_once {} (part_clients F') (own_pipes F') (dom (part_pipes F'))"
    "owned_once {} (part_clients F') (own_pump_events F') (dom (part_events F'))"
proof -
  let ?a = "brk w" and ?c = "c\<lparr>user_arg := brk w\<rparr>"
  have A: "apart {} F w" and O: "pumps_owned F" using S by (simp_all add: spliced_def running_def)
  note pump = pump_of_joined [OF S, where p = p and c = c and ip = ip and op = op and s = s and t = t, folded F']
  have own: "own_pump ?c = {?a}" "own_pipes F' ?c = {Suc ?a, Suc (Suc ?a)}" "own_pump_events F' ?c = dom (pump_regs p c ip op ?a)"
    by (simp_all add: own_pump_def own_pipes_def own_pump_events_def pump(1) dom_pump_regs full_pump_def blank_pump_def)
  have fresh: "{?a} \<inter> dom (part_pumps F) = {}" "{Suc ?a, Suc (Suc ?a)} \<inter> dom (part_pipes F) = {}"
    "dom (pump_regs p c ip op ?a) \<inter> dom (part_events F) = {}"
    using A dom_pump_regs(2) [of p c ip op ?a] by (fastforce simp: apart_def)+
  have old: "owned_once {} (part_clients F) own_pump (dom (part_pumps F))"
    "owned_once {} (part_clients F) (own_pipes F') (dom (part_pipes F))"
    "owned_once {} (part_clients F) (own_pump_events F') (dom (part_events F))"
    using O pump(2) owned_once_cong [of "{}" "part_clients F" "own_pipes F" _ "own_pipes F'"]
      owned_once_cong [of "{}" "part_clients F" "own_pump_events F" _ "own_pump_events F'"]
    by (simp_all add: pumps_owned_def own_pipes_def own_pump_events_def)
  show "owned_once {} (part_clients F') own_pump (dom (part_pumps F'))"
    using owned_once_add [OF old(1) p, of ?c] fresh(1) own(1) by (simp add: F' part_clients_joined dom_joined)
  show "owned_once {} (part_clients F') (own_pipes F') (dom (part_pipes F'))"
    using owned_once_add [OF old(2) p, of ?c] fresh(2) own(2) by (simp add: F' part_clients_joined dom_joined Un_commute)
  show "owned_once {} (part_clients F') (own_pump_events F') (dom (part_events F'))"
    using owned_once_add [OF old(3) p, of ?c] fresh(3) own(3) by (simp add: F' part_clients_joined dom_joined)
qed

lemma events_joined:
  assumes S: "spliced e env F w" and p: "part_clients F p = None" and F': "F' = joined p c ip op s t (brk w) F"
    and r: "part_events F' ev = Some r" "part_clients F' q = Some d" "ev \<in> own_pump_events F' d"
  shows "ev_arg r = q \<and> ev_cb r \<in> splice_callbacks"
proof (cases "q = p")
  case True
  then have "d = c\<lparr>user_arg := brk w\<rparr>" using r(2) by (simp add: F' part_clients_joined)
  then have "ev \<in> dom (pump_regs p c ip op (brk w))"
    using r(3) pump_of_joined(1) [OF S] by (simp add: F' own_pump_events_def dom_pump_regs)
  with r(1) have "pump_regs p c ip op (brk w) ev = Some r" by (auto simp: F' joined_def)
  then show ?thesis using True by (auto simp: pump_regs_def splice_reg_def splice_callbacks_def split: if_splits)
next
  case False
  have A: "apart {} F w" and O: "pumps_owned F" using S by (simp_all add: spliced_def running_def)
  have d: "part_clients F q = Some d" using r(2) False by (simp add: F' part_clients_joined)
  have ev: "ev \<in> own_pump_events F d" using r(3) pump_of_joined(2) [OF S d] by (simp add: F' own_pump_events_def)
  then have "ev \<in> dom (part_events F)" using running_client(5) [OF S d] by blast
  then have "ev \<notin> dom (pump_regs p c ip op (brk w))" using A dom_pump_regs(2) [of p c ip op "brk w"] by (fastforce simp: apart_def)
  with r(1) have "part_events F ev = Some r" by (auto simp: F' joined_def map_add_Some_iff)
  with d ev O show ?thesis unfolding pumps_owned_def by blast
qed

lemma pumps_owned_joined:
  assumes S: "spliced e env F w" and p: "part_clients F p = None"
  shows "pumps_owned (joined p c ip op s t (brk w) F)"
proof -
  let ?F = "joined p c ip op s t (brk w) F"
  have O: "pumps_owned F" using S by (simp add: spliced_def running_def)
  have "inbound_pipe (pump_of ?F d) \<noteq> outbound_pipe (pump_of ?F d) \<and> distinct (pump_events (pump_of ?F d))"
    if d: "part_clients ?F q = Some d" for q d
  proof (cases "q = p")
    case True
    then have "d = c\<lparr>user_arg := brk w\<rparr>" using d by (simp add: part_clients_joined)
    then show ?thesis using pump_of_joined(1) [OF S] by (simp add: full_pump_def blank_pump_def pump_events_def)
  next
    case False
    with d have d': "part_clients F q = Some d" by (simp add: part_clients_joined)
    with O pump_of_joined(2) [OF S d'] show ?thesis by (simp add: pumps_owned_def)
  qed
  with owned_joined [OF S p refl, where c = c and ip = ip and op = op and s = s and t = t] events_joined [OF S p refl, where c = c and ip = ip and op = op and s = s and t = t] show ?thesis unfolding pumps_owned_def by blast
qed

lemma quiet_joined:
  assumes Q: "quiet F" and p: "part_clients F p = None" and s: "silent s" "\<not> ev_added t"
  shows "quiet (joined p c ip op s t a F)"
proof -
  let ?F = "joined p c ip op s t a F" and ?c = "c\<lparr>user_arg := a\<rparr>"
  note cl = part_clients_joined [of p c ip op s t a F]
  have new: "part_clients ?F p = Some ?c" "relay_bev ?c = relay_bev c" "timeout_ev ?c = timeout_ev c" by (simp_all add: cl)
  have old: "part_clients F q = Some d \<Longrightarrow> part_clients ?F q = Some d" for q d using p by (auto simp: cl)
  have "\<exists>r. part_bevs ?F (relay_bev d) = Some r \<and> silent r" "\<exists>r. part_timers ?F (timeout_ev d) = Some r \<and> \<not> ev_added r"
    if "part_clients ?F q = Some d" for q d
    using that s Q by (auto simp: cl quiet_def joined_def split: if_splits)
  moreover have "\<exists>q d. part_clients ?F q = Some d \<and> b = relay_bev d" if "b \<in> dom (part_bevs ?F)" for b
    using that Q old new unfolding quiet_def dom_joined by (metis insert_iff)
  moreover have "\<exists>q d. part_clients ?F q = Some d \<and> ev = timeout_ev d" if "ev \<in> dom (part_timers ?F)" for ev
    using that Q old new unfolding quiet_def dom_joined by (metis insert_iff)
  ultimately show ?thesis unfolding quiet_def by blast
qed

lemma running_joined:
  assumes S: "spliced e env F w" and p: "p \<notin> dom (part_clients F)" and s: "silent s" "\<not> ev_added t"
  shows "running (joined p c ip op s t (brk w) F)"
proof -
  have "part_clients F p = None" "quiet F" using S p by (auto simp: spliced_def running_def)
  then show ?thesis using pumps_owned_joined [OF S] quiet_joined [OF _ _ s] by (simp add: running_def)
qed

subsection \<open>The reply of the relay\<close>

lemma splice_start_pumping:
  assumes S: "spliced e env F w" and c: "clients w p = Some c" "p \<notin> dom (part_clients F)" and G: "splice_granted os"
    and t: "events w (timeout_ev c) = Some t" "\<not> ev_added t"
  shows "holds (transocks_splicepump_start_pump os p (adjoin F w))
    (\<lambda>(r, w'). r = 0 \<and> pumping e env p (c\<lparr>user_arg := brk w\<rparr>) (full_pump (brk w)) w')"
proof -
  have I: "steady e env w" using S by (simp add: spliced_def)
  have A: "steady_at e env p c w" using I c(1) by (simp add: at_def)
  note D = inv_completeD [OF I c(1), simplified]
  obtain r s where bev: "bevs w (client_bev c) = Some r" "bevs w (relay_bev c) = Some s" using D(7,8) by blast
  have "client_bev c \<noteq> relay_bev c" using inv_clientD(1) [OF I c(1)] D(1) by (auto simp: client_base_def)
  moreover have "0 < brk w" using S apart_brk by (auto simp: spliced_def)
  moreover have "envs w (global_env c) = Some env" using invD(8) [OF I] D(6) by simp
  ultimately obtain r' s' ip op cs where run: "transocks_splicepump_start_pump os p (adjoin F w) =
      Some (0, after_calls cs (started p c ip op (with_bevs c r' s' (adjoin F w))))" "same_cbs r r'" "same_cbs s s'" "silent s'"
    using start_run [OF G, of "adjoin F w" p c env r s] c(1) bev by auto
  let ?F = "joined p c ip op s' t (brk w) F"
  have "spliced e env ?F (past_start p c r' s' w)"
    using at_past_start [OF A bev(1) run(2) bev(2) run(3)] apart_joined [OF S c bev(1) run(2) bev(2) run(3) t(1)] running_joined [OF S c(2) run(4) t(2)]
    by (simp add: spliced_def)
  moreover have "part_clients ?F p = Some (c\<lparr>user_arg := brk w\<rparr>)" "pump_of ?F (c\<lparr>user_arg := brk w\<rparr>) = full_pump (brk w)"
    by (simp_all add: joined_def pump_of_def)
  ultimately have "pumping e env p (c\<lparr>user_arg := brk w\<rparr>) (full_pump (brk w)) (started p c ip op (with_bevs c r' s' (adjoin F w)))"
    unfolding started_adjoin [where t = t] pumping_def by blast
  then show ?thesis using run(1) by simp
qed

lemma splice_start_pump_safe:
  assumes S: "spliced e env F w" and c: "clients w p = Some c" "p \<notin> dom (part_clients F)" and G: "splice_granted os"
    and t: "events w (timeout_ev c) = Some t" "\<not> ev_added t"
  shows "holds (transocks_start_pump os p (adjoin F w)) (\<lambda>(r, w'). r = 0 \<and> splice_steady e env w')"
proof -
  let ?c = "c\<lparr>user_arg := brk w\<rparr>"
  have "holds (on_client p (\<lambda>c. c\<lparr>client_state := client_pumping_data\<rparr>) w') (splice_steady e env)"
    if P: "pumping e env p ?c (full_pump (brk w)) w'" for w'
    using pumping_flags [OF P] pumping_steady by (intro pumping_client [OF P]) (auto simp: same_parts_def)
  then have "holds (do { w \<leftarrow> on_client p (\<lambda>c. c\<lparr>client_state := client_pumping_data\<rparr>) w'; Some (0::int, w) }) (\<lambda>(r, w'). r = 0 \<and> splice_steady e env w')"
    if "pumping e env p ?c (full_pump (brk w)) w'" for w' using that by auto
  then show ?thesis
    using splice_start_pumping [OF assms] unfolding transocks_start_pump_def
    by (auto simp: transocks_splicepump_ops_def holds_def)
qed

definition reply_prefix :: "os \<Rightarrow> addr \<Rightarrow> world \<Rightarrow> (bool \<times> world) option" where
  "reply_prefix os p w = do {
     c \<leftarrow> clients w p;
     w \<leftarrow> event_del (timeout_ev c) w;
     let input = Input (relay_bev c);
     input_read_size \<leftarrow> evbuffer_get_length os input w;
     if input_read_size < 10 then do { w \<leftarrow> TRANSOCKS_FREE (transocks_client_free os) p w; Some (False, w) }
     else do {
       (mem, w) \<leftarrow> evbuffer_pullup os input input_read_size w;
       m \<leftarrow> mem;
       preshead \<leftarrow> as_response_header m;
       if rh_ver preshead \<noteq> SOCKS5_VERSION then do { w \<leftarrow> TRANSOCKS_FREE (transocks_client_free os) p w; Some (False, w) }
       else if rh_rep preshead \<noteq> SOCKS5_REP_SUCCEEDED then do { w \<leftarrow> TRANSOCKS_FREE (transocks_client_free os) p w; Some (False, w) }
       else if rh_atyp preshead = SOCKS5_ATYP_IPV4 \<or> rh_atyp preshead = SOCKS5_ATYP_IPV6 then do {
         (_, w) \<leftarrow> evbuffer_drain os input (if rh_atyp preshead = SOCKS5_ATYP_IPV4 then 10 else 22) w;
         w \<leftarrow> on_client p (\<lambda>c. c\<lparr>client_state := client_socks5_finish_handshake\<rparr>) w;
         (_, w) \<leftarrow> bufferevent_disable os (relay_bev c) EV_READ_WRITE w;
         Some (True, w)
       }
       else do { w \<leftarrow> TRANSOCKS_FREE (transocks_client_free os) p w; Some (False, w) }
     }
   }"

lemma bind_case_pair: "Option.bind (case x of (a, b) \<Rightarrow> f a b) g = (case x of (a, b) \<Rightarrow> Option.bind (f a b) g)"
  by (cases x) simp

lemma reply_split:
  "socks_on_server_connect_reply_readcb os p w = reply_prefix os p w \<bind> (\<lambda>(go, w).
     if go then do { (r, w) \<leftarrow> transocks_start_pump os p w;
       if r \<noteq> 0 then TRANSOCKS_FREE (transocks_client_free os) p w else Some w } else Some w)"
  unfolding socks_on_server_connect_reply_readcb_def reply_prefix_def Let_def
  by (simp add: bind_case_pair if_distrib [where f = "\<lambda>m. Option.bind m _"] cong: if_cong)

lemma local_reply_prefix:
  assumes "apart {} F w" and "p \<notin> dom (part_clients F)"
  shows "framed F (reply_prefix os p w) (reply_prefix os p (adjoin F w))"
  using assms unfolding reply_prefix_def Let_def
  by - (assumption | rule local_rules local_ops | (rule local_reads, (simp add: evbuffer_get_length_def; fail)) | (simp add: local_simps; fail))+

lemma reply_prefix_safe:
  assumes A: "steady_at e env p c w" and R: "env_reliable os"
  shows "holds (reply_prefix os p w) (\<lambda>(go, w'). steady e env w')"
proof -
  have own: "relay_bev c \<in> own_bevs c" "evbuffer_bev (Input (relay_bev c)) \<in> own_bevs c"
    "relay_bev c \<in> own_bevs (c\<lparr>client_state := client_socks5_finish_handshake\<rparr>)"
    and ev: "timeout_ev c \<noteq> NULL" and parts: "same_parts c (c\<lparr>client_state := client_socks5_finish_handshake\<rparr>)"
    using steady_complete [OF A] steady_same_parts [OF A]
    by (simp_all add: own_bevs_def complete_def same_parts_def)
  have P: "\<And>h n b. os_alloc os h (Evbuffer_pullup b n)" using R by (simp add: env_reliable_def)
  show ?thesis
    using A unfolding reply_prefix_def Let_def holds_bind
    by - (((rule at_client_read, assumption) | (rule at_timer_ops(1), assumption, rule ev)
        | (rule at_evbuffer(1,2), assumption, rule own)
        | (rule at_pullup, assumption, rule own, rule P, rule refl)
        | (rule at_on_client, assumption, rule parts) | (rule at_bev_ops(2), assumption, rule own)
        | (rule holds_if) | (erule steady_free)
        | (simp add: as_response_header_def at_inv split del: if_split))+)
qed

text \<open>When the reply has been accepted, the timer of the client is stopped.\<close>

lemma reply_timer_stopped:
  assumes "reply_prefix os p w = Some (True, w')"
  shows "\<exists>c t. clients w' p = Some c \<and> events w' (timeout_ev c) = Some t \<and> \<not> ev_added t"
  using assms
  by (auto simp: reply_prefix_def event_del_def evbuffer_pullup_def evbuffer_drain_def evbuffer_get_length_def on_client_def bufferevent_disable_def on_bev_def
      emit_after_calls sys_after_calls bind_Some_iff Let_def split: if_splits)

lemma splice_reply_safe:
  assumes S: "spliced e env F w" and c: "clients w p = Some c" "p \<notin> dom (part_clients F)" and R: "env_reliable os" and G: "splice_granted os"
  shows "holds (socks_on_server_connect_reply_readcb os p (adjoin F w)) (splice_steady e env)"
proof -
  have I: "steady e env w" "apart {} F w" "running F" using S by (simp_all add: spliced_def)
  then have "steady_at e env p c w" using c(1) by (simp add: at_def)
  from reply_prefix_safe [OF this R] obtain go w' where go: "reply_prefix os p w = Some (go, w')" "steady e env w'"
    by (auto simp: holds_def)
  then have w': "apart {} F w'" "reply_prefix os p (adjoin F w) = Some (go, adjoin F w')"
    using local_reply_prefix [OF I(2) c(2), of os] by (simp_all add: framed_def)
  with go(2) I(3) have S': "spliced e env F w'" by (simp add: spliced_def)
  show ?thesis
  proof (cases go)
    case True
    then obtain d t where d: "clients w' p = Some d" "events w' (timeout_ev d) = Some t" "\<not> ev_added t"
      using reply_timer_stopped [of os p w w'] go(1) by auto
    from splice_start_pump_safe [OF S' d(1) c(2) G d(2,3)] show ?thesis
      using True w'(2) by (auto simp: reply_split holds_def)
  next
    case False
    with S' w'(2) show ?thesis by (auto simp: reply_split splice_steady_def)
  qed
qed

end
