(* ===== verification/Splice_Loop.thy ===== *)
theory Splice_Loop
  imports Splice_Entry
begin

text \<open>
  The event loop with the splicing pump: every turn is defined and keeps the invariant, and dropping all clients
  releases exactly those that have a pump.
\<close>

unbundle bit_operations_syntax

lemma splice_steadyI: "spliced e env F w \<Longrightarrow> splice_steady e env (adjoin F w)"
  by (auto simp: splice_steady_def)

subsection \<open>Reports and dropping\<close>

lemma spliced_tame:
  assumes S: "spliced e env F w" and c: "clients w p = Some c"
  shows "user_arg c = NULL \<longleftrightarrow> p \<notin> dom (part_clients F)"
proof
  assume u: "user_arg c = NULL"
  have "part_clients F p \<noteq> Some d" for d using running_client(1,3) [OF S, of p d] c u by auto
  then show "p \<notin> dom (part_clients F)" unfolding domIff by (metis not_None_eq)
next
  assume "p \<notin> dom (part_clients F)"
  then show "user_arg c = NULL" using tame_client [of F w p c] S c by (simp add: spliced_def tame_def)
qed

lemma spliced_dump:
  assumes S: "spliced e env F w" and c: "clients w p = Some c"
  shows "\<exists>cs. transocks_pump_dump_info os p tag (adjoin F w) = Some (after_calls cs (adjoin F w))"
proof -
  have I: "steady e env w" using S by (simp add: spliced_def)
  obtain s d where sd: "sockaddrs w (client_addr c) = Some s" "sockaddrs w (dest_addr c) = Some d"
    using inv_completeD(10,11) [OF I c] by blast
  show ?thesis
  proof (cases "user_arg c = NULL")
    case True
    then show ?thesis using c
      by (auto simp: transocks_pump_dump_info_def transocks_splicepump_ops_def transocks_splicepump_dump_info_def Let_def emit_after_calls)
  next
    case False
    then have p: "part_clients F p = Some c" using spliced_tame [OF S c] running_client(1) [OF S] c by auto
    obtain ip op where "part_pipes F (inbound_pipe (pump_of F c)) = Some ip" "part_pipes F (outbound_pipe (pump_of F c)) = Some op"
      by (rule running_splice_ok [OF S p])
    then show ?thesis using c sd running_client(2) [OF S p]
      by (auto simp: transocks_pump_dump_info_def transocks_splicepump_ops_def transocks_splicepump_dump_info_def
          transocks_client_dump_info_def Let_def emit_after_calls)
  qed
qed

lemma spliced_registry:
  assumes "spliced e env F w"
  obtains xs where "dlist (nodes w) (current_clients_dlinklist env) xs" "set xs = dom (clients w)"
  using steady_registry [of e env w] assms by (auto simp: spliced_def)

lemma splice_dump_all_safe:
  assumes S: "spliced e env F w"
  shows "holds (transocks_dump_all_client_info os e (adjoin F w)) (splice_steady e env)"
proof -
  let ?body = "\<lambda>p (w, i). do { w \<leftarrow> transocks_pump_dump_info os p (''conn #'' @ dec_int i) w; Some (w, i + 1) }"
  let ?w = "emit (Fprintf_stdout (''transocks-wong connection info:'' @ nl)) (adjoin F w)"
  obtain xs where xs: "dlist (nodes w) (current_clients_dlinklist env) xs" "set xs = dom (clients w)" by (rule spliced_registry [OF S])
  have fold: "holds (fold_option ?body ys (after_calls cs (adjoin F w), i)) (\<lambda>(w', i). \<exists>cs. w' = after_calls cs (adjoin F w))"
    if "set ys \<subseteq> dom (clients w)" for ys cs i
    using that
  proof (induction ys arbitrary: cs i)
    case (Cons y ys)
    then obtain c where "clients w y = Some c" by auto
    then obtain ds where "transocks_pump_dump_info os y (''conn #'' @ dec_int i) (after_calls cs (adjoin F w)) = Some (after_calls ds (adjoin F w))"
      using spliced_dump [of e env F "after_calls cs w" y c os "''conn #'' @ dec_int i"] S by (auto simp: adjoin_upd)
    with Cons show ?case by simp
  qed auto
  have "list_for_each_entry (\<lambda>(w, i). nodes w) ?body (current_clients_dlinklist env) (?w, 0) = fold_option ?body xs (?w, 0)"
    using xs(1) pump_dump_calls
    by (intro list_for_each_entry_fold) (fastforce simp: emit_after_calls Prelude.bind_Some_iff)+
  moreover have "splice_steady e env (after_calls cs (adjoin F w))" for cs
    using S by (auto simp: splice_steady_def adjoin_upd(8) [symmetric] intro!: exI [of _ F])
  moreover have "envs w e = Some env" using S by (auto simp: spliced_def dest: invD(8))
  moreover have "holds (fold_option ?body xs (?w, 0)) (\<lambda>(w', i). splice_steady e env w')"
    using fold [of xs "[Fprintf_stdout (''transocks-wong connection info:'' @ nl)]" 0] xs(2) calculation(2)
    by (auto simp: emit_after_calls elim!: holds_mono)
  ultimately show ?thesis by (simp add: transocks_dump_all_client_info_def)
qed

text \<open>
  Dropping: the clients of the part go, the others stay. While the loop still has the clients \<open>ys\<close> before it, those of them that are in
  the part \<open>F\<close> of the beginning still have their pumps.
\<close>

definition dropping :: "addr \<Rightarrow> transocks_global_env \<Rightarrow> part \<Rightarrow> world \<Rightarrow> addr list \<Rightarrow> world \<Rightarrow> bool" where
  "dropping e env F w ys s \<longleftrightarrow> set ys \<subseteq> dom (clients w) \<and> (\<exists>F' w'. s = adjoin F' w' \<and> spliced e env F' w'
     \<and> dom (part_clients F') = dom (part_clients F) \<inter> set ys \<and> clients w' = clients w |` (- dom (part_clients F) \<union> set ys))"

lemma drop_with_pump:
  assumes I: "dropping e env F w (x # zs) s" and x: "x \<notin> set zs" "x \<in> dom (part_clients F)"
    and d: "dlist (nodes s) (current_clients_dlinklist env) (ys @ x # zs)"
  shows "\<exists>s'. transocks_splicepump_free os x (after_calls cs s) = Some s' \<and> dropping e env F w zs s'
    \<and> dlist (nodes s') (current_clients_dlinklist env) (ys @ zs)"
proof -
  obtain F' w' where s: "s = adjoin F' w'" "spliced e env F' w'" "dom (part_clients F') = dom (part_clients F) \<inter> set (x # zs)"
      "clients w' = clients w |` (- dom (part_clients F) \<union> set (x # zs))" using I by (auto simp: dropping_def)
  obtain c where c: "part_clients F' x = Some c" using s(3) x(2) by auto
  have S': "spliced e env F' (after_calls cs w')" using s(2) by simp
  obtain w'' where w'': "transocks_splicepump_free os x (after_calls cs s) = Some (adjoin (without x c F') w'')"
    "spliced e env (without x c F') w''" "clients w'' = (clients w')(x := None)" "dlist (nodes w'') (current_clients_dlinklist env) (ys @ zs)"
    using spliced_free [OF S' c, of os] d s(1) by (auto simp: holds_def adjoin_upd)
  have "dom (part_clients (without x c F')) = dom (part_clients F) \<inter> set zs" using s(3) x(1) by (auto simp: without_def)
  moreover have "clients w'' = clients w |` (- dom (part_clients F) \<union> set zs)"
    using w''(3) s(4) x by (auto simp: restrict_map_def fun_eq_iff)
  ultimately show ?thesis using I w'' by (auto simp: dropping_def)
qed

lemma drop_without_pump:
  assumes I: "dropping e env F w (x # zs) s" and x: "x \<notin> dom (part_clients F)"
  shows "transocks_splicepump_free os x (after_calls cs s) = Some (after_calls cs s)" "dropping e env F w zs (after_calls cs s)"
proof -
  obtain F' w' where s: "s = adjoin F' w'" "spliced e env F' w'" "dom (part_clients F') = dom (part_clients F) \<inter> set (x # zs)"
      "clients w' = clients w |` (- dom (part_clients F) \<union> set (x # zs))" "set (x # zs) \<subseteq> dom (clients w)"
    using I by (auto simp: dropping_def)
  obtain c where c: "clients w' x = Some c" using s(4,5) by auto
  then have "user_arg c = NULL" using spliced_tame [OF s(2) c] s(3) x by simp
  with c show "transocks_splicepump_free os x (after_calls cs s) = Some (after_calls cs s)"
    by (simp add: s(1) transocks_splicepump_free_def)
  have "- dom (part_clients F) \<union> set (x # zs) = - dom (part_clients F) \<union> set zs" "dom (part_clients F) \<inter> set (x # zs) = dom (part_clients F) \<inter> set zs"
    using x by auto
  with s show "dropping e env F w zs (after_calls cs s)"
    unfolding dropping_def by (intro conjI exI [of _ F'] exI [of _ "after_calls cs w'"]) (simp_all add: adjoin_upd)
qed

lemma splice_drop_all:
  assumes S: "spliced e env F w"
  shows "holds (transocks_drop_all_clients os e (adjoin F w)) (\<lambda>w'. splice_steady e env w' \<and> clients w' = clients w |` (- dom (part_clients F)))"
proof -
  let ?head = "current_clients_dlinklist env" and ?K = "- dom (part_clients F)"
  let ?body = "\<lambda>p w. do { w \<leftarrow> transocks_pump_dump_info os p ''close connection'' w; transocks_pump_free os p w }"
  obtain xs where xs: "dlist (nodes w) ?head xs" "set xs = dom (clients w)" by (rule spliced_registry [OF S])
  have "part_clients F \<subseteq>\<^sub>m clients w" using S by (simp add: spliced_def apart_def)
  then have init: "dropping e env F w xs (adjoin F w)"
    using S xs(2) unfolding dropping_def
    by (intro conjI exI [of _ F] exI [of _ w]) (auto simp: restrict_map_def fun_eq_iff dest: map_le_implies_dom_le)
  have "\<exists>s'. list_for_each_entry_safe nodes ?body ?head (adjoin F w) = Some s' \<and> dropping e env F w [] s' \<and> dlist (nodes s') ?head (kept ?K xs)"
  proof (rule list_for_each_entry_safe_kept [where I = "dropping e env F w"])
    fix ys x zs s
    assume d: "dlist (nodes s) ?head (ys @ x # zs)" and I: "dropping e env F w (x # zs) s"
    then obtain F' w' c where s: "s = adjoin F' w'" "spliced e env F' w'" "clients w' x = Some c" by (auto simp: dropping_def)
    obtain cs where "transocks_pump_dump_info os x ''close connection'' s = Some (after_calls cs s)"
      using spliced_dump [OF s(2,3)] s(1) by blast
    then have body: "?body x s = transocks_splicepump_free os x (after_calls cs s)"
      by (simp add: s(1) transocks_pump_free_def transocks_splicepump_ops_def)
    show "\<exists>s'. ?body x s = Some s' \<and> dropping e env F w zs s' \<and> dlist (nodes s') ?head (ys @ kept ?K [x] @ zs)"
      using drop_with_pump [OF I _ _ d, of os cs] drop_without_pump(1) [OF I, of os cs] drop_without_pump(2) [OF I, of cs] dlist_distinct [OF d] d
      unfolding body by (cases "x \<in> dom (part_clients F)") (auto simp: kept_def)
  qed (use xs init in simp_all)
  then show ?thesis
    using S invD(8) [of e env "Some Bufferpump_ops" "{}" "{}" "{}" w]
    by (auto simp: transocks_drop_all_clients_def spliced_def [of e env F w] dropping_def intro: splice_steadyI)
qed

subsection \<open>Every turn is defined\<close>

text \<open>
  libevent runs no callback of a bufferevent on which neither reading nor writing is enabled. This is what keeps the
  callbacks of the handshake from a client that has a pump: the start switches the bufferevents off, but leaves their
  callbacks in place.
\<close>

definition may_report :: "addr \<Rightarrow> world \<Rightarrow> bool" where
  "may_report b w = (case bevs w b of None \<Rightarrow> False | Some r \<Rightarrow> bev_enabled r AND EV_READ_WRITE \<noteq> 0)"

fun deliverable :: "occurrence \<Rightarrow> world \<Rightarrow> bool" where
  "deliverable (Readable b) w = may_report b w"
| "deliverable (Writable b) w = may_report b w"
| "deliverable (Condition b what) w = may_report b w"
| "deliverable (Active ev) w = True"

text \<open>The event loop that leaves out the other occurrences.\<close>

fun enabled_loop :: "os \<Rightarrow> occurrence list \<Rightarrow> addr \<Rightarrow> world \<Rightarrow> world option" where
  "enabled_loop os [] base w = Some w"
| "enabled_loop os (occ # occs) base w = do {
     w' \<leftarrow> (if deliverable occ w then handle os occ (emit (Epoll_wait base) w) else Some (emit (Epoll_wait base) w));
     if Event_base_loopbreak base \<in> set (drop (length (hist w)) (hist w')) then Some w'
     else enabled_loop os occs base w'
   }"

definition enabled_dispatch :: "os \<Rightarrow> occurrence list \<Rightarrow> addr \<Rightarrow> world \<Rightarrow> world option" where
  "enabled_dispatch os occs base w = enabled_loop os occs base (emit (Event_base_dispatch base) w)"

lemma splice_framed:
  assumes "framed0 F m m'" and "holds m (steady e env)" and "running F"
  shows "holds m' (splice_steady e env)"
  using assms by (auto simp: framed0_def holds_def spliced_def splice_steady_def)

text \<open>The owner of a bufferevent that may report something is a client without a pump, or the report is ignored.\<close>

lemma spliced_bev_owner:
  assumes S: "spliced e env F w" and r: "bevs w b = Some r" and live: "\<not> silent r"
  obtains p c where "steady_at e env p c w" "b = client_bev c" "bev_readcb r = No_callback" "bev_writecb r = No_callback" "bev_eventcb r = No_callback"
    | p c where "steady_at e env p c w" "b = relay_bev c" "relay_bev_ok p r" "plain r" "p \<notin> dom (part_clients F)"
proof -
  have I: "steady e env w" and A: "apart {} F w" and R: "running F" using S by (simp_all add: spliced_def)
  have "plain r" using A r by (simp add: apart_def)
  from bev_owner [OF I r] show ?thesis
  proof cases
    case (1 p c)
    with \<open>plain r\<close> that(1) show ?thesis by (auto simp: client_bev_ok_def plain_def)
  next
    case (2 p c)
    have "p \<notin> dom (part_clients F)"
    proof
      assume "p \<in> dom (part_clients F)"
      then have c: "part_clients F p = Some c" using running_client(1) [OF S] atD(1) [OF 2(1)] by auto
      then obtain r' where "part_bevs F b = Some r'" "silent r'" using running_quiet(1) [OF R c] 2(2) by blast
      moreover have "part_bevs F \<subseteq>\<^sub>m bevs w" using A by (simp add: apart_def)
      ultimately have "bevs w b = Some r'" by (metis domI map_le_def)
      with r live \<open>silent r'\<close> show False by simp
    qed
    with 2 \<open>plain r\<close> that(2) show ?thesis by blast
  qed
qed

lemma splice_readcb_safe:
  assumes S: "spliced e env F w" and r: "bevs w b = Some r" "\<not> silent r" and os: "env_reliable os" "splice_granted os"
  shows "holds (run_data_cb os (bev_readcb r) b (bev_arg r) (adjoin F w)) (splice_steady e env)"
  using spliced_bev_owner [OF S r]
proof cases
  case (1 p c)
  then show ?thesis using splice_steadyI [OF S] by simp
next
  case (2 p c)
  have A: "apart {} F w" "running F" using S by (simp_all add: spliced_def)
  note sel = splice_framed [OF local_selected_method [OF A(1) 2(5)] selected_method_safe [OF 2(1,2) os(1)] A(2)]
  note rep = splice_reply_safe [OF S atD(1) [OF 2(1)] 2(5) os]
  show ?thesis using 2(3,4) sel rep splice_steadyI [OF S] by (auto simp: relay_bev_ok_def plain_def)
qed

lemma splice_eventcb_safe:
  assumes S: "spliced e env F w" and r: "bevs w b = Some r" "\<not> silent r"
  shows "holds (run_condition_cb os (bev_eventcb r) what (bev_arg r) (adjoin F w)) (splice_steady e env)"
  using spliced_bev_owner [OF S r]
proof cases
  case (1 p c)
  then show ?thesis using splice_steadyI [OF S] by simp
next
  case (2 p c)
  have A: "apart {} F w" "running F" using S by (simp_all add: spliced_def)
  note con = splice_framed [OF local_handshake_callbacks(1) [OF A(1) 2(5)] relay_onconnect_safe [OF 2(1)] A(2)]
  note err = splice_framed [OF local_handshake_callbacks(2) [OF A(1) 2(5)] handshake_errcb_safe [OF 2(1)] A(2)]
  show ?thesis using 2(3,4) con err splice_steadyI [OF S] by (auto simp: relay_bev_ok_def plain_def)
qed

lemma splice_writecb_safe:
  assumes S: "spliced e env F w" and r: "bevs w b = Some r"
  shows "holds (run_data_cb os (bev_writecb r) b (bev_arg r) (adjoin F w)) (splice_steady e env)"
proof -
  have "plain r" using S r by (simp add: spliced_def apart_def)
  then show ?thesis using splice_steadyI [OF S] by (simp add: plain_def)
qed

text \<open>Events: those of the pumps, and the others.\<close>

lemma splice_pump_event_safe:
  assumes S: "spliced e env F w" and r: "part_events F ev = Some r"
  shows "holds (run_event_cb os (ev_cb r) (ev_arg r) (before_callback ev r (adjoin F w))) (splice_steady e env)"
proof -
  have R: "running F" using S by (simp add: spliced_def)
  then obtain p c where c: "part_clients F p = Some c" "ev \<in> own_pump_events F c"
    using owned_once_cases [of "{}" "part_clients F" "own_pump_events F" _ ev] r unfolding running_def pumps_owned_def by blast
  then have cb: "ev_arg r = p" "ev_cb r \<in> splice_callbacks" using R r unfolding running_def pumps_owned_def by blast+
  have P: "pumping e env p c (pump_of F c) (adjoin F w)" using S c(1) by (auto simp: pumping_def)
  then have "pumping e env p c (pump_of F c) (before_callback ev r (adjoin F w))"
    using pumping_unadded [OF P, of ev r] c(2) r by (simp add: before_callback_def own_pump_events_def)
  from splice_callbacks_safe [OF this, of os] cb show ?thesis by (auto simp: splice_callbacks_def)
qed

lemma spliced_before_callback:
  assumes S: "spliced e env F w" and r: "events w ev = Some r" "ev_added r"
  shows "spliced e env F (before_callback ev r w)" "before_callback ev r (adjoin F w) = adjoin F (before_callback ev r w)"
    "ev \<notin> dom (part_timers F)"
proof -
  have A: "apart {} F w" and R: "running F" and I: "steady e env w" using S by (simp_all add: spliced_def)
  show ev: "ev \<notin> dom (part_timers F)"
  proof
    assume "ev \<in> dom (part_timers F)"
    then obtain t where t: "part_timers F ev = Some t" "\<not> ev_added t" using running_quiet(3) [OF R] by blast
    moreover have "part_timers F \<subseteq>\<^sub>m events w" using A by (simp add: apart_def)
    ultimately have "events w ev = Some t" by (metis domI map_le_def)
    with r t(2) show False by simp
  qed
  show "spliced e env F (before_callback ev r w)"
    using winv_before_callback [OF I r(1)] apart_event(1) [OF A r(1) ev] A R by (simp add: spliced_def before_callback_def)
  show "before_callback ev r (adjoin F w) = adjoin F (before_callback ev r w)"
    using adjoin_event(2) [OF A r(1)] by (simp add: before_callback_def)
qed

lemma splice_event_safe:
  assumes S: "spliced e env F w" and r: "events w ev = Some r" "ev_added r" and os: "env_reliable os"
  shows "holds (run_event_cb os (ev_cb r) (ev_arg r) (before_callback ev r (adjoin F w))) (splice_steady e env)"
proof -
  let ?w = "before_callback ev r w"
  note B = spliced_before_callback [OF S r]
  have I: "steady e env w" using S by (simp add: spliced_def)
  have A: "apart {} F ?w" "running F" "steady e env ?w" using B(1) by (simp_all add: spliced_def)
  have drop: "holds (transocks_drop_all_clients os e (adjoin F ?w)) (splice_steady e env)"
    using splice_drop_all [OF B(1), of os] by (auto elim: holds_mono)
  have env: "envs ?w e = Some env" by (rule invD(8) [OF A(3)])
  from event_owner [OF I r(1)] show ?thesis
  proof cases
    case (1 p c)
    have "p \<notin> dom (part_clients F)"
    proof
      assume "p \<in> dom (part_clients F)"
      then have c: "part_clients F p = Some c" using running_client(1) [OF S] atD(1) [OF 1(1)] by auto
      obtain t where t: "part_timers F (timeout_ev c) = Some t" using running_quiet(2) [OF A(2) c] by blast
      with 1(4) B(3) show False by blast
    qed
    moreover have "steady_at e env p c ?w" using 1(1) A(3) by (simp add: at_def)
    ultimately show ?thesis
      using splice_framed [OF local_handshake_callbacks(3) [OF A(1)] timeout_cb_safe A(2)] 1(2,3) B(2) by simp
  next
    case 2
    then show ?thesis using drop splice_dump_all_safe [OF B(1), of os] env splice_steadyI [of e env F "after_calls _ ?w"] B(1)
      by (auto simp: B(2) signal_callbacks_def terminate_signal_cb_def dump_client_info_signal_cb_def
          drop_all_clients_signal_cb_def sys_after_calls adjoin_upd(8))
  next
    case (3 l)
    then show ?thesis using splice_framed [OF local_listener_cb [OF A(1)] listener_cb_safe [OF A(3) _ os, of l] A(2)] by (simp add: B(2))
  qed
qed

lemma may_reportD:
  assumes "may_report b w"
  obtains r where "bevs w b = Some r" "\<not> silent r"
  using assms by (auto simp: may_report_def silent_def split: option.splits)

lemma splice_handle_safe:
  assumes S: "splice_steady e env w" and os: "env_reliable os" "splice_granted os" and occ: "deliverable occ w"
  shows "holds (handle os occ w) (splice_steady e env)"
proof -
  obtain F w0 where F: "w = adjoin F w0" "spliced e env F w0" using S by (auto simp: splice_steady_def)
  show ?thesis
  proof (cases occ)
    case (Active ev)
    show ?thesis
    proof (cases "events w ev")
      case (Some r)
      have A: "apart {} F w0" using F(2) by (simp add: spliced_def)
      consider "part_events F ev = Some r" | "events w0 ev = Some r" using Some F(1) by (auto simp: map_add_def split: option.splits)
      then show ?thesis
      proof cases
        case 1
        then show ?thesis using splice_pump_event_safe [OF F(2) 1, of os] Active Some S F(1) by (simp add: handle_def)
      next
        case 2
        show ?thesis
        proof (cases "ev_added r")
          case True
          then show ?thesis using splice_event_safe [OF F(2) 2 True os(1)] Active Some F(1) by (simp add: handle_def)
        qed (use Active Some S in \<open>simp add: handle_def\<close>)
      qed
    qed (use Active S in \<open>simp add: handle_def\<close>)
  qed (use occ F splice_readcb_safe [OF F(2) _ _ os] splice_writecb_safe [OF F(2)] splice_eventcb_safe [OF F(2)] in
      \<open>auto simp: handle_def elim!: may_reportD\<close>)
qed

lemma splice_steady_calls: "splice_steady e env w \<Longrightarrow> splice_steady e env (after_calls cs w)"
  unfolding splice_steady_def by (metis adjoin_upd(8) spliced_calls)

lemma deliverable_calls [simp]: "deliverable occ (after_calls cs w) = deliverable occ w"
  by (cases occ) (simp_all add: may_report_def)

lemma enabled_loop_safe:
  assumes "splice_steady e env w" and "env_reliable os" and "splice_granted os"
  shows "holds (enabled_loop os occs base w) (splice_steady e env)"
  using assms
proof (induction occs arbitrary: w)
  case (Cons occ occs)
  have S: "splice_steady e env (emit (Epoll_wait base) w)" using splice_steady_calls [OF Cons.prems(1)] by (simp add: emit_after_calls)
  obtain w' where w': "(if deliverable occ w then handle os occ (emit (Epoll_wait base) w) else Some (emit (Epoll_wait base) w)) = Some w'"
    "splice_steady e env w'"
    using splice_handle_safe [OF S Cons.prems(2,3), of occ] S by (cases "deliverable occ w") (auto simp: emit_after_calls holds_def)
  with Cons show ?case by (simp only: enabled_loop.simps bind.bind_lunit) auto
qed simp

lemma enabled_dispatch_safe:
  assumes "splice_steady e env w" and "env_reliable os" and "splice_granted os"
  shows "holds (enabled_dispatch os occs base w) (splice_steady e env)"
  using enabled_loop_safe [OF splice_steady_calls [OF assms(1)] assms(2,3)] by (simp add: enabled_dispatch_def emit_after_calls)

end
