(* ===== verification/Splice_Program.thy ===== *)
theory Splice_Program
  imports Whole_Program Splice_Loop
begin

text \<open>
  The program from \<^verbatim>\<open>main\<close> to its end with the splicing pump. No run reaches undefined behaviour; at the end no pump is
  left, and the objects that are left belong to clients whose handshake was not finished.
\<close>

subsection \<open>Without running pumps\<close>

definition no_part :: part where
  "no_part = \<lparr>part_events = Map.empty, part_pumps = Map.empty, part_pipes = Map.empty, part_clients = Map.empty,
     part_bevs = Map.empty, part_timers = Map.empty\<rparr>"

lemma running_no_part: "running no_part"
  by (simp add: running_defs no_part_def)

lemma adjoin_without_pumps:
  assumes I: "steady e env w" and F: "part_events F = Map.empty" "part_pumps F = Map.empty" "part_pipes F = Map.empty"
  shows "adjoin F w = w\<lparr>pumpMethodImpl := Some Splicepump_ops\<rparr>"
proof -
  have "splicepumps w = Map.empty" "splicepipes w = Map.empty" using invD(2) [OF I] by (simp_all add: env_ok_def)
  then show ?thesis using F by (simp add: adjoin_def)
qed

text \<open>A state with clients in the handshake only.\<close>

lemma spliced_no_part:
  assumes I: "steady e env w" and c: "\<And>p c. clients w p = Some c \<Longrightarrow> user_arg c = NULL" and b: "\<And>b r. bevs w b = Some r \<Longrightarrow> plain r"
  shows "spliced e env no_part w"
proof -
  have "0 < brk w" using invD(1) [OF I] by (simp add: wf_world_def)
  then have "apart {} no_part w" using c b by (simp add: apart_def no_part_def tame_def)
  then show ?thesis using I running_no_part by (simp add: spliced_def)
qed

lemma splice_steady_start:
  assumes "steady e env w" and "\<And>p c. clients w p = Some c \<Longrightarrow> user_arg c = NULL" and "\<And>b r. bevs w b = Some r \<Longrightarrow> plain r"
  shows "splice_steady e env (w\<lparr>pumpMethodImpl := Some Splicepump_ops\<rparr>)"
  using splice_steadyI [OF spliced_no_part [OF assms]] adjoin_without_pumps [OF assms(1), of no_part] by (simp add: no_part_def)

lemma spliced_without_pumps:
  assumes S: "spliced e env F w" and c: "part_clients F = Map.empty"
  shows "winv e env (Some Splicepump_ops) {} {} {} (adjoin F w)"
proof -
  have I: "steady e env w" and R: "running F" using S by (simp_all add: spliced_def)
  have "dom (part_events F) = {}" "dom (part_pumps F) = {}" "dom (part_pipes F) = {}"
    using R c by (simp_all add: running_defs)
  then show ?thesis using adjoin_without_pumps [OF I, of F] winv_pump [OF I] by simp
qed

subsection \<open>Shutting down\<close>

text \<open>Nothing is left but clients without a pump and what they own.\<close>

definition handshakes_left :: "world \<Rightarrow> bool" where
  "handshakes_left w \<longleftrightarrow> envs w = Map.empty \<and> listeners w = Map.empty \<and> bases w = {} \<and> splicepumps w = Map.empty
     \<and> splicepipes w = Map.empty \<and> dom (nodes w) = dom (clients w) \<and> (\<forall>p c. clients w p = Some c \<longrightarrow> user_arg c = NULL)
     \<and> owned_once {} (clients w) own_sockaddrs (dom (sockaddrs w)) \<and> owned_once {} (clients w) own_bevs (dom (bevs w))
     \<and> owned_once {} (clients w) own_events (dom (events w))"

lemma handshakes_left_calls [simp]: "handshakes_left (after_calls cs w) = handshakes_left w"
  by (simp add: handshakes_left_def)

lemma no_objects_left: "no_objects w \<Longrightarrow> handshakes_left w"
  by (simp add: no_objects_def handshakes_left_def)

lemma owned_once_drop_rest: "owned_once R cl own A \<Longrightarrow> owned_once {} cl own (A - R)"
  unfolding owned_once_def parts_def by blast

lemma env_free_left:
  assumes I: "winv e env pm {} {} {} w" and c: "\<And>p c. clients w p = Some c \<Longrightarrow> user_arg c = NULL"
  shows "holds (TRANSOCKS_FREE transocks_global_env_free e w) handshakes_left"
proof -
  note D = invD [OF I]
  have E: "env_ok e env w" by (rule D(2))
  have "holds (transocks_global_env_free e w) (\<lambda>w'. \<exists>cs. w' = after_calls cs (env_removed env w))"
    using E D(1) owned_once_rest [OF D(5)] owned_once_rest [OF D(7)] by (intro env_free_run) (auto simp: env_ok_def)
  moreover have "handshakes_left (env_removed env w)"
  proof -
    have "dom ((sockaddrs w)(relay_addr env := None, bind_addr env := None)) = dom (sockaddrs w) - {bind_addr env, relay_addr env}"
      by auto
    moreover have "dom (events w |` (- env_events env w)) = dom (events w) - env_events env w" by auto
    moreover have "dom ((nodes w)(current_clients_dlinklist env := None)) = dom (clients w)" using D(4) by (auto simp: registry_def)
    ultimately show ?thesis
      using E D(6) c owned_once_drop_rest [OF D(5)] owned_once_drop_rest [OF D(7)]
      by (simp add: handshakes_left_def env_removed_def env_ok_def)
  qed
  moreover have "e \<noteq> NULL" using E by (simp add: env_ok_def)
  ultimately show ?thesis by (auto simp: TRANSOCKS_FREE_def elim!: holds_mono)
qed

lemma splice_drop_all_outcome:
  assumes "splice_steady e env w"
  shows "holds (transocks_drop_all_clients os e w) (\<lambda>w'. splice_steady e env w' \<and> winv e env (Some Splicepump_ops) {} {} {} w'
    \<and> (\<forall>p. clients w' p = (case clients w p of None \<Rightarrow> None | Some c \<Rightarrow> if user_arg c = NULL then Some c else None)))"
proof -
  obtain F w0 where F: "w = adjoin F w0" "spliced e env F w0" using assms by (auto simp: splice_steady_def)
  have "(clients w0 |` (- dom (part_clients F))) p = (case clients w0 p of None \<Rightarrow> None | Some c \<Rightarrow> if user_arg c = NULL then Some c else None)" for p
    using spliced_tame [OF F(2), of p] by (auto simp: restrict_map_def split: option.splits)
  moreover have "winv e env (Some Splicepump_ops) {} {} {} w'"
    if w': "splice_steady e env w'" "clients w' = clients w0 |` (- dom (part_clients F))" for w'
  proof -
    obtain F' w0' where F': "w' = adjoin F' w0'" "spliced e env F' w0'" using w'(1) by (auto simp: splice_steady_def)
    have "p \<notin> dom (part_clients F')" for p
    proof
      assume "p \<in> dom (part_clients F')"
      then obtain c where c: "part_clients F' p = Some c" by blast
      have "clients w0 p = Some c" "p \<notin> dom (part_clients F)"
        using running_client(1) [OF F'(2) c] w'(2) F'(1) by (auto simp: restrict_map_def split: if_splits)
      then have "user_arg c = NULL" using spliced_tame [OF F(2)] by blast
      with running_client(3) [OF F'(2) c] show False by simp
    qed
    then have "part_clients F' = Map.empty" by (auto simp: fun_eq_iff)
    from spliced_without_pumps [OF F'(2) this] F'(1) show ?thesis by simp
  qed
  ultimately show ?thesis using splice_drop_all [OF F(2), of os] unfolding F(1) by (auto elim!: holds_mono)
qed

lemma splice_shutdown:
  assumes "splice_steady e env w"
  shows "holds (main_shutdown os e w) (\<lambda>(st, w'). st = Return_0 \<and> handshakes_left w')"
proof -
  have "holds (TRANSOCKS_FREE transocks_global_env_free e w') handshakes_left"
    if "winv e env (Some Splicepump_ops) {} {} {} w'"
      "\<forall>p. clients w' p = (case clients w p of None \<Rightarrow> None | Some c \<Rightarrow> if user_arg c = NULL then Some c else None)" for w'
    using that by (intro env_free_left) (auto split: option.splits if_splits)
  then show ?thesis
    using splice_drop_all_outcome [OF assms, of os] by (auto simp: main_shutdown_def elim!: holds_mono)
qed

subsection \<open>main\<close>

lemma splice_pump_init:
  assumes I: "idle e env w" and n: "pump_method_name env = Some PUMPMETHOD_SPLICE"
  shows "holds (transocks_pump_init e w) (\<lambda>(r, w'). r = 0 \<and> splice_steady e env w')"
proof -
  have "steady e env (w\<lparr>pumpMethodImpl := Some Bufferpump_ops\<rparr>)" using I winv_pump by (auto simp: idle_def)
  moreover have "bevs w = Map.empty" using I invD(6) [of e env None "{}" "{}" "{}" w] by (simp add: idle_def)
  ultimately have "splice_steady e env (w\<lparr>pumpMethodImpl := Some Splicepump_ops\<rparr>)"
    using splice_steady_start [of e env "w\<lparr>pumpMethodImpl := Some Bufferpump_ops\<rparr>"] I by (simp add: idle_def)
  then show ?thesis
    using n idle_env [OF I] by (simp add: transocks_pump_init_def transocks_pumps_def transocks_splicepump_ops_def)
qed

lemma splice_main_run:
  assumes B: "boot w" and R: "start_reliable os" and G: "splice_granted os"
  shows "holds (main_run os (enabled_dispatch os occs) l s PUMPMETHOD_SPLICE w) (\<lambda>(st, w'). st = Return_0 \<and> handshakes_left w')"
proof (rule main_run_to_pump [OF B R])
  fix e env w assume I: "idle e env w" "pump_method_name env = Some PUMPMETHOD_SPLICE"
  have "holds (envs w' e \<bind> (\<lambda>env. enabled_dispatch os occs (eventBaseLoop env) w' \<bind> main_shutdown os e))
      (\<lambda>(st, w'). st = Return_0 \<and> handshakes_left w')" if S: "splice_steady e env w'" for w'
  proof -
    have "envs w' e = Some env" using S by (auto simp: splice_steady_def spliced_def dest: invD(8))
    moreover have "env_reliable os" using R by (simp add: start_reliable_def)
    ultimately show ?thesis using holds_mono [OF enabled_dispatch_safe [OF S _ G] splice_shutdown] by simp
  qed
  then show "holds (transocks_pump_init e w \<bind> (\<lambda>(r, w). if r \<noteq> 0 then main_shutdown os e w
      else envs w e \<bind> (\<lambda>env. enabled_dispatch os occs (eventBaseLoop env) w \<bind> main_shutdown os e)))
    (\<lambda>(st, w'). st = Return_0 \<and> handshakes_left w')"
    by (intro holds_bindI holds_mono [OF splice_pump_init [OF I]]) (auto simp del: holds_bind)
qed (simp add: no_objects_left)

lemma splice_main:
  assumes B: "boot w" and R: "start_reliable os" and G: "splice_granted os"
    and m: "parse_options opts (None, None, None) = Some (l, s, Some PUMPMETHOD_SPLICE)"
  shows "holds (transocks_main os evutil_parse (enabled_dispatch os occs) opts w) (\<lambda>(st, w'). handshakes_left w')"
proof -
  have "handshakes_left w" using B no_objects_left by (simp add: boot_def)
  moreover have "holds (main_run os (enabled_dispatch os occs) la sa PUMPMETHOD_SPLICE (after_calls [Signal_ignore SIGPIPE] w))
      (\<lambda>(st, w'). handshakes_left w')" for la sa
    by (rule holds_mono [OF splice_main_run [OF _ R G]]) (use B in auto)
  ultimately show ?thesis
    using m by (auto simp: transocks_main_def Let_def emit_after_calls give_up_calls split: option.splits prod.splits)
qed

end
