(* ===== verification/Examples.thy ===== *)
theory Examples
  imports Splice_Program
begin

text \<open>
  A concrete system and a concrete state of the running program, with one client whose relay
  connection is being established. The properties with hypotheses are applied here.
\<close>

lemma demo_reliable: "env_reliable demo_os"
  by (simp add: env_reliable_def demo_os_def sizeof_sockaddr_storage_def)

subsection \<open>A running program with one client\<close>

definition demo_env :: transocks_global_env where
  "demo_env = \<lparr>pump_method_name = Some PUMPMETHOD_BUFFER, bind_addr = 3, relay_addr = 4,
     bind_addr_len = 16, relay_addr_len = 16, eventBaseLoop = 5, listener = 10,
     sigterm_ev = 6, sigint_ev = 7, sighup_ev = 8, sigusr1_ev = 9, current_clients_dlinklist = 2\<rparr>"

definition demo_client :: transocks_client where
  "demo_client = \<lparr>global_env = 1, client_addr = 13, dest_addr = 14, client_fd = 20, relay_fd = 21,
     client_addr_len = 16, dest_addr_len = 16, client_bev = 15, relay_bev = 16, timeout_ev = 17,
     user_arg = NULL, client_state = client_NEW, client_shutdown_read = False,
     client_shutdown_write = False, relay_shutdown_read = False, relay_shutdown_write = False\<rparr>"

definition demo_event :: "callback \<Rightarrow> addr \<Rightarrow> ev_reg" where
  "demo_event cb a = \<lparr>ev_fd = -1, ev_flags = (if cb = Socks5_timeout_cb then 0 else 0x10), ev_cb = cb, ev_arg = a, ev_added = True\<rparr>"

definition demo_world :: world where
  "demo_world = \<lparr>brk = 18, envs = [1 \<mapsto> demo_env], clients = [12 \<mapsto> demo_client],
     nodes = [2 \<mapsto> \<lparr>lh_next = 12, lh_prev = 12\<rparr>, 12 \<mapsto> \<lparr>lh_next = 2, lh_prev = 2\<rparr>],
     listeners = [10 \<mapsto> \<lparr>listener_fd = 19, listener_ev = 11\<rparr>],
     sockaddrs = [3 \<mapsto> demo_sockaddr, 4 \<mapsto> demo_sockaddr, 13 \<mapsto> demo_sockaddr, 14 \<mapsto> demo_sockaddr],
     splicepumps = Map.empty, splicepipes = Map.empty, bases = {5},
     events = [6 \<mapsto> demo_event Terminate_signal_cb 1, 7 \<mapsto> demo_event Terminate_signal_cb 1,
       8 \<mapsto> demo_event Dump_client_info_signal_cb 1, 9 \<mapsto> demo_event Drop_all_clients_signal_cb 1,
       11 \<mapsto> demo_event Listener_cb 1, 17 \<mapsto> demo_event Socks5_timeout_cb 12],
     bevs = [15 \<mapsto> \<lparr>bev_fd = 20, bev_readcb = No_callback, bev_writecb = No_callback,
           bev_eventcb = No_callback, bev_arg = NULL, bev_enabled = EV_WRITE\<rparr>,
         16 \<mapsto> \<lparr>bev_fd = 21, bev_readcb = No_callback, bev_writecb = No_callback,
           bev_eventcb = Relay_onconnect_eventcb, bev_arg = 12, bev_enabled = EV_WRITE\<rparr>],
     pumpMethodImpl = Some Bufferpump_ops, hist = []\<rparr>"

lemma demo_env_events: "env_events demo_env demo_world = {6, 7, 8, 9, 11}"
  by (auto simp: env_events_def signal_events_def listener_events_def demo_env_def demo_world_def)

lemma demo_env_ok: "env_ok 1 demo_env demo_world"
  by (auto simp: env_ok_def env_events_distinct_def signal_events_def listener_events_def demo_env_def
      demo_world_def demo_event_def signal_callbacks_def)

lemma demo_list: "dlist (nodes demo_world) 2 [12]"
  by (simp add: dlist_def path_def link_def get_next_def get_prev_def demo_world_def)

lemma demo_owned:
  "owned_once {3, 4} (clients demo_world) own_sockaddrs (dom (sockaddrs demo_world))"
  "owned_once {} (clients demo_world) own_bevs (dom (bevs demo_world))"
  "owned_once {6, 7, 8, 9, 11} (clients demo_world) own_events (dom (events demo_world))"
  by (auto simp: owned_once_def parts_iff own_defs owned_by_def demo_world_def demo_client_def
      split: option.splits if_splits)

lemma demo_steady: "steady 1 demo_env demo_world"
proof -
  have "wf_world demo_world" by (simp add: wf_world_def demo_world_def)
  moreover have "registry {} 2 demo_world"
    using demo_list by (auto simp: registry_def demo_world_def)
  moreover have "client_base demo_client \<and> regs demo_world 12 demo_client \<and> complete 1 demo_client"
    by (auto simp: client_base_def regs_def complete_def demo_client_def demo_world_def demo_event_def
        client_bev_ok_def relay_bev_ok_def)
  moreover have "clients demo_world p = Some c \<Longrightarrow> p = 12 \<and> c = demo_client" for p c
    by (simp add: demo_world_def split: if_splits)
  moreover have "pumpMethodImpl demo_world = Some Bufferpump_ops" "bind_addr demo_env = 3"
    "relay_addr demo_env = 4" "current_clients_dlinklist demo_env = 2"
    by (simp_all add: demo_world_def demo_env_def)
  ultimately show ?thesis
    using demo_env_ok demo_owned demo_env_events unfolding winv_def by auto
qed

subsection \<open>With the splicing pump\<close>

definition demo_splice_world :: world where
  "demo_splice_world = demo_world\<lparr>pumpMethodImpl := Some Splicepump_ops\<rparr>"

lemma demo_splice_steady: "splice_steady 1 demo_env demo_splice_world"
  unfolding demo_splice_world_def
  by (rule splice_steady_start [OF demo_steady])
    (auto simp: demo_world_def demo_client_def plain_def split: if_splits)

lemma demo_granted: "splice_granted demo_os"
  using demo_splice_served(1) by (simp add: splice_granted_def demo_os_def)

text \<open>A state in which the client of the example has a running pump.\<close>

lemma demo_pumping:
  "\<exists>w c. splice_steady 1 demo_env w \<and> clients w 12 = Some c \<and> user_arg c \<noteq> NULL"
proof -
  let ?w = "before_callback 17 (demo_event Socks5_timeout_cb 12) demo_world"
  have t: "events demo_world 17 = Some (demo_event Socks5_timeout_cb 12)" by (simp add: demo_world_def)
  have S: "spliced 1 demo_env no_part ?w"
    using winv_before_callback [OF demo_steady t]
    by (rule spliced_no_part) (auto simp: demo_world_def demo_client_def plain_def split: if_splits)
  have "holds (transocks_splicepump_start_pump demo_os 12 (adjoin no_part ?w))
      (\<lambda>(r, w'). r = 0 \<and> pumping 1 demo_env 12 (demo_client\<lparr>user_arg := brk ?w\<rparr>) (full_pump (brk ?w)) w')"
    by (rule splice_start_pumping [OF S _ _ demo_granted, of _ _ "demo_event Socks5_timeout_cb 12\<lparr>ev_added := False\<rparr>"])
      (simp_all add: no_part_def demo_client_def before_callback_def demo_event_def TRANSOCKS_CHKBIT_def demo_world_def)
  moreover have "brk ?w \<noteq> NULL" by (simp add: before_callback_def demo_world_def)
  ultimately show ?thesis using pumping_steady pumping_read(1) by (fastforce simp: holds_def)
qed

end
