(* ===== verification/Log.thy ===== *)
theory Log
  imports Context
begin

text \<open>
  The diagnostics of \<^verbatim>\<open>src/src/log.c\<close>: a record with a time stamp for the standard error, and the dump of a
  buffer of the debugging build. The functions return what they print, one string per call of \<^verbatim>\<open>fprintf\<close>.
  The formatted message (the output of \<^verbatim>\<open>vfprintf\<close>) and the texts of \<^verbatim>\<open>strerror\<close> are parameters.
\<close>

unbundle bit_operations_syntax

subsection \<open>Records\<close>

datatype LOGLEVEL = LOG_ERR | LOG_INFO | LOG_DEBUG

fun loglevel_str :: "LOGLEVEL \<Rightarrow> string" where
  "loglevel_str LOG_ERR = ''err''"
| "loglevel_str LOG_INFO = ''info''"
| "loglevel_str LOG_DEBUG = ''debug''"

text \<open>The result of \<^verbatim>\<open>clock_gettime\<close>; the nanoseconds are not negative.\<close>

record timespec =
  tv_sec :: int
  tv_nsec :: nat

text \<open>The conversion \<^verbatim>\<open>%6.6ld\<close> of a number that is not negative: at least six digits.\<close>

definition pad_zeros :: "nat \<Rightarrow> string \<Rightarrow> string" where
  "pad_zeros k s = replicate (k - length s) (CHR ''0'') @ s"

definition log_write ::
  "(int \<Rightarrow> string) \<Rightarrow> int \<Rightarrow> timespec \<Rightarrow> string \<Rightarrow> int \<Rightarrow> string \<Rightarrow> bool \<Rightarrow> LOGLEVEL \<Rightarrow> string \<Rightarrow> string list" where
  "log_write strerror errno tv file line func do_errno priority msg =
     (let saved_errno = errno in
      [dec_int (tv_sec tv) @ ''.'' @ pad_zeros 6 (dec_digits (tv_nsec tv div 1000)) @ '' '' @ loglevel_str priority
         @ '' '' @ file @ '':'' @ dec_int line @ '' '' @ func @ ''() '',
       msg,
       (if do_errno then '': '' @ strerror saved_errno @ nl else nl)])"

subsection \<open>Dumps\<close>

text \<open>The conversion \<^verbatim>\<open>%02x\<close> of a byte.\<close>

definition hex_digit :: "nat \<Rightarrow> char" where
  "hex_digit n = char_of (if n < 10 then 48 + n else 87 + n)"

definition hex2 :: "byte \<Rightarrow> string" where
  "hex2 b = [hex_digit (unat b div 16), hex_digit (unat b mod 16)]"

text \<open>The loop over the first \<open>len\<close> bytes; a length beyond the end of the buffer is undefined.\<close>

definition dump_data :: "string \<Rightarrow> byte list \<Rightarrow> int \<Rightarrow> string list option" where
  "dump_data tag text len =
     (if len > int (length text) then None
      else Some ([tag @ '': ''] @ map (\<lambda>i. ''0x'' @ hex2 (text ! i) @ '' '') [0..<nat len] @ [nl]))"

subsection \<open>Reading records back\<close>

lemma digit_char: "d < 10 \<Longrightarrow> (of_char (char_of (48 + d :: nat) :: char) :: nat) = 48 + d"
  by simp

lemma dec_digits_range: "c \<in> set (dec_digits n) \<Longrightarrow> 48 \<le> (of_char c :: nat) \<and> (of_char c :: nat) < 58"
proof (induction n rule: dec_digits.induct)
  case (1 n)
  then show ?case by (cases "n < 10") (auto simp: dec_digits.simps [of n])
qed

lemma pad_zeros_range:
  "c \<in> set (pad_zeros k (dec_digits n)) \<Longrightarrow> 48 \<le> (of_char c :: nat) \<and> (of_char c :: nat) < 58"
  using dec_digits_range [of c n] by (auto simp: pad_zeros_def split: if_splits)

lemma dec_value_replicate_zero: "dec_value (replicate k (CHR ''0'') @ s) = dec_value s"
  by (induction k) (simp_all add: dec_value_def)

lemma dec_value_pad [simp]: "dec_value (pad_zeros k (dec_digits n)) = n"
  by (simp add: pad_zeros_def dec_value_replicate_zero dec_value_digits)

lemma length_pad: "n < 10 ^ k \<Longrightarrow> 0 < k \<Longrightarrow> length (pad_zeros k (dec_digits n)) = k"
  using dec_digits_length [of n k] by (simp add: pad_zeros_def)

text \<open>The time stamp of a record: seconds and microseconds.\<close>

definition log_stamp :: "string \<Rightarrow> nat \<times> nat" where
  "log_stamp r = (dec_value (takeWhile (\<lambda>c. c \<noteq> CHR ''.'') r),
     dec_value (takeWhile (\<lambda>c. c \<noteq> CHR '' '') (tl (dropWhile (\<lambda>c. c \<noteq> CHR ''.'') r))))"

lemma log_stamp_digits:
  "log_stamp (dec_digits s @ ''.'' @ pad_zeros k (dec_digits m) @ '' '' @ rest) = (s, m)"
proof -
  have "c \<noteq> CHR ''.''" if "c \<in> set (dec_digits s)" for c using dec_digits_range [OF that] by auto
  moreover have "c \<noteq> CHR '' ''" if "c \<in> set (pad_zeros k (dec_digits m))" for c using pad_zeros_range [OF that] by auto
  ultimately show ?thesis
    by (simp add: log_stamp_def takeWhile_append2 dropWhile_append2 dec_value_digits)
qed

definition newline :: char where
  "newline = char_of (10 :: nat)"

lemma nl_newline: "nl = [newline]"
  by (simp add: nl_def newline_def)

lemma newline_not_printed:
  "newline \<notin> set (dec_digits m)" "newline \<notin> set (dec_int i)" "newline \<notin> set (pad_zeros k (dec_digits n))" "newline \<notin> set (loglevel_str p)"
proof -
  have v: "(of_char newline :: nat) = 10" by (simp add: newline_def)
  have d: "newline \<notin> set (dec_digits j)" for j using dec_digits_range [of newline j] v by auto
  show "newline \<notin> set (dec_digits m)" by (rule d)
  show "newline \<notin> set (dec_int i)" using d by (auto simp: dec_int_def newline_def char_of_def)
  show "newline \<notin> set (pad_zeros k (dec_digits n))" using pad_zeros_range [of newline k n] v by auto
  show "newline \<notin> set (loglevel_str p)" by (cases p) (auto simp: newline_def char_of_def)
qed



text \<open>Bytes read back from a dump.\<close>

definition hex_value :: "char \<Rightarrow> nat" where
  "hex_value c = (if of_char c < (58 :: nat) then of_char c - 48 else of_char c - 87)"

fun undump :: "string \<Rightarrow> byte list" where
  "undump (z # x # a # b # sp # rest) = of_nat (16 * hex_value a + hex_value b) # undump rest"
| "undump _ = []"

lemma hex_value_digit: "n < 16 \<Longrightarrow> hex_value (hex_digit n) = n"
  by (simp add: hex_value_def hex_digit_def)

lemma undump_byte: "undump (''0x'' @ hex2 b @ '' '' @ rest) = b # undump rest"
proof -
  have "unat b < 256" using unsigned_less [of b, where 'a = nat] by simp
  then have "16 * hex_value (hex_digit (unat b div 16)) + hex_value (hex_digit (unat b mod 16)) = unat b"
    by (simp add: hex_value_digit)
  then have "of_nat (16 * hex_value (hex_digit (unat b div 16)) + hex_value (hex_digit (unat b mod 16))) = (of_nat (unat b) :: byte)"
    by (simp only:)
  also have "\<dots> = b" by simp
  finally have "of_nat (16 * hex_value (hex_digit (unat b div 16)) + hex_value (hex_digit (unat b mod 16))) = b" .
  then show ?thesis by (simp only: hex2_def append_Cons append_Nil undump.simps)
qed

lemma undump_bytes: "undump (concat (map (\<lambda>b. ''0x'' @ hex2 b @ '' '') bs) @ nl) = bs"
proof (induction bs)
  case Nil
  show ?case by (simp add: nl_def)
next
  case (Cons b bs)
  have "concat (map (\<lambda>b. ''0x'' @ hex2 b @ '' '') (b # bs)) @ nl =
      ''0x'' @ hex2 b @ '' '' @ concat (map (\<lambda>b. ''0x'' @ hex2 b @ '' '') bs) @ nl" by simp
  with Cons show ?case by (simp only: undump_byte)
qed

text \<open>
  A dump shows the bytes: from what is printed after the tag, exactly the first \<open>len\<close> bytes of the buffer are read back.
\<close>

theorem dump_data_roundtrip:
  assumes "len \<le> int (length text)"
  shows "\<exists>out. dump_data tag text len = Some out
    \<and> undump (drop (length tag + 2) (concat out)) = take (nat len) text"
proof -
  let ?f = "\<lambda>b. ''0x'' @ hex2 b @ '' ''"
  have "map (\<lambda>i. text ! i) [0..<nat len] = take (nat len) text" using assms by (intro nth_equalityI) auto
  moreover have "map (\<lambda>i. ?f (text ! i)) [0..<nat len] = map ?f (map (\<lambda>i. text ! i) [0..<nat len])" by simp
  ultimately have "map (\<lambda>i. ?f (text ! i)) [0..<nat len] = map ?f (take (nat len) text)" by (simp only:)
  then show ?thesis
    using assms undump_bytes [of "take (nat len) text"] by (simp add: dump_data_def)
qed

theorem dump_data_roundtrip_witness:
  "\<exists>out. dump_data ''in'' [5, 0, 255] 2 = Some out \<and> undump (drop 4 (concat out)) = [5, 0]"
  using dump_data_roundtrip [of 2 "[5, 0, 255]" "''in''"] by (simp add: eval_nat_numeral)

end
