(* ===== verification/Hash_List.thy ===== *)
theory Hash_List
  imports Linux_List
begin

text \<open>
  The lists with a single pointer head of \<^verbatim>\<open>src/src/list.h\<close> (\<^verbatim>\<open>hlist\<close>). A node does not know its predecessor but
  the pointer variable that points to it, which is the field \<^verbatim>\<open>first\<close> of the head or the field \<^verbatim>\<open>next\<close> of another node; a value of
  type \<^verbatim>\<open>struct hlist_node **\<close> is modelled as the name of that variable. They implement the same interface as the circular
  lists, with new entries at the front.
\<close>

subsection \<open>Heads, nodes and pointer variables\<close>

datatype hslot =
    Null_slot
  | First addr   \<comment> \<open>\<^verbatim>\<open>&h->first\<close>\<close>
  | Next addr    \<comment> \<open>\<^verbatim>\<open>&n->next\<close>\<close>
  | Poison_slot  \<comment> \<open>\<^verbatim>\<open>LIST_POISON2\<close>\<close>

record hlist_head =
  hh_first :: addr

record hlist_node =
  hn_next :: addr
  hn_pprev :: hslot

datatype hcell = HHead hlist_head | HNode hlist_node

type_synonym hheap = "addr \<rightharpoonup> hcell"

text \<open>Reading and writing a pointer variable, and the field \<^verbatim>\<open>pprev\<close> of a node.\<close>

fun load_slot :: "hslot \<Rightarrow> hheap \<Rightarrow> addr option" where
  "load_slot (First a) s = (case s a of Some (HHead r) \<Rightarrow> Some (hh_first r) | _ \<Rightarrow> None)"
| "load_slot (Next a) s = (case s a of Some (HNode n) \<Rightarrow> Some (hn_next n) | _ \<Rightarrow> None)"
| "load_slot _ s = None"

fun store_slot :: "hslot \<Rightarrow> addr \<Rightarrow> hheap \<Rightarrow> hheap option" where
  "store_slot (First a) v s = (case s a of Some (HHead r) \<Rightarrow> Some (s(a \<mapsto> HHead (r\<lparr>hh_first := v\<rparr>))) | _ \<Rightarrow> None)"
| "store_slot (Next a) v s = (case s a of Some (HNode n) \<Rightarrow> Some (s(a \<mapsto> HNode (n\<lparr>hn_next := v\<rparr>))) | _ \<Rightarrow> None)"
| "store_slot _ v s = None"

definition get_pprev :: "addr \<Rightarrow> hheap \<Rightarrow> hslot option" where
  "get_pprev a s = (case s a of Some (HNode n) \<Rightarrow> Some (hn_pprev n) | _ \<Rightarrow> None)"

definition set_pprev :: "addr \<Rightarrow> hslot \<Rightarrow> hheap \<Rightarrow> hheap option" where
  "set_pprev a v s = (case s a of Some (HNode n) \<Rightarrow> Some (s(a \<mapsto> HNode (n\<lparr>hn_pprev := v\<rparr>))) | _ \<Rightarrow> None)"

subsection \<open>Operations\<close>

definition INIT_HLIST_HEAD :: "addr \<Rightarrow> hheap \<Rightarrow> hheap option" where
  "INIT_HLIST_HEAD h s = store_slot (First h) NULL s"

definition INIT_HLIST_NODE :: "addr \<Rightarrow> hheap \<Rightarrow> hheap option" where
  "INIT_HLIST_NODE n s = do {
     s \<leftarrow> store_slot (Next n) NULL s;
     set_pprev n Null_slot s
   }"

definition hlist_unhashed :: "addr \<Rightarrow> hheap \<Rightarrow> bool option" where
  "hlist_unhashed n s = do {
     pp \<leftarrow> get_pprev n s;
     Some (pp = Null_slot)
   }"

definition hlist_empty :: "addr \<Rightarrow> hheap \<Rightarrow> bool option" where
  "hlist_empty h s = do {
     first \<leftarrow> load_slot (First h) s;
     Some (first = NULL)
   }"

definition raw_hlist_del :: "addr \<Rightarrow> hheap \<Rightarrow> hheap option" where
  "raw_hlist_del n s = do {
     nxt \<leftarrow> load_slot (Next n) s;
     pp \<leftarrow> get_pprev n s;
     s \<leftarrow> store_slot pp nxt s;
     if nxt \<noteq> NULL then set_pprev nxt pp s else Some s
   }"

definition hlist_del :: "addr \<Rightarrow> hheap \<Rightarrow> hheap option" where
  "hlist_del n s = do {
     s \<leftarrow> raw_hlist_del n s;
     s \<leftarrow> store_slot (Next n) LIST_POISON1 s;
     set_pprev n Poison_slot s
   }"

definition hlist_del_init :: "addr \<Rightarrow> hheap \<Rightarrow> hheap option" where
  "hlist_del_init n s = do {
     u \<leftarrow> hlist_unhashed n s;
     if \<not> u then do {
       s \<leftarrow> raw_hlist_del n s;
       INIT_HLIST_NODE n s
     } else Some s
   }"

definition hlist_add_head :: "addr \<Rightarrow> addr \<Rightarrow> hheap \<Rightarrow> hheap option" where
  "hlist_add_head n h s = do {
     first \<leftarrow> load_slot (First h) s;
     s \<leftarrow> store_slot (Next n) first s;
     s \<leftarrow> (if first \<noteq> NULL then set_pprev first (Next n) s else Some s);
     s \<leftarrow> store_slot (First h) n s;
     set_pprev n (First h) s
   }"

definition hlist_add_before :: "addr \<Rightarrow> addr \<Rightarrow> hheap \<Rightarrow> hheap option" where
  "hlist_add_before n nxt s = do {
     pp \<leftarrow> get_pprev nxt s;
     s \<leftarrow> set_pprev n pp s;
     s \<leftarrow> store_slot (Next n) nxt s;
     s \<leftarrow> set_pprev nxt (Next n) s;
     pp \<leftarrow> get_pprev n s;
     store_slot pp n s
   }"

definition hlist_add_behind :: "addr \<Rightarrow> addr \<Rightarrow> hheap \<Rightarrow> hheap option" where
  "hlist_add_behind n prev s = do {
     v \<leftarrow> load_slot (Next prev) s;
     s \<leftarrow> store_slot (Next n) v s;
     s \<leftarrow> store_slot (Next prev) n s;
     s \<leftarrow> set_pprev n (Next prev) s;
     v \<leftarrow> load_slot (Next n) s;
     if v \<noteq> NULL then do {
       v \<leftarrow> load_slot (Next n) s;
       set_pprev v (Next n) s
     } else Some s
   }"

definition hlist_add_fake :: "addr \<Rightarrow> hheap \<Rightarrow> hheap option" where
  "hlist_add_fake n s = set_pprev n (Next n) s"

definition hlist_fake :: "addr \<Rightarrow> hheap \<Rightarrow> bool option" where
  "hlist_fake n s = do {
     pp \<leftarrow> get_pprev n s;
     Some (pp = Next n)
   }"

definition hlist_is_singular_node :: "addr \<Rightarrow> addr \<Rightarrow> hheap \<Rightarrow> bool option" where
  "hlist_is_singular_node n h s = do {
     nxt \<leftarrow> load_slot (Next n) s;
     if nxt = NULL then do {
       pp \<leftarrow> get_pprev n s;
       Some (pp = First h)
     } else Some False
   }"

definition hlist_move_list :: "addr \<Rightarrow> addr \<Rightarrow> hheap \<Rightarrow> hheap option" where
  "hlist_move_list old new s = do {
     v \<leftarrow> load_slot (First old) s;
     s \<leftarrow> store_slot (First new) v s;
     v \<leftarrow> load_slot (First new) s;
     s \<leftarrow> (if v \<noteq> NULL then do {
            v \<leftarrow> load_slot (First new) s;
            set_pprev v (First new) s
          } else Some s);
     store_slot (First old) NULL s
   }"

subsection \<open>The memory\<close>

text \<open>A variable that exists, and its update.\<close>

definition slot_ok :: "hslot \<Rightarrow> hheap \<Rightarrow> bool" where
  "slot_ok sl s \<longleftrightarrow> load_slot sl s \<noteq> None"

definition node_ok :: "addr \<Rightarrow> hheap \<Rightarrow> bool" where
  "node_ok a s \<longleftrightarrow> get_pprev a s \<noteq> None"

definition upd_slot :: "hslot \<Rightarrow> addr \<Rightarrow> hheap \<Rightarrow> hheap" where
  "upd_slot sl v s = (case store_slot sl v s of None \<Rightarrow> s | Some s' \<Rightarrow> s')"

definition upd_pprev :: "addr \<Rightarrow> hslot \<Rightarrow> hheap \<Rightarrow> hheap" where
  "upd_pprev a v s = (case set_pprev a v s of None \<Rightarrow> s | Some s' \<Rightarrow> s')"

named_theorems hheap_simps

lemma node_ok_Next: "node_ok a s = slot_ok (Next a) s"
  by (auto simp: node_ok_def slot_ok_def get_pprev_def split: option.splits hcell.splits)

lemma store_slot_upd [hheap_simps]: "slot_ok sl s \<Longrightarrow> store_slot sl v s = Some (upd_slot sl v s)"
  by (cases sl) (auto simp: slot_ok_def upd_slot_def split: option.splits hcell.splits)

lemma set_pprev_upd [hheap_simps]: "node_ok a s \<Longrightarrow> set_pprev a v s = Some (upd_pprev a v s)"
  by (auto simp: node_ok_def get_pprev_def set_pprev_def upd_pprev_def split: option.splits hcell.splits)

lemma load_upd_slot [hheap_simps]:
  "load_slot sl (upd_slot sl' v s) = (if sl = sl' \<and> slot_ok sl' s then Some v else load_slot sl s)"
  by (cases sl; cases sl') (auto simp: slot_ok_def upd_slot_def split: option.splits hcell.splits if_splits)

lemma load_upd_pprev [hheap_simps]: "load_slot sl (upd_pprev a v s) = load_slot sl s"
  by (cases sl) (auto simp: upd_pprev_def set_pprev_def split: option.splits hcell.splits if_splits)

lemma pprev_upd_pprev [hheap_simps]:
  "get_pprev b (upd_pprev a v s) = (if b = a \<and> node_ok a s then Some v else get_pprev b s)"
  by (auto simp: node_ok_def upd_pprev_def set_pprev_def get_pprev_def split: option.splits hcell.splits if_splits)

lemma pprev_upd_slot [hheap_simps]: "get_pprev b (upd_slot sl v s) = get_pprev b s"
  by (cases sl) (auto simp: upd_slot_def get_pprev_def split: option.splits hcell.splits if_splits)

lemma ok_upd [hheap_simps]:
  "slot_ok sl (upd_slot sl' v s) = slot_ok sl s" "slot_ok sl (upd_pprev a p s) = slot_ok sl s"
  "node_ok b (upd_slot sl' v s) = node_ok b s" "node_ok b (upd_pprev a p s) = node_ok b s"
  by (auto simp: slot_ok_def node_ok_def hheap_simps)

text \<open>The object a variable is part of.\<close>

fun slot_cell :: "hslot \<Rightarrow> addr" where
  "slot_cell (First a) = a"
| "slot_cell (Next a) = a"
| "slot_cell _ = NULL"

lemma upd_slot_other: "q \<noteq> slot_cell sl \<Longrightarrow> upd_slot sl v s q = s q"
  by (cases sl) (auto simp: upd_slot_def split: option.splits hcell.splits)

lemma upd_pprev_other: "q \<noteq> a \<Longrightarrow> upd_pprev a v s q = s q"
  by (auto simp: upd_pprev_def set_pprev_def split: option.splits hcell.splits)

lemma load_ok: "load_slot sl s = Some v \<Longrightarrow> slot_ok sl s" and pprev_ok: "get_pprev a s = Some p \<Longrightarrow> node_ok a s"
  by (simp_all add: slot_ok_def node_ok_def)

declare load_slot.simps [simp del] store_slot.simps [simp del]

subsection \<open>Lists in the memory\<close>

text \<open>From the variable \<open>sl\<close> the nodes \<open>xs\<close> are reached, and \<open>last\<close> after them.\<close>

fun hpath :: "hheap \<Rightarrow> hslot \<Rightarrow> addr list \<Rightarrow> addr \<Rightarrow> bool" where
  "hpath s sl [] nxt \<longleftrightarrow> load_slot sl s = Some nxt"
| "hpath s sl (x # xs) nxt \<longleftrightarrow> load_slot sl s = Some x \<and> get_pprev x s = Some sl \<and> hpath s (Next x) xs nxt"

definition hlist :: "hheap \<Rightarrow> addr \<Rightarrow> addr list \<Rightarrow> bool" where
  "hlist s h xs \<longleftrightarrow> distinct xs \<and> NULL \<notin> set xs \<and> hpath s (First h) xs NULL"

text \<open>The variable behind the nodes \<open>us\<close>.\<close>

definition slot_after :: "hslot \<Rightarrow> addr list \<Rightarrow> hslot" where
  "slot_after sl us = (if us = [] then sl else Next (last us))"

lemma slot_after_simps [simp]: "slot_after sl [] = sl" "slot_after sl (us @ [x]) = Next x"
  "slot_after sl (x # us) = slot_after (Next x) us"
  by (simp_all add: slot_after_def)

lemma slot_cell_after: "slot_cell (slot_after (First h) us) \<in> set (h # us)"
  by (simp add: slot_after_def)

lemma slot_after_not_Next: "x \<notin> set us \<Longrightarrow> slot_after (First h) us \<noteq> Next x"
  by (auto simp: slot_after_def)

lemma hpath_append:
  "hpath s sl (us @ x # vs) nxt \<longleftrightarrow>
     hpath s sl us x \<and> get_pprev x s = Some (slot_after sl us) \<and> hpath s (Next x) vs nxt"
  by (induction us arbitrary: sl) auto

lemma hpath_last: "hpath s sl us nxt \<Longrightarrow> load_slot (slot_after sl us) s = Some nxt"
  by (induction us arbitrary: sl) auto

lemma hpath_head_slot: "hpath s sl us nxt \<Longrightarrow> slot_ok sl s"
  by (cases us) (auto simp: slot_ok_def)

lemma slot_ok_First: "slot_ok (First h) s \<Longrightarrow> \<not> node_ok h s"
  by (auto simp: slot_ok_def node_ok_def get_pprev_def load_slot.simps split: option.splits hcell.splits)

text \<open>A head is not a node.\<close>

lemma hlist_head_not_node: "hlist s h xs \<Longrightarrow> node_ok x s \<Longrightarrow> x \<noteq> h"
  by (auto simp: hlist_def dest!: hpath_head_slot slot_ok_First)

text \<open>The nodes keep their links when the variable behind them is changed.\<close>

lemma hpath_retarget:
  assumes "hpath s sl us nxt" and "load_slot (slot_after sl us) s' = Some nxt'"
    and "\<And>v. v \<in> insert sl (Next ` set us) \<Longrightarrow> v \<noteq> slot_after sl us \<Longrightarrow> load_slot v s' = load_slot v s"
    and "\<And>x. x \<in> set us \<Longrightarrow> get_pprev x s' = get_pprev x s"
    and "distinct us" and "sl \<notin> Next ` set us"
  shows "hpath s' sl us nxt'"
  using assms
proof (induction us arbitrary: sl)
  case (Cons x us)
  have "hpath s' (Next x) us nxt'"
    using Cons.prems by (intro Cons.IH) auto
  moreover have "sl \<noteq> slot_after (Next x) us" using Cons.prems(6) by (auto simp: slot_after_def)
  then have "load_slot sl s' = load_slot sl s" using Cons.prems(3) [of sl] by simp
  ultimately show ?case using Cons.prems by simp
qed simp

lemma hpath_frame:
  assumes "hpath s sl us nxt"
    and "\<And>v. v \<in> insert sl (Next ` set us) \<Longrightarrow> load_slot v s' = load_slot v s"
    and "\<And>x. x \<in> set us \<Longrightarrow> get_pprev x s' = get_pprev x s"
  shows "hpath s' sl us nxt"
  using assms by (induction us arbitrary: sl) auto

lemma hlist_frame:
  assumes "hlist s h xs" and "\<And>q. q \<in> insert h (set xs) \<Longrightarrow> s' q = s q"
  shows "hlist s' h xs"
proof -
  have "hpath s' (First h) xs NULL"
    by (rule hpath_frame [of s]) (use assms in \<open>auto simp: hlist_def get_pprev_def load_slot.simps\<close>)
  with assms(1) show ?thesis by (simp add: hlist_def)
qed

text \<open>What has to hold of the memory after an insertion and after a removal.\<close>

lemma hlist_insertI:
  assumes l: "hlist s h (us @ vs)" and n: "n \<notin> set (us @ vs)" "n \<noteq> NULL"
    and ld: "\<And>sl. load_slot sl s' = (if sl = slot_after (First h) us then Some n
        else if sl = Next n then Some (hd (vs @ [NULL])) else load_slot sl s)"
    and pp: "\<And>x. get_pprev x s' = (if x = n then Some (slot_after (First h) us)
        else if vs \<noteq> [] \<and> x = hd vs then Some (Next n) else get_pprev x s)"
  shows "hlist s' h (us @ n # vs)"
proof -
  have d: "distinct (us @ vs)" "NULL \<notin> set (us @ vs)" using l by (simp_all add: hlist_def)
  have us: "hpath s (First h) us (hd (vs @ [NULL]))" and
    vs: "vs \<noteq> [] \<Longrightarrow> hpath s (Next (hd vs)) (tl vs) NULL"
    using l by (cases vs; simp add: hlist_def hpath_append)+
  have "hpath s' (First h) us n"
  proof (rule hpath_retarget [OF us])
    show "get_pprev x s' = get_pprev x s" if "x \<in> set us" for x
      using that n(1) d(1) hd_in_set [of vs] by (auto simp: pp)
  qed (use n(1) d(1) in \<open>auto simp: ld slot_after_def\<close>)
  moreover have "hpath s' (Next n) vs NULL"
  proof (cases vs)
    case Nil
    then show ?thesis using n(1) by (auto simp: ld slot_after_def)
  next
    case (Cons y ys)
    have "Next n \<noteq> slot_after (First h) us" using n(1) by (auto simp: slot_after_def)
    moreover have ns: "Next x \<noteq> slot_after (First h) us" if "x \<in> set vs" for x
    proof -
      have "x \<notin> set us" using that d(1) by auto
      then show ?thesis using slot_after_not_Next [of x us h] by simp
    qed
    have "hpath s' (Next y) ys NULL"
      by (rule hpath_frame [of s]) (use vs Cons n d ns in \<open>auto simp: ld pp\<close>)
    ultimately show ?thesis using Cons n by (auto simp: ld pp)
  qed
  ultimately show ?thesis using d n pp [of n] by (simp add: hlist_def hpath_append)
qed

lemma hlist_removeI:
  assumes l: "hlist s h (us @ n # vs)"
    and ld: "\<And>sl. sl \<noteq> Next n \<Longrightarrow> load_slot sl s' =
        (if sl = slot_after (First h) us then Some (hd (vs @ [NULL])) else load_slot sl s)"
    and pp: "\<And>x. x \<noteq> n \<Longrightarrow> get_pprev x s' =
        (if vs \<noteq> [] \<and> x = hd vs then Some (slot_after (First h) us) else get_pprev x s)"
  shows "hlist s' h (us @ vs)"
proof -
  have d: "distinct (us @ n # vs)" "NULL \<notin> set (us @ n # vs)" using l by (simp_all add: hlist_def)
  have us: "hpath s (First h) us n" and vs: "hpath s (Next n) vs NULL" using l by (simp_all add: hlist_def hpath_append)
  have ns: "slot_after (First h) us \<noteq> Next n" using d(1) by (intro slot_after_not_Next) auto
  have us': "hpath s' (First h) us (hd (vs @ [NULL]))"
  proof (rule hpath_retarget [OF us])
    show "get_pprev x s' = get_pprev x s" if "x \<in> set us" for x
      using that d(1) pp [of x] hd_in_set [of vs] by (cases "x = n") auto
  next
    have "\<And>x. x \<in> set us \<Longrightarrow> x \<noteq> n" using d(1) by auto
    then show "load_slot v s' = load_slot v s" if "v \<in> insert (First h) (Next ` set us)" "v \<noteq> slot_after (First h) us" for v
      using that by (auto simp: ld)
  qed (use d(1) ns in \<open>auto simp: ld\<close>)
  show ?thesis
  proof (cases vs)
    case Nil
    with us' d show ?thesis by (simp add: hlist_def)
  next
    case (Cons y ys)
    have ns: "Next x \<noteq> slot_after (First h) us" if "x \<in> set vs" for x
    proof -
      have "x \<notin> set us" using that d(1) by auto
      then show ?thesis using slot_after_not_Next [of x us h] by simp
    qed
    have "\<And>x. x \<in> set vs \<Longrightarrow> x \<noteq> n" using d(1) by auto
    then have "hpath s' (Next y) ys NULL"
      using vs Cons d ns by - (rule hpath_frame [of s], auto simp: ld pp)
    with us' Cons d pp [of y] show ?thesis by (auto simp: hlist_def hpath_append)
  qed
qed

lemma hlist_parts:
  assumes "hlist s h (us @ n # vs)"
  shows "load_slot (slot_after (First h) us) s = Some n" "get_pprev n s = Some (slot_after (First h) us)"
    "load_slot (Next n) s = Some (hd (vs @ [NULL]))" "vs \<noteq> [] \<Longrightarrow> node_ok (hd vs) s" "node_ok n s"
    "slot_after (First h) us \<noteq> Next n" "n \<noteq> NULL" "vs \<noteq> [] \<Longrightarrow> hd vs \<noteq> NULL \<and> hd vs \<noteq> n"
proof -
  have p: "hpath s (First h) us n" "get_pprev n s = Some (slot_after (First h) us)" "hpath s (Next n) vs NULL"
    and d: "distinct (us @ n # vs)" "NULL \<notin> set (us @ n # vs)"
    using assms by (simp_all add: hlist_def hpath_append)
  show "load_slot (slot_after (First h) us) s = Some n" using hpath_last [OF p(1)] .
  show "get_pprev n s = Some (slot_after (First h) us)" "node_ok n s" using p(2) by (simp_all add: node_ok_def)
  show "load_slot (Next n) s = Some (hd (vs @ [NULL]))" using p(3) by (cases vs) auto
  show "vs \<noteq> [] \<Longrightarrow> node_ok (hd vs) s" using p(3) by (cases vs) (auto simp: node_ok_def)
  show "slot_after (First h) us \<noteq> Next n" "n \<noteq> NULL" using d by (auto simp: slot_after_def)
  show "vs \<noteq> [] \<Longrightarrow> hd vs \<noteq> NULL \<and> hd vs \<noteq> n" using d by (cases vs) auto
qed

subsection \<open>The operations on lists\<close>

lemma raw_hlist_del_hlist:
  assumes "hlist s h (us @ n # vs)"
  shows "\<exists>s'. raw_hlist_del n s = Some s' \<and> hlist s' h (us @ vs) \<and> (\<forall>x. node_ok x s' = node_ok x s)
    \<and> (\<forall>q. q \<notin> set (h # us @ n # vs) \<longrightarrow> s' q = s q)"
proof -
  note p = hlist_parts [OF assms]
  let ?pp = "slot_after (First h) us" and ?nx = "hd (vs @ [NULL])"
  let ?s = "upd_slot ?pp ?nx s"
  let ?s' = "if vs = [] then ?s else upd_pprev (hd vs) ?pp ?s"
  have "?nx \<noteq> NULL \<longleftrightarrow> vs \<noteq> []" using p(8) by auto
  then have run: "raw_hlist_del n s = Some ?s'"
    using p load_ok [OF p(1)] by (simp add: raw_hlist_del_def hheap_simps)
  moreover have "hlist ?s' h (us @ vs)"
    by (rule hlist_removeI [OF assms]) (use p load_ok [OF p(1)] in \<open>auto simp: hheap_simps\<close>)
  moreover have "node_ok x ?s' = node_ok x s" for x by (simp add: hheap_simps)
  moreover have "?s' q = s q" if "q \<notin> set (h # us @ n # vs)" for q
  proof -
    have "q \<noteq> slot_cell ?pp" using that slot_cell_after [of h us] by auto
    moreover have "vs \<noteq> [] \<Longrightarrow> q \<noteq> hd vs" using that hd_in_set [of vs] by auto
    ultimately show ?thesis by (simp add: upd_slot_other upd_pprev_other)
  qed
  ultimately show ?thesis by blast
qed

lemma hlist_del_hlist:
  assumes "hlist s h (us @ n # vs)"
  shows "\<exists>s'. hlist_del n s = Some s' \<and> hlist s' h (us @ vs) \<and> (\<forall>x. node_ok x s' = node_ok x s)
    \<and> (\<forall>q. q \<notin> set (h # us @ n # vs) \<longrightarrow> s' q = s q)
    \<and> load_slot (Next n) s' = Some LIST_POISON1 \<and> get_pprev n s' = Some Poison_slot"
proof -
  obtain s1 where s1: "raw_hlist_del n s = Some s1" "hlist s1 h (us @ vs)" "\<And>x. node_ok x s1 = node_ok x s"
    "\<And>q. q \<notin> set (h # us @ n # vs) \<Longrightarrow> s1 q = s q"
    using raw_hlist_del_hlist [OF assms] by blast
  have n: "node_ok n s1" "slot_ok (Next n) s1" using hlist_parts(5) [OF assms] s1(3) by (simp_all add: node_ok_Next)
  let ?s' = "upd_pprev n Poison_slot (upd_slot (Next n) LIST_POISON1 s1)"
  have other: "?s' q = s1 q" if "q \<noteq> n" for q using that by (simp add: upd_pprev_other upd_slot_other)
  have "hlist ?s' h (us @ vs)"
    using assms hlist_head_not_node [OF s1(2) n(1)] by (intro hlist_frame [OF s1(2)] other) (auto simp: hlist_def)
  with s1 n other show ?thesis by (simp add: hlist_del_def hheap_simps)
qed


lemma hlist_del_init_hlist:
  assumes "hlist s h (us @ n # vs)"
  shows "\<exists>s'. hlist_del_init n s = Some s' \<and> hlist s' h (us @ vs) \<and> hlist_unhashed n s' = Some True
    \<and> hlist_del_init n s' = Some s'"
proof -
  obtain s1 where s1: "raw_hlist_del n s = Some s1" "hlist s1 h (us @ vs)" "\<And>x. node_ok x s1 = node_ok x s"
    using raw_hlist_del_hlist [OF assms] by blast
  have n: "node_ok n s1" "slot_ok (Next n) s1" using hlist_parts(5) [OF assms] s1(3) by (simp_all add: node_ok_Next)
  let ?s' = "upd_pprev n Null_slot (upd_slot (Next n) NULL s1)"
  have other: "?s' q = s1 q" if "q \<noteq> n" for q using that by (simp add: upd_pprev_other upd_slot_other)
  have "hlist ?s' h (us @ vs)"
    using assms hlist_head_not_node [OF s1(2) n(1)] by (intro hlist_frame [OF s1(2)] other) (auto simp: hlist_def)
  moreover have "hlist_unhashed n s = Some False"
    using hlist_parts(2) [OF assms] by (simp add: hlist_unhashed_def slot_after_def)
  ultimately show ?thesis
    using s1 n by (simp add: hlist_del_init_def INIT_HLIST_NODE_def hlist_unhashed_def hheap_simps)
qed

text \<open>An insertion touches the list and the new node only.\<close>

lemma hlist_add_behind_hlist:
  assumes l: "hlist s h (us @ p # vs)" and n: "n \<notin> set (us @ p # vs)" "n \<noteq> NULL" "node_ok n s"
  shows "\<exists>s'. hlist_add_behind n p s = Some s' \<and> hlist s' h (us @ p # n # vs)"
proof -
  note q = hlist_parts [OF l]
  let ?s = "upd_pprev n (Next p) (upd_slot (Next p) n (upd_slot (Next n) (hd (vs @ [NULL])) s))"
  let ?s' = "if vs = [] then ?s else upd_pprev (hd vs) (Next n) ?s"
  have ok: "slot_ok (Next n) s" "slot_ok (Next p) s" "n \<noteq> p" "vs \<noteq> [] \<Longrightarrow> hd vs \<noteq> n"
    using n q(5) hd_in_set [of vs] by (auto simp: node_ok_Next)
  have "hd (vs @ [NULL]) \<noteq> NULL \<longleftrightarrow> vs \<noteq> []" using q(8) by auto
  then have "hlist_add_behind n p s = Some ?s'"
    using q ok n(3) by (simp add: hlist_add_behind_def hheap_simps)
  moreover have "hlist ?s' h ((us @ [p]) @ n # vs)"
    by (rule hlist_insertI [of s]) (use l n q ok in \<open>auto simp: hheap_simps\<close>)
  ultimately show ?thesis by simp
qed

lemma hlist_add_before_hlist:
  assumes l: "hlist s h (us @ x # vs)" and n: "n \<notin> set (us @ x # vs)" "n \<noteq> NULL" "node_ok n s"
  shows "\<exists>s'. hlist_add_before n x s = Some s' \<and> hlist s' h (us @ n # x # vs)"
proof -
  note q = hlist_parts [OF l]
  let ?pp = "slot_after (First h) us"
  let ?s' = "upd_slot ?pp n (upd_pprev x (Next n) (upd_slot (Next n) x (upd_pprev n ?pp s)))"
  have ok: "slot_ok (Next n) s" "n \<noteq> x" "?pp \<noteq> Next n"
    using n slot_after_not_Next [of n us h] by (auto simp: node_ok_Next)
  have "hlist_add_before n x s = Some ?s'"
    using q ok n(3) load_ok [OF q(1)] by (simp add: hlist_add_before_def hheap_simps)
  moreover have "hlist ?s' h (us @ n # x # vs)"
    by (rule hlist_insertI [of s]) (use l n q ok load_ok [OF q(1)] in \<open>auto simp: hheap_simps\<close>)
  ultimately show ?thesis by simp
qed

lemma hlist_first:
  assumes "hlist s h xs"
  shows "load_slot (First h) s = Some (hd (xs @ [NULL]))" "hd (xs @ [NULL]) = NULL \<longleftrightarrow> xs = []"
    "xs \<noteq> [] \<Longrightarrow> node_ok (hd xs) s" "slot_ok (First h) s"
  using assms by (cases xs; auto simp: hlist_def slot_ok_def node_ok_def)+

lemma hlist_add_head_hlist:
  assumes l: "hlist s h xs" and n: "n \<notin> set xs" "n \<noteq> NULL" "node_ok n s"
  shows "\<exists>s'. hlist_add_head n h s = Some s' \<and> hlist s' h (n # xs) \<and> (\<forall>x. node_ok x s' = node_ok x s)
    \<and> (\<forall>q. q \<notin> set (h # n # xs) \<longrightarrow> s' q = s q)"
proof -
  note q = hlist_first [OF l]
  let ?s = "upd_slot (Next n) (hd (xs @ [NULL])) s"
  let ?t = "if xs = [] then ?s else upd_pprev (hd xs) (Next n) ?s"
  let ?s' = "upd_pprev n (First h) (upd_slot (First h) n ?t)"
  have ok: "slot_ok (Next n) s" "xs \<noteq> [] \<Longrightarrow> hd xs \<noteq> n" using n hd_in_set [of xs] by (auto simp: node_ok_Next)
  have "hlist_add_head n h s = Some ?s'"
    using q ok n(3) by (simp add: hlist_add_head_def hheap_simps)
  moreover have "hlist ?s' h ([] @ n # xs)"
    by (rule hlist_insertI [of s]) (use l n q ok in \<open>auto simp: hheap_simps\<close>)
  moreover have "?s' c = s c" if "c \<notin> set (h # n # xs)" for c
  proof -
    have "xs \<noteq> [] \<Longrightarrow> c \<noteq> hd xs" using that hd_in_set [of xs] by auto
    with that show ?thesis by (simp add: upd_slot_other upd_pprev_other)
  qed
  ultimately show ?thesis by (simp add: hheap_simps)
qed

lemma hlist_move_list_hlist:
  assumes l: "hlist s old xs" and new: "slot_ok (First new) s" "old \<noteq> new"
  shows "\<exists>s'. hlist_move_list old new s = Some s' \<and> hlist s' new xs \<and> hlist s' old []"
proof -
  note q = hlist_first [OF l]
  let ?s = "upd_slot (First new) (hd (xs @ [NULL])) s"
  let ?t = "if xs = [] then ?s else upd_pprev (hd xs) (First new) ?s"
  let ?s' = "upd_slot (First old) NULL ?t"
  have "hlist_move_list old new s = Some ?s'" using q new by (simp add: hlist_move_list_def hheap_simps)
  moreover have "hlist ?s' old []" using q by (simp add: hlist_def hheap_simps)
  moreover have "hpath ?s' (First new) xs NULL"
  proof (cases xs)
    case Nil
    then show ?thesis using new by (simp add: hheap_simps)
  next
    case (Cons y ys)
    have "hpath ?s' (Next y) ys NULL"
      by (rule hpath_frame [of s]) (use l Cons in \<open>auto simp: hlist_def hheap_simps\<close>)
    with Cons new q show ?thesis by (simp add: hheap_simps)
  qed
  ultimately show ?thesis using l by (simp add: hlist_def)
qed

lemma hlist_queries:
  assumes "hlist s h xs"
  shows "hlist_empty h s = Some (xs = [])"
    "x \<in> set xs \<Longrightarrow> hlist_unhashed x s = Some False"
    "x \<in> set xs \<Longrightarrow> hlist_is_singular_node x h s = Some (xs = [x])"
    "x \<in> set xs \<Longrightarrow> hlist_fake x s = Some False"
proof -
  show "hlist_empty h s = Some (xs = [])" using hlist_first [OF assms] by (simp add: hlist_empty_def)
  assume "x \<in> set xs"
  then obtain us vs where xs: "xs = us @ x # vs" by (auto dest: split_list)
  note p = hlist_parts [OF assms [unfolded xs]]
  have v: "hd (vs @ [NULL]) = NULL \<longleftrightarrow> vs = []" using p(8) by (cases "vs = []") auto
  show "hlist_unhashed x s = Some False" using p(2) by (simp add: hlist_unhashed_def slot_after_def)
  have "xs = [x] \<longleftrightarrow> us = [] \<and> vs = []" using xs by (cases us) auto
  with p(2,3) v show "hlist_is_singular_node x h s = Some (xs = [x])"
    by (auto simp: hlist_is_singular_node_def slot_after_def)
  show "hlist_fake x s = Some False" using p(2,6) by (simp add: hlist_fake_def)
qed

text \<open>After \<^const>\<open>hlist_add_fake\<close> a node that is on no list can be deleted.\<close>

lemma hlist_del_fake:
  assumes "node_ok n s" and "load_slot (Next n) s = Some NULL"
  shows "\<exists>s1 s2. hlist_add_fake n s = Some s1 \<and> hlist_fake n s1 = Some True \<and> hlist_del n s1 = Some s2"
  using assms
  by (simp add: hlist_add_fake_def hlist_fake_def hlist_del_def raw_hlist_del_def hheap_simps node_ok_Next slot_ok_def)

subsection \<open>The interface of intrusive lists\<close>

definition hash_nodes :: "hheap \<Rightarrow> addr set" where
  "hash_nodes s = {x. x \<noteq> NULL \<and> node_ok x s}"

lemma hlist_nodes: "hlist s h xs \<Longrightarrow> set xs \<subseteq> hash_nodes s"
proof
  fix x assume l: "hlist s h xs" and "x \<in> set xs"
  then obtain us vs where xs: "xs = us @ x # vs" by (auto dest: split_list)
  show "x \<in> hash_nodes s" using hlist_parts(5,7) [OF l [unfolded xs]] by (simp add: hash_nodes_def)
qed

interpretation hl: intrusive_list "\<lambda>s h xs. hlist s h (rev xs)" hash_nodes hlist_add_head hlist_del
proof (unfold_locales, goal_cases)
  case (1 s h xs)
  then show ?case
    using hlist_nodes [OF 1] hlist_head_not_node [OF 1] by (auto simp: hlist_def hash_nodes_def)
next
  case (2 s h xs)
  then show ?case using hlist_nodes by fastforce
next
  case (3 s h xs x)
  then show ?case
    using hlist_add_head_hlist [OF 3(1), of x] by (fastforce simp: hash_nodes_def intro: hlist_frame)
next
  case (4 s h us x vs)
  then show ?case
    using hlist_del_hlist [of s h "rev vs" x "rev us"] by (fastforce simp: hash_nodes_def intro: hlist_frame)
qed

subsection \<open>Iteration\<close>

text \<open>
  As for the circular lists, the state of a loop body is any type with a memory in it, and an entry is identified with the
  address of its node.
\<close>

partial_function (option) hlist_for_each_loop ::
  "('s \<Rightarrow> hheap) \<Rightarrow> (addr \<Rightarrow> 's \<Rightarrow> 's option) \<Rightarrow> addr \<Rightarrow> 's \<Rightarrow> 's option" where
  "hlist_for_each_loop hh body pos s =
     (if pos = NULL then Some s
      else do {
        s \<leftarrow> body pos s;
        n \<leftarrow> load_slot (Next pos) (hh s);
        hlist_for_each_loop hh body n s
      })"

definition hlist_for_each_entry :: "('s \<Rightarrow> hheap) \<Rightarrow> (addr \<Rightarrow> 's \<Rightarrow> 's option) \<Rightarrow> addr \<Rightarrow> 's \<Rightarrow> 's option" where
  "hlist_for_each_entry hh body head s = do {
     pos \<leftarrow> load_slot (First head) (hh s);
     hlist_for_each_loop hh body pos s
   }"

definition hlist_for_each_entry_continue :: "('s \<Rightarrow> hheap) \<Rightarrow> (addr \<Rightarrow> 's \<Rightarrow> 's option) \<Rightarrow> addr \<Rightarrow> 's \<Rightarrow> 's option" where
  "hlist_for_each_entry_continue hh body pos s = do {
     pos \<leftarrow> load_slot (Next pos) (hh s);
     hlist_for_each_loop hh body pos s
   }"

definition hlist_for_each_entry_from :: "('s \<Rightarrow> hheap) \<Rightarrow> (addr \<Rightarrow> 's \<Rightarrow> 's option) \<Rightarrow> addr \<Rightarrow> 's \<Rightarrow> 's option" where
  "hlist_for_each_entry_from hh body pos s = hlist_for_each_loop hh body pos s"

partial_function (option) hlist_for_each_safe_loop ::
  "('s \<Rightarrow> hheap) \<Rightarrow> (addr \<Rightarrow> 's \<Rightarrow> 's option) \<Rightarrow> addr \<Rightarrow> 's \<Rightarrow> 's option" where
  "hlist_for_each_safe_loop hh body pos s =
     (if pos = NULL then Some s
      else do {
        n \<leftarrow> load_slot (Next pos) (hh s);
        s \<leftarrow> body pos s;
        hlist_for_each_safe_loop hh body n s
      })"

definition hlist_for_each_entry_safe :: "('s \<Rightarrow> hheap) \<Rightarrow> (addr \<Rightarrow> 's \<Rightarrow> 's option) \<Rightarrow> addr \<Rightarrow> 's \<Rightarrow> 's option" where
  "hlist_for_each_entry_safe hh body head s = do {
     pos \<leftarrow> load_slot (First head) (hh s);
     hlist_for_each_safe_loop hh body pos s
   }"

lemma hlist_for_each_loop_fold:
  assumes "hlist (hh s) h (ys @ xs)"
    and "\<And>x s s'. x \<in> set xs \<Longrightarrow> body x s = Some s' \<Longrightarrow> hh s' = hh s"
  shows "hlist_for_each_loop hh body (hd (xs @ [NULL])) s = fold_option body xs s"
  using assms
proof (induction xs arbitrary: ys s)
  case (Cons x xs)
  note p = hlist_parts [OF Cons.prems(1)]
  show ?case
  proof (cases "body x s")
    case (Some s')
    then have hh: "hh s' = hh s" by (intro Cons.prems(2)) auto
    have "hlist_for_each_loop hh body (hd (xs @ [NULL])) s' = fold_option body xs s'"
      using Cons.prems hh by (intro Cons.IH [of s' "ys @ [x]"]) auto
    with Some hh p show ?thesis by (simp add: hlist_for_each_loop.simps [of _ _ x])
  qed (use p(7) in \<open>simp add: hlist_for_each_loop.simps [of _ _ x]\<close>)
qed (simp add: hlist_for_each_loop.simps)

lemma hlist_for_each_safe_loop_kept:
  assumes "hlist (hh s) h (ys @ xs)" and "I xs s"
    and body: "\<And>ys x xs s. hlist (hh s) h (ys @ x # xs) \<Longrightarrow> I (x # xs) s \<Longrightarrow>
        \<exists>s'. body x s = Some s' \<and> I xs s' \<and> hlist (hh s') h (ys @ kept K [x] @ xs)"
  shows "\<exists>s'. hlist_for_each_safe_loop hh body (hd (xs @ [NULL])) s = Some s' \<and> I [] s' \<and> hlist (hh s') h (ys @ kept K xs)"
  using assms(1,2)
proof (induction xs arbitrary: ys s)
  case Nil
  then show ?case by (simp add: hlist_for_each_safe_loop.simps kept_def)
next
  case (Cons x xs)
  obtain s1 where s1: "body x s = Some s1" "I xs s1" "hlist (hh s1) h ((ys @ kept K [x]) @ xs)"
    using body [OF Cons.prems] by auto
  obtain s' where "hlist_for_each_safe_loop hh body (hd (xs @ [NULL])) s1 = Some s'" "I [] s'"
      "hlist (hh s') h ((ys @ kept K [x]) @ kept K xs)"
    using Cons.IH [OF s1(3,2)] by blast
  with s1(1) hlist_parts(3,7) [OF Cons.prems(1)] show ?case
    by (cases "x \<in> K") (simp_all add: hlist_for_each_safe_loop.simps [of _ _ x] kept_def)
qed

subsection \<open>What the hash lists promise\<close>

text \<open>A head with two nodes on its list and one node on no list.\<close>

definition hash_sample :: hheap where
  "hash_sample = [1 \<mapsto> HHead \<lparr>hh_first = 2\<rparr>, 2 \<mapsto> HNode \<lparr>hn_next = 3, hn_pprev = First 1\<rparr>,
     3 \<mapsto> HNode \<lparr>hn_next = NULL, hn_pprev = Next 2\<rparr>, 4 \<mapsto> HNode \<lparr>hn_next = NULL, hn_pprev = Null_slot\<rparr>,
     5 \<mapsto> HNode \<lparr>hn_next = NULL, hn_pprev = Null_slot\<rparr>]"

lemma hash_sample_list: "hlist hash_sample 1 [2, 3]"
  by (simp add: hlist_def hash_sample_def load_slot.simps get_pprev_def)



text \<open>
  C34: Entries hashed one after the other and deleted again in any order leave the list as it was, and a loop that may delete
  the entry it visits visits every entry of the list once, terminates, and leaves exactly the entries it kept.
\<close>

theorem hash_list_add_del_iterate:
  assumes l: "hlist s h xs" and ys: "distinct ys" "set ys \<inter> set (h # xs) = {}" "set ys \<subseteq> hash_nodes s"
    and zs: "set zs = set ys" "distinct zs"
  shows "(\<exists>s'. fold_option (\<lambda>x. hlist_add_head x h) ys s \<bind> fold_option hlist_del zs = Some s' \<and> hlist s' h xs)
    \<and> (\<exists>s'. hlist_for_each_entry_safe id (\<lambda>x s. if x \<in> K then Some s else hlist_del x s) h s = Some s'
        \<and> hlist s' h (kept K xs))"
proof
  show "\<exists>s'. fold_option (\<lambda>x. hlist_add_head x h) ys s \<bind> fold_option hlist_del zs = Some s' \<and> hlist s' h xs"
    using hl.add_then_del [of s h "rev xs" ys zs] assms by simp
  have "\<exists>s'. hlist_for_each_safe_loop id (\<lambda>x s. if x \<in> K then Some s else hlist_del x s) (hd (xs @ [NULL])) s = Some s'
      \<and> True \<and> hlist (id s') h ([] @ kept K xs)"
  proof (rule hlist_for_each_safe_loop_kept)
    fix us x vs s assume "hlist (id s) h (us @ x # vs)"
    then show "\<exists>s'. (if x \<in> K then Some s else hlist_del x s) = Some s' \<and> True \<and> hlist (id s') h (us @ kept K [x] @ vs)"
      using hlist_del_hlist [of s h us x vs] by (auto simp: kept_def)
  qed (use l in simp_all)
  then show "\<exists>s'. hlist_for_each_entry_safe id (\<lambda>x s. if x \<in> K then Some s else hlist_del x s) h s = Some s' \<and> hlist s' h (kept K xs)"
    using hlist_first(1) [OF l] by (simp add: hlist_for_each_entry_safe_def)
qed

theorem hash_list_add_del_iterate_witness:
  "(\<exists>s'. fold_option (\<lambda>x. hlist_add_head x 1) [4, 5] hash_sample \<bind> fold_option hlist_del [4, 5] = Some s' \<and> hlist s' 1 [2, 3])
   \<and> (\<exists>s'. hlist_for_each_entry_safe id (\<lambda>x s. if x \<in> {3} then Some s else hlist_del x s) 1 hash_sample = Some s' \<and> hlist s' 1 [3])"
  using hash_list_add_del_iterate [OF hash_sample_list, of "[4, 5]" "[4, 5]" "{3}"]
  by (simp add: kept_def hash_nodes_def node_ok_def get_pprev_def hash_sample_def)

end
