(* ===== verification/List_Iteration.thy ===== *)
theory List_Iteration
  imports Linux_List
begin

text \<open>
  The accessors and the iteration macros of \<^verbatim>\<open>src/src/list.h\<close>. The program uses two of them (\<^const>\<open>list_for_each_entry\<close> and
  \<^const>\<open>list_for_each_entry_safe\<close>); the others start elsewhere or walk backwards. Walking backwards through a list is walking forwards
  through its mirror image, which carries every fact about the forward loops over to the backward ones. An entry is identified with
  the address of its node, so that \<^verbatim>\<open>container_of\<close> is the identity.
\<close>

subsection \<open>Entries\<close>

definition list_first_entry :: "addr \<Rightarrow> lheap \<Rightarrow> addr option" where
  "list_first_entry head h = get_next head h"

definition list_last_entry :: "addr \<Rightarrow> lheap \<Rightarrow> addr option" where
  "list_last_entry head h = get_prev head h"

definition list_first_entry_or_null :: "addr \<Rightarrow> lheap \<Rightarrow> addr option" where
  "list_first_entry_or_null head h = do {
     pos \<leftarrow> get_next head h;
     Some (if pos \<noteq> head then pos else NULL)
   }"

definition list_next_entry :: "addr \<Rightarrow> lheap \<Rightarrow> addr option" where
  "list_next_entry pos h = get_next pos h"

definition list_prev_entry :: "addr \<Rightarrow> lheap \<Rightarrow> addr option" where
  "list_prev_entry pos h = get_prev pos h"

definition list_prepare_entry :: "addr \<Rightarrow> addr \<Rightarrow> addr" where
  "list_prepare_entry pos head = (if pos \<noteq> NULL then pos else head)"

definition list_safe_reset_next :: "addr \<Rightarrow> lheap \<Rightarrow> addr option" where
  "list_safe_reset_next pos h = list_next_entry pos h"

subsection \<open>Forward loops that start elsewhere\<close>

type_synonym 's iteration = "('s \<Rightarrow> lheap) \<Rightarrow> (addr \<Rightarrow> 's \<Rightarrow> 's option) \<Rightarrow> addr \<Rightarrow> 's \<Rightarrow> 's option"

definition list_for_each :: "'s iteration" where
  "list_for_each lh body head s = do {
     pos \<leftarrow> get_next head (lh s);
     list_for_each_loop lh body head pos s
   }"

definition list_for_each_safe :: "'s iteration" where
  "list_for_each_safe lh body head s = do {
     pos \<leftarrow> get_next head (lh s);
     n \<leftarrow> get_next pos (lh s);
     list_for_each_safe_loop lh body head pos n s
   }"

definition list_for_each_entry_continue :: "addr \<Rightarrow> 's iteration" where
  "list_for_each_entry_continue pos lh body head s = do {
     pos \<leftarrow> list_next_entry pos (lh s);
     list_for_each_loop lh body head pos s
   }"

definition list_for_each_entry_from :: "addr \<Rightarrow> 's iteration" where
  "list_for_each_entry_from pos lh body head s = list_for_each_loop lh body head pos s"

definition list_for_each_entry_safe_continue :: "addr \<Rightarrow> 's iteration" where
  "list_for_each_entry_safe_continue pos lh body head s = do {
     pos \<leftarrow> list_next_entry pos (lh s);
     n \<leftarrow> list_next_entry pos (lh s);
     list_for_each_safe_loop lh body head pos n s
   }"

definition list_for_each_entry_safe_from :: "addr \<Rightarrow> 's iteration" where
  "list_for_each_entry_safe_from pos lh body head s = do {
     n \<leftarrow> list_next_entry pos (lh s);
     list_for_each_safe_loop lh body head pos n s
   }"

subsection \<open>Backward loops\<close>

partial_function (option) list_for_each_reverse_loop ::
  "('s \<Rightarrow> lheap) \<Rightarrow> (addr \<Rightarrow> 's \<Rightarrow> 's option) \<Rightarrow> addr \<Rightarrow> addr \<Rightarrow> 's \<Rightarrow> 's option" where
  "list_for_each_reverse_loop lh body head pos s =
     (if pos = head then Some s
      else do {
        s \<leftarrow> body pos s;
        n \<leftarrow> get_prev pos (lh s);
        list_for_each_reverse_loop lh body head n s
      })"

definition list_for_each_prev :: "'s iteration" where
  "list_for_each_prev lh body head s = do {
     pos \<leftarrow> get_prev head (lh s);
     list_for_each_reverse_loop lh body head pos s
   }"

definition list_for_each_entry_reverse :: "'s iteration" where
  "list_for_each_entry_reverse lh body head s = do {
     pos \<leftarrow> list_last_entry head (lh s);
     list_for_each_reverse_loop lh body head pos s
   }"

definition list_for_each_entry_continue_reverse :: "addr \<Rightarrow> 's iteration" where
  "list_for_each_entry_continue_reverse pos lh body head s = do {
     pos \<leftarrow> list_prev_entry pos (lh s);
     list_for_each_reverse_loop lh body head pos s
   }"

definition list_for_each_entry_from_reverse :: "addr \<Rightarrow> 's iteration" where
  "list_for_each_entry_from_reverse pos lh body head s = list_for_each_reverse_loop lh body head pos s"

partial_function (option) list_for_each_safe_reverse_loop ::
  "('s \<Rightarrow> lheap) \<Rightarrow> (addr \<Rightarrow> 's \<Rightarrow> 's option) \<Rightarrow> addr \<Rightarrow> addr \<Rightarrow> addr \<Rightarrow> 's \<Rightarrow> 's option" where
  "list_for_each_safe_reverse_loop lh body head pos n s =
     (if pos = head then Some s
      else do {
        s \<leftarrow> body pos s;
        n' \<leftarrow> get_prev n (lh s);
        list_for_each_safe_reverse_loop lh body head n n' s
      })"

definition list_for_each_prev_safe :: "'s iteration" where
  "list_for_each_prev_safe lh body head s = do {
     pos \<leftarrow> get_prev head (lh s);
     n \<leftarrow> get_prev pos (lh s);
     list_for_each_safe_reverse_loop lh body head pos n s
   }"

definition list_for_each_entry_safe_reverse :: "'s iteration" where
  "list_for_each_entry_safe_reverse lh body head s = do {
     pos \<leftarrow> list_last_entry head (lh s);
     n \<leftarrow> list_prev_entry pos (lh s);
     list_for_each_safe_reverse_loop lh body head pos n s
   }"

subsection \<open>The mirror image of a list\<close>

definition mirror :: "lheap \<Rightarrow> lheap" where
  "mirror h p = map_option (\<lambda>n. \<lparr>lh_next = lh_prev n, lh_prev = lh_next n\<rparr>) (h p)"

lemma get_mirror [simp]: "get_next p (mirror h) = get_prev p h" "get_prev p (mirror h) = get_next p h"
  by (simp_all add: get_next_def get_prev_def mirror_def option.map_comp o_def)

lemma link_mirror: "link (mirror h) q p = link h p q"
  by (auto simp: link_def)

lemma path_mirror: "path (mirror h) (rev xs) = path h xs"
proof (induction xs)
  case (Cons x xs)
  then show ?case by (cases xs) (auto simp: path_append link_mirror)
qed simp

lemma dlist_mirror: "dlist (mirror h) head (rev xs) = dlist h head xs"
  using path_mirror [of h "head # xs @ [head]"] by (auto simp: dlist_def)

lemma dlist_mirror_rev: "dlist h head xs \<Longrightarrow> dlist (mirror h) head (rev xs)"
  by (simp add: dlist_mirror)

lemma option_eqI: "(\<And>v. x = Some v \<Longrightarrow> y = Some v) \<Longrightarrow> (\<And>v. y = Some v \<Longrightarrow> x = Some v) \<Longrightarrow> x = y"
  by (cases x; cases y) auto

lemma reverse_loop_mirror:
  "list_for_each_reverse_loop lh body head pos s = list_for_each_loop (\<lambda>s. mirror (lh s)) body head pos s"
proof (rule option_eqI)
  fix v assume "list_for_each_reverse_loop lh body head pos s = Some v"
  then show "list_for_each_loop (\<lambda>s. mirror (lh s)) body head pos s = Some v"
  proof (induction rule: list_for_each_reverse_loop.raw_induct [rotated, consumes 1])
    case (1 loop lh body head pos s v)
    then show ?case by (subst list_for_each_loop.simps) (auto simp: Prelude.bind_Some_iff split: if_splits)
  qed
next
  fix v assume "list_for_each_loop (\<lambda>s. mirror (lh s)) body head pos s = Some v"
  then show "list_for_each_reverse_loop lh body head pos s = Some v"
  proof (induction "\<lambda>s. mirror (lh s)" body head pos s v rule: list_for_each_loop.raw_induct [rotated, consumes 1])
    case (1 loop body head pos s v)
    then show ?case by (subst list_for_each_reverse_loop.simps) (auto simp: Prelude.bind_Some_iff split: if_splits)
  qed
qed

lemma safe_reverse_loop_mirror:
  "list_for_each_safe_reverse_loop lh body head pos n s = list_for_each_safe_loop (\<lambda>s. mirror (lh s)) body head pos n s"
proof (rule option_eqI)
  fix v assume "list_for_each_safe_reverse_loop lh body head pos n s = Some v"
  then show "list_for_each_safe_loop (\<lambda>s. mirror (lh s)) body head pos n s = Some v"
  proof (induction rule: list_for_each_safe_reverse_loop.raw_induct [rotated, consumes 1])
    case (1 loop lh body head pos n s v)
    then show ?case by (subst list_for_each_safe_loop.simps) (auto simp: Prelude.bind_Some_iff split: if_splits)
  qed
next
  fix v assume "list_for_each_safe_loop (\<lambda>s. mirror (lh s)) body head pos n s = Some v"
  then show "list_for_each_safe_reverse_loop lh body head pos n s = Some v"
  proof (induction "\<lambda>s. mirror (lh s)" body head pos n s v rule: list_for_each_safe_loop.raw_induct [rotated, consumes 1])
    case (1 loop body head pos n s v)
    then show ?case by (subst list_for_each_safe_reverse_loop.simps) (auto simp: Prelude.bind_Some_iff split: if_splits)
  qed
qed

subsection \<open>What the loops visit\<close>

lemma reverse_loop_fold:
  assumes d: "dlist (lh s) head (xs @ ys)" and "\<And>x s s'. x \<in> set xs \<Longrightarrow> body x s = Some s' \<Longrightarrow> lh s' = lh s"
  shows "list_for_each_reverse_loop lh body head (last (head # xs)) s = fold_option body (rev xs) s"
proof -
  have "last (head # xs) = hd (rev xs @ [head])" by (cases xs rule: rev_cases) auto
  moreover have "dlist (mirror (lh s)) head (rev ys @ rev xs)" using dlist_mirror_rev [OF d] by simp
  then have "list_for_each_loop (\<lambda>s. mirror (lh s)) body head (hd (rev xs @ [head])) s = fold_option body (rev xs) s"
    using assms(2) by (intro list_for_each_loop_fold) auto
  ultimately show ?thesis by (simp only: reverse_loop_mirror)
qed

text \<open>A body that deletes the entries outside \<open>K\<close>.\<close>

definition delete_unless :: "addr set \<Rightarrow> addr \<Rightarrow> lheap \<Rightarrow> lheap option" where
  "delete_unless K x h = (if x \<in> K then Some h else list_del x h)"

lemma delete_unless_dlist:
  "dlist h head (us @ x # vs) \<Longrightarrow> \<exists>h'. delete_unless K x h = Some h' \<and> dlist h' head (us @ kept K [x] @ vs)"
  using list_del_dlist [of h head us x vs] by (auto simp: delete_unless_def kept_def)

lemma safe_loop_delete:
  assumes "dlist h head (us @ xs)" and "xs \<noteq> [] \<Longrightarrow> n = hd (tl xs @ [head])"
  shows "\<exists>h'. list_for_each_safe_loop id (delete_unless K) head (hd (xs @ [head])) n h = Some h' \<and> dlist h' head (us @ kept K xs)"
  using list_for_each_safe_loop_kept [of id h head us xs "\<lambda>_ _. True" "delete_unless K" K n] assms delete_unless_dlist
  by auto

lemma safe_reverse_loop_delete:
  assumes d: "dlist h head (xs @ us)" and n: "xs \<noteq> [] \<Longrightarrow> n = last (head # butlast xs)"
  shows "\<exists>h'. list_for_each_safe_reverse_loop id (delete_unless K) head (last (head # xs)) n h = Some h' \<and> dlist h' head (kept K xs @ us)"
proof -
  have "last (head # xs) = hd (rev xs @ [head])" "last (head # butlast xs) = hd (tl (rev xs) @ [head])"
    by (cases xs rule: rev_cases; simp add: hd_append last_rev hd_rev)+
  moreover have "dlist (mirror h) head (rev us @ rev xs)" using dlist_mirror_rev [OF d] by simp
  moreover have "\<exists>h'. delete_unless K x h = Some h' \<and> True \<and> dlist (mirror h') head (vs @ kept K [x] @ zs)"
    if "dlist (mirror h) head (vs @ x # zs)" for vs x zs h
  proof -
    have "dlist h head (rev zs @ x # rev vs)" using that dlist_mirror [of h head "rev zs @ x # rev vs"] by simp
    from delete_unless_dlist [OF this, of K] show ?thesis
      using dlist_mirror_rev [where xs = "rev zs @ kept K [x] @ rev vs"] by (fastforce simp: kept_def)
  qed
  ultimately have "\<exists>h'. list_for_each_safe_loop (\<lambda>h. mirror (id h)) (delete_unless K) head (last (head # xs)) n h = Some h'
      \<and> True \<and> dlist (mirror (id h')) head (rev us @ kept K (rev xs))"
    using list_for_each_safe_loop_kept [of "\<lambda>h. mirror (id h)" h head "rev us" "rev xs" "\<lambda>_ _. True" "delete_unless K" K n] n
    by auto
  then show ?thesis
    using dlist_mirror [where xs = "kept K xs @ us"] by (simp add: safe_reverse_loop_mirror kept_def rev_filter)
qed

subsection \<open>What the lists promise\<close>

text \<open>The links of the entry \<open>p\<close> of a list.\<close>

lemma dlist_neighbours:
  assumes "dlist h head (us @ p # vs)"
  shows "get_next p h = Some (hd (vs @ [head]))" "get_prev p h = Some (last (head # us))" "p \<noteq> head"
  using dlist_entry [OF assms] dlist_distinct [OF assms] by (auto simp: link_def)

lemma dlist_last_prev:
  assumes "dlist h head xs" and "xs \<noteq> []"
  shows "get_prev (last (head # xs)) h = Some (last (head # butlast xs))"
proof (cases xs rule: rev_cases)
  case (snoc ys y)
  then show ?thesis using dlist_neighbours(2) [of h head ys y "[]"] assms(1) by simp
qed (use assms(2) in simp)

text \<open>
  C21: The iteration macros terminate and visit what their names promise. For a loop body that leaves the links alone, the plain
  loops visit all entries in order, the backward loops all entries in reverse order, and the loops that continue
  after or start from an entry visit exactly the rest of the list in their direction.
\<close>

theorem iteration_visits:
  assumes d: "dlist (lh s) head (us @ p # vs)"
    and body: "\<And>x s s'. body x s = Some s' \<Longrightarrow> lh s' = lh s"
  shows "list_for_each lh body head s = fold_option body (us @ p # vs) s
    \<and> list_for_each_entry lh body head s = fold_option body (us @ p # vs) s
    \<and> list_for_each_prev lh body head s = fold_option body (rev (us @ p # vs)) s
    \<and> list_for_each_entry_reverse lh body head s = fold_option body (rev (us @ p # vs)) s
    \<and> list_for_each_entry_continue p lh body head s = fold_option body vs s
    \<and> list_for_each_entry_from p lh body head s = fold_option body (p # vs) s
    \<and> list_for_each_entry_continue_reverse p lh body head s = fold_option body (rev us) s
    \<and> list_for_each_entry_from_reverse p lh body head s = fold_option body (p # rev us) s"
proof -
  note n = dlist_neighbours [OF d] and f = dlist_get_next_head [OF d] dlist_get_prev_head [OF d]
  have "list_for_each_loop lh body head (hd ((us @ p # vs) @ [head])) s = fold_option body (us @ p # vs) s"
    "list_for_each_loop lh body head (hd (vs @ [head])) s = fold_option body vs s"
    "list_for_each_loop lh body head (hd ((p # vs) @ [head])) s = fold_option body (p # vs) s"
    using list_for_each_loop_fold [of lh s head "[]" "us @ p # vs" body] list_for_each_loop_fold [of lh s head "us @ [p]" vs body]
      list_for_each_loop_fold [of lh s head us "p # vs" body] d body by auto
  moreover have "list_for_each_reverse_loop lh body head (last (head # us @ p # vs)) s = fold_option body (rev (us @ p # vs)) s"
    "list_for_each_reverse_loop lh body head (last (head # us)) s = fold_option body (rev us) s"
    "list_for_each_reverse_loop lh body head (last (head # us @ [p])) s = fold_option body (rev (us @ [p])) s"
    using reverse_loop_fold [of lh s head "us @ p # vs" "[]" body] reverse_loop_fold [of lh s head us "p # vs" body]
      reverse_loop_fold [of lh s head "us @ [p]" vs body] d body by auto
  ultimately show ?thesis
    using n f
    by (simp add: list_for_each_def list_for_each_entry_def list_for_each_prev_def list_for_each_entry_reverse_def
        list_for_each_entry_continue_def list_for_each_entry_from_def list_for_each_entry_continue_reverse_def
        list_for_each_entry_from_reverse_def list_next_entry_def list_prev_entry_def list_last_entry_def)
qed

text \<open>A list with the head 1 and the entries 2, 3 and 4, and two nodes that are linked to themselves.\<close>

definition sample_list :: lheap where
  "sample_list = [1 \<mapsto> \<lparr>lh_next = 2, lh_prev = 4\<rparr>, 2 \<mapsto> \<lparr>lh_next = 3, lh_prev = 1\<rparr>, 3 \<mapsto> \<lparr>lh_next = 4, lh_prev = 2\<rparr>,
     4 \<mapsto> \<lparr>lh_next = 1, lh_prev = 3\<rparr>, 5 \<mapsto> \<lparr>lh_next = 5, lh_prev = 5\<rparr>, 6 \<mapsto> \<lparr>lh_next = 6, lh_prev = 6\<rparr>]"

lemma sample_list_dlist: "dlist sample_list 1 ([2] @ 3 # [4])" "dlist sample_list 5 []" "dlist sample_list 6 []"
  by (simp_all add: dlist_def link_def get_next_def get_prev_def sample_list_def)

theorem iteration_visits_witness:
  "list_for_each_entry_reverse fst (\<lambda>x (h, n). Some (h, 10 * n + x)) 1 (sample_list, 0) = Some (sample_list, 432)
   \<and> list_for_each_entry_continue 3 fst (\<lambda>x (h, n). Some (h, 10 * n + x)) 1 (sample_list, 0) = Some (sample_list, 4)"
  using iteration_visits [of fst "(sample_list, 0)" 1 "[2]" 3 "[4]" "\<lambda>x (h, n). Some (h, 10 * n + x)"] sample_list_dlist
  by auto

text \<open>
  C22: The loops that are safe against removal terminate although their body unlinks and poisons the entry it visits: whichever
  entries it deletes, the next one is still reached, and afterwards the list holds exactly the entries that were kept, in their order.
  The loops that begin in the middle treat the rest of the list in their direction only.
\<close>

theorem safe_iteration_deletes:
  assumes d: "dlist h head (us @ p # vs)"
  shows "(\<exists>h'. list_for_each_safe id (delete_unless K) head h = Some h' \<and> dlist h' head (kept K (us @ p # vs)))
    \<and> (\<exists>h'. list_for_each_entry_safe id (delete_unless K) head h = Some h' \<and> dlist h' head (kept K (us @ p # vs)))
    \<and> (\<exists>h'. list_for_each_prev_safe id (delete_unless K) head h = Some h' \<and> dlist h' head (kept K (us @ p # vs)))
    \<and> (\<exists>h'. list_for_each_entry_safe_reverse id (delete_unless K) head h = Some h' \<and> dlist h' head (kept K (us @ p # vs)))
    \<and> (\<exists>h'. list_for_each_entry_safe_continue p id (delete_unless K) head h = Some h' \<and> dlist h' head (us @ p # kept K vs))
    \<and> (\<exists>h'. list_for_each_entry_safe_from p id (delete_unless K) head h = Some h' \<and> dlist h' head (us @ kept K (p # vs)))"
proof -
  note f = dlist_get_next_head [OF d] dlist_get_prev_head [OF d]
  have nxt: "get_next (hd (xs @ [head])) h = Some (hd (tl xs @ [head]))" if "dlist h head (ys @ xs)" "xs \<noteq> []" for ys xs
    using that dlist_neighbours(1) [of h head ys "hd xs" "tl xs"] by (cases xs) auto
  have end_next: "\<exists>n. get_next (hd (xs @ [head])) h = Some n \<and> (xs \<noteq> [] \<longrightarrow> n = hd (tl xs @ [head]))" if "dlist h head (ys @ xs)" for ys xs
    using nxt [OF that] f(1) by (cases xs) auto
  have prv: "get_prev (last (head # us @ p # vs)) h = Some (last (head # butlast (us @ p # vs)))"
    by (rule dlist_last_prev [OF d]) simp
  have all: "\<exists>h'. list_for_each_safe id (delete_unless K) head h = Some h' \<and> dlist h' head (kept K (us @ p # vs))"
    using safe_loop_delete [of h head "[]" "us @ p # vs" _ K] d f(1) nxt [of "[]" "us @ p # vs"] by (simp add: list_for_each_safe_def)
  have rev: "\<exists>h'. list_for_each_prev_safe id (delete_unless K) head h = Some h' \<and> dlist h' head (kept K (us @ p # vs))"
    using safe_reverse_loop_delete [of h head "us @ p # vs" "[]" _ K] d f(2) prv by (simp add: list_for_each_prev_safe_def del: last.simps butlast.simps last_append butlast_append)
  have cont: "\<exists>h'. list_for_each_entry_safe_continue p id (delete_unless K) head h = Some h' \<and> dlist h' head (us @ p # kept K vs)"
    using safe_loop_delete [of h head "us @ [p]" vs _ K] d dlist_neighbours(1) [OF d] end_next [of "us @ [p]" vs]
    by (fastforce simp: list_for_each_entry_safe_continue_def list_next_entry_def)
  have frm: "\<exists>h'. list_for_each_entry_safe_from p id (delete_unless K) head h = Some h' \<and> dlist h' head (us @ kept K (p # vs))"
    using safe_loop_delete [of h head us "p # vs" _ K] d dlist_neighbours(1) [OF d]
    by (simp add: list_for_each_entry_safe_from_def list_next_entry_def)
  show ?thesis
    using all rev cont frm
    by (simp add: list_for_each_entry_safe_def list_for_each_safe_def list_for_each_entry_safe_reverse_def
        list_for_each_prev_safe_def list_last_entry_def list_prev_entry_def)
qed

theorem safe_iteration_deletes_witness:
  "\<exists>h'. list_for_each_entry_safe id (delete_unless {3}) 1 sample_list = Some h' \<and> dlist h' 1 [3]"
  using safe_iteration_deletes [OF sample_list_dlist(1), of "{3}"] by (simp add: kept_def)





text \<open>
  C23: The list of clients is a registry: entries added at its end one after the other and deleted in any order leave the list as it was;
  deleting any of its entries in any order leaves the others in their order; and no other list is touched.
\<close>

theorem client_list_registry:
  assumes "dlist h l xs" and "distinct ys" and "set ys \<inter> set (l # xs) = {}" and "set ys \<subseteq> dom h"
    and "set zs = set ys" and "distinct zs" and "distinct ds" and "set ds \<subseteq> set xs"
    and "dlist h m ms" and "set (m # ms) \<inter> set (l # xs) = {}"
  shows "(\<exists>h'. fold_option (\<lambda>x. list_add_tail x l) ys h \<bind> fold_option list_del zs = Some h' \<and> dlist h' l xs)
    \<and> (\<exists>h'. fold_option list_del ds h = Some h' \<and> dlist h' l (filter (\<lambda>x. x \<notin> set ds) xs) \<and> dlist h' m ms)"
  using cl.add_then_del [OF assms(1-6)] cl.del_all [OF assms(1,7,8)] assms(9,10) by blast

theorem client_list_registry_witness:
  "\<exists>h'. fold_option list_del [4, 2] sample_list = Some h' \<and> dlist h' 1 [3] \<and> dlist h' 6 []"
  using client_list_registry [OF sample_list_dlist(1), of "[5]" "[5]" "[4, 2]" 6 "[]"] sample_list_dlist(3)
  by (simp add: sample_list_def)

end
