(* ===== verification/Connecting.thy ===== *)
theory Connecting
  imports Listener
begin

text \<open>
  From an accepted connection to the attempt to connect to the relay: what \<^verbatim>\<open>listener_cb\<close> and
  \<^verbatim>\<open>transocks_start_connect_relay\<close> achieve when the kernel and libevent serve their calls, and what happens when they do not.
\<close>

unbundle bit_operations_syntax

subsection \<open>A system that serves the calls\<close>

text \<open>
  Memory is available and the calls succeed; \<^verbatim>\<open>accept\<close> and \<^verbatim>\<open>socket\<close> give the descriptors \<open>cfd\<close> and \<open>rfd\<close>, and
  \<^verbatim>\<open>bufferevent_socket_connect\<close> the result \<open>r\<close>.
\<close>

definition serving :: "int \<Rightarrow> int \<Rightarrow> int \<Rightarrow> os \<Rightarrow> bool" where
  "serving cfd rfd r os \<longleftrightarrow> (\<forall>h c. os_alloc os h c)
     \<and> (\<forall>h c. os_ret os h c = (case c of Accept _ \<Rightarrow> cfd | Socket _ \<Rightarrow> rfd | Bufferevent_socket_connect _ _ _ \<Rightarrow> r | _ \<Rightarrow> 0))"

lemma serving_alloc: "serving cfd rfd r os \<Longrightarrow> os_alloc os h c"
  by (simp add: serving_def)

lemma serving_ret: "serving cfd rfd r os \<Longrightarrow>
    os_ret os h c = (case c of Accept _ \<Rightarrow> cfd | Socket _ \<Rightarrow> rfd | Bufferevent_socket_connect _ _ _ \<Rightarrow> r | _ \<Rightarrow> 0)"
  by (simp add: serving_def)

text \<open>The options of a new socket.\<close>

definition socket_options :: "int \<Rightarrow> call list" where
  "socket_options fd = [Fcntl_getfl fd, Fcntl_setfl fd O_NONBLOCK] @ keepalive_options fd @ [Setsockopt fd IPPROTO_TCP TCP_NODELAY 1]"

lemma socket_prepared:
  assumes "serving cfd rfd r os" and "fd \<ge> 0"
  shows "setnonblocking os fd True w = (0, after_calls [Fcntl_getfl fd, Fcntl_setfl fd O_NONBLOCK] w)"
    "apply_tcp_keepalive os fd w = (0, after_calls (keepalive_options fd) w)"
    "apply_tcp_nodelay os fd w = (0, after_calls [Setsockopt fd IPPROTO_TCP TCP_NODELAY 1] w)"
  using assms
  by (simp_all add: setnonblocking_def apply_tcp_keepalive_def apply_tcp_nodelay_def keepalive_options_def sys_after_calls
      serving_ret TRANSOCKS_SETBIT_def Let_def)

subsection \<open>Connecting to the relay\<close>

text \<open>The state in which the connection to the relay is being established.\<close>

definition relay_pending :: "addr \<Rightarrow> transocks_client \<Rightarrow> int \<Rightarrow> world \<Rightarrow> world" where
  "relay_pending p c rfd w = w\<lparr>
     bevs := (bevs w)(brk w \<mapsto> \<lparr>bev_fd = rfd, bev_readcb = No_callback, bev_writecb = No_callback,
       bev_eventcb = Relay_onconnect_eventcb, bev_arg = p, bev_enabled = EV_WRITE\<rparr>),
     brk := brk w + 2,
     clients := (clients w)(p \<mapsto> c\<lparr>relay_fd := rfd, relay_bev := brk w, timeout_ev := Suc (brk w)\<rparr>),
     events := (events w)(Suc (brk w) \<mapsto>
       \<lparr>ev_fd = -1, ev_flags = 0, ev_cb = Socks5_timeout_cb, ev_arg = p, ev_added = True\<rparr>)\<rparr>"

text \<open>The calls made until then, with the new bufferevent at the address \<open>b\<close>.\<close>

definition connect_calls :: "addr \<Rightarrow> transocks_global_env \<Rightarrow> sockaddr_storage \<Rightarrow> int \<Rightarrow> addr \<Rightarrow> call list" where
  "connect_calls p env ra rfd b = [Socket (ss_family ra)] @ socket_options rfd
     @ [Bufferevent_socket_new (eventBaseLoop env) rfd,
        Bufferevent_setcb b No_callback No_callback Relay_onconnect_eventcb p, Bufferevent_enable b EV_WRITE,
        Event_new (eventBaseLoop env) (-1) 0 Socks5_timeout_cb p, Event_add (Suc b) (Some socks5_timeout_tv),
        Bufferevent_socket_connect b ra (relay_addr_len env)]"

lemma start_connect_run:
  assumes S: "serving cfd rfd r os" and fd: "rfd \<ge> 0" and b: "0 < brk w"
    and c: "clients w p = Some c" "timeout_ev c = NULL" "envs w (global_env c) = Some env" "sockaddrs w (relay_addr env) = Some ra"
  shows "transocks_start_connect_relay os p w =
    (let w' = after_calls (connect_calls p env ra rfd (brk w)) (relay_pending p c rfd w) in
     if r \<noteq> 0 then connect_relay_freeBev os (brk w) rfd p w' else Some w')"
  using socket_prepared [OF S fd] S fd b c
  by (simp add: transocks_start_connect_relay_def Let_def sys_after_calls emit_after_calls serving_ret serving_alloc
    on_client_def bufferevent_socket_new_def alloc_simp bufferevent_setcb_def bufferevent_enable_def on_bev_def
    transocks_client_set_timeout_def event_new_def event_add_def bufferevent_socket_connect_def relay_pending_def
    connect_calls_def socket_options_def)

lemma client_free_dangling:
  assumes "clients w p = Some c" and "p \<noteq> NULL" and "client_state c = client_NEW"
    and "relay_bev c \<noteq> NULL" and "bevs w (relay_bev c) = None"
  shows "transocks_client_free os p w = None"
  using assms
  by (cases "client_fd c \<ge> 0"; cases "relay_fd c \<ge> 0"; cases "events w (timeout_ev c)")
    (simp_all add: transocks_client_free_def on_client_def TRANSOCKS_CLOSE_simp TRANSOCKS_SHUTDOWN_def sys_after_calls Let_def
      event_del_def event_free_def TRANSOCKS_FREE_def emit_after_calls bufferevent_disable_def on_bev_def)

text \<open>
  C39: When libevent cannot even start the connection to the relay, the error path frees the bufferevent of the relay and then frees the
  client, which still points to it: the bufferevent is used after it has been freed.
\<close>

theorem connect_failure_use_after_free:
  assumes "serving cfd rfd r os" and "r \<noteq> 0" and "rfd \<ge> 0" and "wf_world w"
    and "clients w p = Some c" and "client_state c = client_NEW" and "timeout_ev c = NULL"
    and "envs w (global_env c) = Some env" and "sockaddrs w (relay_addr env) = Some ra"
  shows "transocks_start_connect_relay os p w = None"
proof -
  have b: "0 < brk w" and p: "p \<noteq> NULL" using assms(4,5) by (auto simp: wf_world_def)
  have "bevs w (brk w) = None" "brk w \<noteq> p" using assms(4,5) by (auto simp: wf_world_def)
  show ?thesis
    using start_connect_run [OF assms(1,3) b assms(5,7-9)] assms(2,3,6) b p
    by (simp add: connect_relay_freeBev_def connect_relay_closeFd_def TRANSOCKS_FREE_def bufferevent_free_def relay_pending_def
        TRANSOCKS_CLOSE_simp emit_after_calls client_free_dangling)
qed

subsection \<open>Accepting a connection\<close>

text \<open>A state in which the program listens, and the client the callback creates for an accepted connection.\<close>

definition listening :: "addr \<Rightarrow> transocks_global_env \<Rightarrow> transocks_listener \<Rightarrow> sockaddr_storage \<Rightarrow> addr list \<Rightarrow> world \<Rightarrow> bool" where
  "listening e env l ra xs w \<longleftrightarrow> wf_world w \<and> envs w e = Some env \<and> listeners w (listener env) = Some l
     \<and> bind_addr env \<in> dom (sockaddrs w) \<and> sockaddrs w (relay_addr env) = Some ra
     \<and> dlist (nodes w) (current_clients_dlinklist env) xs"

lemma client_new_run:
  assumes S: "serving cfd rfd r os" and b: "0 < brk w"
  shows "transocks_client_new os e w = Some (brk w, after_calls [Malloc T_client, Malloc T_sockaddr_storage, Malloc T_sockaddr_storage]
    (w\<lparr>nodes := (nodes w)(brk w \<mapsto> \<lparr>lh_next = brk w, lh_prev = brk w\<rparr>), brk := Suc (Suc (Suc (brk w))),
       sockaddrs := (sockaddrs w)(Suc (brk w) \<mapsto> garbage_sockaddr os, Suc (Suc (brk w)) \<mapsto> garbage_sockaddr os),
       clients := (clients w)(brk w \<mapsto> (garbage_client os)\<lparr>client_fd := -1, relay_fd := -1, client_bev := NULL, relay_bev := NULL,
         timeout_ev := NULL, user_arg := NULL, client_shutdown_read := False, client_shutdown_write := False,
         relay_shutdown_read := False, relay_shutdown_write := False, client_state := client_NEW,
         client_addr := Suc (brk w), dest_addr := Suc (Suc (brk w)), global_env := e\<rparr>)\<rparr>))"
  using S b
  by (simp add: transocks_client_new_def malloc_client_def malloc_sockaddr_def alloc_simp serving_alloc Let_def
    on_nodes_def INIT_LIST_HEAD_def set_next_def set_prev_def on_client_def)

lemma new_client_listed:
  assumes "listening e env l ra xs w"
  shows "\<exists>h'. list_add_tail (brk w) (current_clients_dlinklist env) ((nodes w)(brk w \<mapsto> \<lparr>lh_next = brk w, lh_prev = brk w\<rparr>)) = Some h'
    \<and> dlist h' (current_clients_dlinklist env) (xs @ [brk w])"
proof -
  let ?n = "(nodes w)(brk w \<mapsto> \<lparr>lh_next = brk w, lh_prev = brk w\<rparr>)"
  have d: "dlist (nodes w) (current_clients_dlinklist env) xs" and "brk w \<notin> dom (nodes w)"
    using assms by (auto simp: listening_def wf_world_def)
  then have new: "brk w \<notin> set (current_clients_dlinklist env # xs)" using dlist_dom [OF d] by blast
  then have "dlist ?n (current_clients_dlinklist env) xs" by (intro dlist_agree [OF d]) auto
  from list_add_tail_dlist [OF this new] show ?thesis by auto
qed

text \<open>The calls made for an accepted connection before its destination is asked for.\<close>

definition accept_calls :: "transocks_listener \<Rightarrow> int \<Rightarrow> call list" where
  "accept_calls l cfd = [Accept (listener_fd l)] @ socket_options cfd @ [Malloc T_client, Malloc T_sockaddr_storage, Malloc T_sockaddr_storage]"

text \<open>The new client, and the state in which the connection to the relay is started for it.\<close>

definition accepted_client :: "os \<Rightarrow> addr \<Rightarrow> transocks_listener \<Rightarrow> int \<Rightarrow> world \<Rightarrow> transocks_client" where
  "accepted_client os e l cfd w = (garbage_client os)\<lparr>relay_fd := -1, relay_bev := NULL, timeout_ev := NULL, user_arg := NULL,
     client_shutdown_read := False, client_shutdown_write := False, relay_shutdown_read := False, relay_shutdown_write := False,
     client_state := client_NEW, client_addr := Suc (brk w), dest_addr := Suc (Suc (brk w)),
     client_addr_len := os_socklen os (hist w) (Accept (listener_fd l)),
     dest_addr_len := os_socklen os (hist w @ accept_calls l cfd) (Getsockopt cfd SOL_IPV6 IP6T_SO_ORIGINAL_DST),
     client_fd := cfd, global_env := e, client_bev := Suc (Suc (Suc (brk w)))\<rparr>"

definition accept_state :: "os \<Rightarrow> addr \<Rightarrow> transocks_global_env \<Rightarrow> transocks_listener \<Rightarrow> int \<Rightarrow> lheap \<Rightarrow> world \<Rightarrow> world" where
  "accept_state os e env l cfd h w =
     (let acc = Accept (listener_fd l); n = os_socklen os (hist w) acc; src = os_sockaddr os (hist w) acc;
          dst = os_sockaddr os (hist w @ accept_calls l cfd) (Getsockopt cfd SOL_IPV6 IP6T_SO_ORIGINAL_DST);
          b = Suc (Suc (Suc (brk w))) in
      after_calls (accept_calls l cfd @ [Getsockopt cfd SOL_IPV6 IP6T_SO_ORIGINAL_DST, Bufferevent_socket_new (eventBaseLoop env) (-1),
          Bufferevent_disable b EV_READ, Bufferevent_setfd b cfd])
        (w\<lparr>sockaddrs := (sockaddrs w)(
             Suc (brk w) \<mapsto> \<lparr>ss_family = ss_family src, ss_data = take (n - 2) (ss_data src) @ drop (n - 2) (ss_data (garbage_sockaddr os))\<rparr>,
             Suc (Suc (brk w)) \<mapsto> dst),
           brk := Suc b,
           bevs := (bevs w)(b \<mapsto> \<lparr>bev_fd = cfd, bev_readcb = No_callback, bev_writecb = No_callback,
             bev_eventcb = No_callback, bev_arg = NULL, bev_enabled = EV_WRITE\<rparr>),
           clients := (clients w)(brk w \<mapsto> accepted_client os e l cfd w), nodes := h\<rparr>))"

lemma listener_cb_run:
  assumes S: "serving cfd rfd r os" and fd: "cfd \<ge> 0" and L: "listening e env l ra xs w"
    and n: "os_socklen os (hist w) (Accept (listener_fd l)) \<in> {2..sizeof_sockaddr_storage}"
    and h': "list_add_tail (brk w) (current_clients_dlinklist env) ((nodes w)(brk w \<mapsto> \<lparr>lh_next = brk w, lh_prev = brk w\<rparr>)) = Some h'"
  shows "listener_cb os e w = transocks_start_connect_relay os (brk w) (accept_state os e env l cfd h' w)"
proof -
  have b: "0 < brk w" and e: "envs w e = Some env" "listeners w (listener env) = Some l"
    and fresh: "bind_addr env < brk w" "bevs w (brk w) = None"
    using L by (auto simp: listening_def wf_world_def)
  obtain ba where ba: "sockaddrs w (bind_addr env) = Some ba" using L by (auto simp: listening_def)
  show ?thesis
    using client_new_run [OF S] socket_prepared [OF S fd] S fd b e n h' fresh ba
    by (simp add: listener_cb_def Let_def sys_after_calls emit_after_calls serving_ret serving_alloc
      on_client_def on_sockaddr_def on_nodes_def bufferevent_socket_new_def alloc_simp getorigdst_def
      bufferevent_disable_def bufferevent_setfd_def on_bev_def memcpy_sockaddr_def
      accept_state_def accepted_client_def accept_calls_def socket_options_def)
qed

text \<open>
  C12: An accepted connection becomes a client. When the calls are served, the callback of the listening socket creates one new client at the end of
  the list, with the accepted socket (from which nothing is read yet) and the original destination the kernel reports, and starts
  connecting a new socket to the relay, with a pending timeout for this client and the callback that goes on with the handshake.
\<close>

theorem accepted_connection_registered:
  assumes S: "serving cfd rfd 0 os" and fd: "cfd \<ge> 0" "rfd \<ge> 0" and L: "listening e env l ra xs w"
    and n: "os_socklen os (hist w) (Accept (listener_fd l)) \<in> {2..sizeof_sockaddr_storage}"
  shows "\<exists>w' c. listener_cb os e w = Some w' \<and> clients w' = (clients w)(brk w \<mapsto> c)
    \<and> dlist (nodes w') (current_clients_dlinklist env) (xs @ [brk w])
    \<and> client_fd c = cfd \<and> relay_fd c = rfd \<and> global_env c = e \<and> client_state c = client_NEW
    \<and> sockaddrs w' (dest_addr c) = Some (os_sockaddr os (hist w @ accept_calls l cfd) (Getsockopt cfd SOL_IPV6 IP6T_SO_ORIGINAL_DST))
    \<and> (\<exists>b. bevs w' (client_bev c) = Some b \<and> bev_fd b = cfd \<and> \<not> TRANSOCKS_CHKBIT (bev_enabled b) EV_READ)
    \<and> (\<exists>b. bevs w' (relay_bev c) = Some b \<and> bev_fd b = rfd \<and> bev_eventcb b = Relay_onconnect_eventcb \<and> bev_arg b = brk w)
    \<and> (\<exists>t. events w' (timeout_ev c) = Some t \<and> ev_added t \<and> ev_cb t = Socks5_timeout_cb \<and> ev_arg t = brk w)
    \<and> last (hist w') = Bufferevent_socket_connect (relay_bev c) ra (relay_addr_len env)"
proof -
  obtain h where h: "list_add_tail (brk w) (current_clients_dlinklist env) ((nodes w)(brk w \<mapsto> \<lparr>lh_next = brk w, lh_prev = brk w\<rparr>)) = Some h"
    "dlist h (current_clients_dlinklist env) (xs @ [brk w])"
    using new_client_listed [OF L] by blast
  let ?v = "accept_state os e env l cfd h w" and ?c = "accepted_client os e l cfd w"
  have old: "envs w e = Some env" "sockaddrs w (relay_addr env) = Some ra" "relay_addr env < brk w"
    using L by (auto simp: listening_def wf_world_def)
  let ?u = "after_calls (connect_calls (brk w) env ra rfd (brk ?v)) (relay_pending (brk w) ?c rfd ?v)"
  have "transocks_start_connect_relay os (brk w) ?v = Some ?u"
    using start_connect_run [OF S fd(2), of ?v "brk w" ?c env ra] old
    by (simp add: accept_state_def accepted_client_def Let_def)
  then have "listener_cb os e w = Some ?u" using listener_cb_run [OF S fd(1) L n h(1)] by simp
  moreover have "client_state ?c = client_NEW" "client_fd ?c = cfd" "global_env ?c = e" "dest_addr ?c = Suc (Suc (brk w))"
    "client_bev ?c = Suc (Suc (Suc (brk w)))"
    by (simp_all add: accepted_client_def)
  ultimately show ?thesis
    using h(2) by (intro exI [of _ ?u] exI [of _ "?c\<lparr>relay_fd := rfd, relay_bev := brk ?v, timeout_ev := Suc (brk ?v)\<rparr>"])
      (simp add: relay_pending_def connect_calls_def accept_state_def Let_def TRANSOCKS_CHKBIT_def)
qed

definition connect_os :: "int \<Rightarrow> os" where
  "connect_os r = demo_os\<lparr>os_ret := \<lambda>h c. case c of Accept _ \<Rightarrow> 20 | Socket _ \<Rightarrow> 21 | Bufferevent_socket_connect _ _ _ \<Rightarrow> r | _ \<Rightarrow> 0\<rparr>"

lemma connect_os_serving: "serving 20 21 r (connect_os r)"
  by (simp add: serving_def connect_os_def demo_os_def split: call.splits)

text \<open>An environment with its list, addresses and listener, and one client that is not connected yet.\<close>

definition connect_env :: transocks_global_env where
  "connect_env = sample_env\<lparr>bind_addr := 4, relay_addr := 5, relay_addr_len := 16, listener := 1\<rparr>"

definition connect_client :: transocks_client where
  "connect_client = sample_client\<lparr>global_env := 2, relay_bev := NULL, timeout_ev := NULL\<rparr>"

definition connect_world :: world where
  "connect_world = sample_world\<lparr>envs := [2 \<mapsto> connect_env], listeners := [1 \<mapsto> \<lparr>listener_fd = 19, listener_ev = NULL\<rparr>],
     clients := [3 \<mapsto> connect_client]\<rparr>"

lemma connect_world_listening: "listening 2 connect_env \<lparr>listener_fd = 19, listener_ev = NULL\<rparr> demo_sockaddr [3] connect_world"
  using sample_ok
  by (simp add: listening_def connect_world_def wf_world_def sample_world_def connect_env_def sample_env_def)

theorem accepted_connection_registered_witness:
  "\<exists>w'. listener_cb (connect_os 0) 2 connect_world = Some w' \<and> dlist (nodes w') 2 [3, 9] \<and> dom (clients w') = {3, 9}"
  using accepted_connection_registered [OF connect_os_serving _ _ connect_world_listening]
  by (auto simp: connect_os_def demo_os_def connect_world_def sample_world_def connect_env_def sample_env_def sizeof_sockaddr_storage_def)

theorem connect_failure_use_after_free_witness:
  "transocks_start_connect_relay (connect_os (-1)) 3 connect_world = None"
  using connect_failure_use_after_free [OF connect_os_serving [of "-1"], of connect_world 3 connect_client connect_env demo_sockaddr]
    connect_world_listening
  by (simp add: listening_def connect_world_def connect_client_def sample_client_def)

end
