(* ===== verification/Handshake.thy ===== *)
theory Handshake
  imports Connecting
begin

text \<open>
  The steps of the handshake between the connection to the relay and its final reply: the answer to the offered method and the
  request that follows it, the timeout, and a relay that cannot be reached.
\<close>

unbundle bit_operations_syntax

subsection \<open>The selected method\<close>

lemma selected_method_rejects:
  assumes H: "handshake_ok p c head us vs w"
    and R: "\<And>h n. os_alloc os h (Evbuffer_pullup (Input (relay_bev c)) n)"
    and d: "d = os_data os (hist w @ [Event_del (timeout_ev c)]) (Input (relay_bev c))"
      "os_data os (hist w @ [Event_del (timeout_ev c), Evbuffer_pullup (Input (relay_bev c)) (length d), Evbuffer_drain (Input (relay_bev c)) 2])
        (Input (relay_bev c)) = drop 2 d"
    and bad: "\<not> (method_accepted d \<and> length d = 2)"
  shows "holds (socks_on_server_selected_method_readcb os (relay_bev c) p w) (pump_effect p c head us vs w None)"
proof -
  let ?b = "Input (relay_bev c)"
  note c = handshake_client [OF H]
  obtain r where r: "bevs w (relay_bev c) = Some r" using pump_ok_relay [OF H] by blast
  note rel = release_timer_stopped [OF H, of os]
  show ?thesis
  proof (cases "length d < 2")
    case True
    with c r rel [of "[]"] event_del_timer [OF H] show ?thesis
      by (simp add: socks_on_server_selected_method_readcb_def evbuffer_get_length_def Let_def d(1) [symmetric])
  next
    case False
    then have "\<exists>m. as_method_select_response d = Some m \<and> msp_ver m = d ! 0 \<and> msp_method m = d ! 1"
      by (simp add: as_method_select_response_def)
    then obtain m where m: "as_method_select_response d = Some m" "msp_ver m = d ! 0" "msp_method m = d ! 1" by blast
    let ?w = "after_calls [Evbuffer_pullup ?b (length d)] (timer_stopped c w)"
    have start: "socks_on_server_selected_method_readcb os (relay_bev c) p w =
        (if d ! 0 \<noteq> 5 \<or> d ! 1 \<noteq> 0 then TRANSOCKS_FREE (transocks_client_free os) p ?w
         else evbuffer_drain os ?b 2 ?w \<bind> (\<lambda>(r, w). if r \<noteq> 0 then TRANSOCKS_FREE (transocks_client_free os) p w
           else evbuffer_get_length os ?b w \<bind> (\<lambda>n. if n \<noteq> 0 then TRANSOCKS_FREE (transocks_client_free os) p w
             else socks_send_connect_request os p w)))"
      using False c r m event_del_timer [OF H] R
      by (simp add: socks_on_server_selected_method_readcb_def evbuffer_get_length_def evbuffer_pullup_def Let_def
          emit_after_calls socks5_consts d(1) [symmetric])
    show ?thesis
    proof (cases "d ! 0 \<noteq> 5 \<or> d ! 1 \<noteq> 0")
      case True
      with start rel [of "[Evbuffer_pullup ?b (length d)]"] show ?thesis by simp
    next
      case accepted: False
      have "drop 2 d \<noteq> []" using False accepted bad by (auto simp: method_accepted_def)
      with start accepted rel [of "[Evbuffer_pullup ?b (length d), Evbuffer_drain ?b 2]"] r d(2) show ?thesis
        by (simp add: evbuffer_drain_def evbuffer_get_length_def sys_after_calls)
    qed
  qed
qed

text \<open>
  C15: The offered method has to be selected. If the relay answers the offer with anything but the two bytes that select "no
  authentication" - a short answer, another version, another method, or anything after them - the connection is over: the client is released
  with all it owns and unlinked.
\<close>

theorem selected_method_refused:
  assumes "handshake_ok p c head us vs w"
    and "\<And>h n. os_alloc os h (Evbuffer_pullup (Input (relay_bev c)) n)"
    and d: "d = os_data os (hist w @ [Event_del (timeout_ev c)]) (Input (relay_bev c))"
      "os_data os (hist w @ [Event_del (timeout_ev c), Evbuffer_pullup (Input (relay_bev c)) (length d), Evbuffer_drain (Input (relay_bev c)) 2])
        (Input (relay_bev c)) = drop 2 d"
    and bad: "d \<noteq> [5, 0]"
  shows "\<exists>w'. socks_on_server_selected_method_readcb os (relay_bev c) p w = Some w' \<and> pump_effect p c head us vs w None w'"
proof -
  have "method_accepted d \<and> length d = 2 \<Longrightarrow> d = [5, 0]" by (cases d; cases "tl d") (auto simp: method_accepted_def)
  then have "\<not> (method_accepted d \<and> length d = 2)" using bad by blast
  from selected_method_rejects [OF assms(1-2) d this] show ?thesis by (simp add: holds_def)
qed

lemma rearm_run:
  assumes S: "serving cfd rfd r os" and c: "clients w p = Some c" "timeout_ev c \<noteq> NULL" "events w (timeout_ev c) = Some t"
    and env: "envs w (global_env c) = Some env"
  shows "transocks_client_set_timeout os p tv cb arg w = Some (0, after_calls [Event_del (timeout_ev c),
      Event_assign (timeout_ev c) (eventBaseLoop env) (-1) 0 cb arg, Event_add (timeout_ev c) (Some tv)]
    (w\<lparr>events := (events w)(timeout_ev c \<mapsto> \<lparr>ev_fd = -1, ev_flags = 0, ev_cb = cb, ev_arg = arg, ev_added = True\<rparr>)\<rparr>))"
  using assms
  by (simp add: transocks_client_set_timeout_def event_del_def event_assign_def event_add_def emit_after_calls sys_after_calls serving_ret)

lemma handshake_parts:
  assumes "handshake_ok p c head us vs w"
  shows "clients w p = Some c" "timeout_ev c \<noteq> NULL" "\<exists>t. events w (timeout_ev c) = Some t" "\<exists>b. bevs w (relay_bev c) = Some b"
proof -
  show "clients w p = Some c" "timeout_ev c \<noteq> NULL" "\<exists>b. bevs w (relay_bev c) = Some b"
    using handshake_client [OF assms] pump_ok_relay [OF assms] assms by (simp_all add: handshake_ok_def)
  then show "\<exists>t. events w (timeout_ev c) = Some t"
    using assms by (auto simp: handshake_ok_def pump_ok_def client_ok_def null_or_live_def)
qed

text \<open>What a pending step of the handshake looks like: the relay is listened to by the given function, and the timer is running.\<close>

definition awaiting :: "callback \<Rightarrow> addr \<Rightarrow> transocks_client \<Rightarrow> world \<Rightarrow> bool" where
  "awaiting cb p c w \<longleftrightarrow>
     (\<exists>b. bevs w (relay_bev c) = Some b \<and> bev_readcb b = cb \<and> bev_eventcb b = Socks_handshake_stage_errcb \<and> bev_arg b = p
        \<and> TRANSOCKS_CHKBIT (bev_enabled b) EV_READ)
     \<and> (\<exists>t. events w (timeout_ev c) = Some t \<and> ev_added t \<and> ev_cb t = Socks5_timeout_cb \<and> ev_arg t = p)"

lemma await_connect_reply_run:
  assumes S: "serving cfd rfd r os" and c: "clients w p = Some c" "timeout_ev c \<noteq> NULL" "events w (timeout_ev c) = Some t"
    and env: "envs w (global_env c) = Some env" and b: "bevs w (relay_bev c) = Some b"
  shows "\<exists>w' cs. socks_await_connect_reply os (relay_bev c) p w = Some w' \<and> clients w' = clients w \<and> hist w' = hist w @ cs
    \<and> awaiting Socks_on_server_connect_reply_readcb p c w'"
  using assms CHKBIT_SETBIT [of "bev_enabled b" EV_READ]
  by (simp add: socks_await_connect_reply_def bufferevent_setwatermark_def bufferevent_setcb_def bufferevent_enable_def on_bev_def
      emit_after_calls sys_after_calls serving_ret rearm_run [OF S] awaiting_def TRANSOCKS_SETBIT_def)

lemma send_request_run:
  assumes S: "serving cfd rfd r os" and brk: "0 < brk w" and c: "clients w p = Some c" "timeout_ev c \<noteq> NULL" "events w (timeout_ev c) = Some t"
    and env: "envs w (global_env c) = Some env" and b: "bevs w (relay_bev c) = Some b"
    and dest: "sockaddrs w (dest_addr c) = Some dest" "wf_sockaddr dest" and fam: "ss_family dest = AF_INET \<or> ss_family dest = AF_INET6"
  shows "\<exists>w' bytes. socks_send_connect_request os p w = Some w' \<and> clients w' = clients w
    \<and> Bufferevent_write (relay_bev c) bytes \<in> set (hist w')
    \<and> rfc1928_connect bytes = Some (if ss_family dest = AF_INET then (IPv4 (sin_addr dest), sin_port dest, [])
        else (IPv6 (sin6_addr dest), sin6_port dest, []))
    \<and> awaiting Socks_on_server_connect_reply_readcb p c w'"
proof -
  let ?v4 = "ss_family dest = AF_INET"
  let ?bytes = "if ?v4 then request_ipv4_bytes (connect_request_ipv4 dest) else request_ipv6_bytes (connect_request_ipv6 dest)"
  let ?m = "Malloc (if ?v4 then T_socks_request_ipv4 else T_socks_request_ipv6)"
  let ?w = "after_calls [?m, Bufferevent_write (relay_bev c) ?bytes, Free (brk w)]
    (w\<lparr>brk := Suc (brk w), bevs := (bevs w)(relay_bev c \<mapsto> b)\<rparr>)"
  have "socks_send_connect_request os p w = socks_await_connect_reply os (relay_bev c) p ?w"
    using S brk c dest fam b
    by (auto simp: socks_send_connect_request_def alloc_simp serving_alloc serving_ret bufferevent_write_def on_bev_def sys_after_calls
        emit_after_calls Let_def AF_distinct)
  moreover have "rfc1928_connect ?bytes = Some (if ?v4 then (IPv4 (sin_addr dest), sin_port dest, [])
      else (IPv6 (sin6_addr dest), sin6_port dest, []))"
    using connect_requests_parsed [OF dest(2), of "[]"] by simp
  moreover obtain w' cs where "socks_await_connect_reply os (relay_bev c) p ?w = Some w'" "clients w' = clients w" "hist w' = hist ?w @ cs"
      "awaiting Socks_on_server_connect_reply_readcb p c w'"
    using await_connect_reply_run [OF S, of ?w p c t env b] c env b by auto
  ultimately show ?thesis by (intro exI [of _ w'] exI [of _ ?bytes]) simp
qed

text \<open>
  C14: The request follows the selected method. When the relay selects the offered method and the calls are served, the client asks it to
  connect to the original destination, in the format of RFC 1928, waits for the reply and runs the timer.
\<close>

theorem selected_method_requests:
  assumes H: "handshake_ok p c head us vs w" and S: "serving cfd rfd r os" and b: "0 < brk w"
    and env: "envs w (global_env c) = Some env" and dest: "sockaddrs w (dest_addr c) = Some dest" "wf_sockaddr dest"
    and d: "os_data os (hist w @ [Event_del (timeout_ev c)]) (Input (relay_bev c)) = [5, 0]"
      "os_data os (hist w @ [Event_del (timeout_ev c), Evbuffer_pullup (Input (relay_bev c)) 2, Evbuffer_drain (Input (relay_bev c)) 2])
        (Input (relay_bev c)) = []"
    and fam: "ss_family dest = AF_INET \<or> ss_family dest = AF_INET6"
  shows "\<exists>w' bytes. socks_on_server_selected_method_readcb os (relay_bev c) p w = Some w' \<and> clients w' = clients w
    \<and> Bufferevent_write (relay_bev c) bytes \<in> set (hist w')
    \<and> rfc1928_connect bytes = Some (if ss_family dest = AF_INET then (IPv4 (sin_addr dest), sin_port dest, [])
        else (IPv6 (sin6_addr dest), sin6_port dest, []))
    \<and> awaiting Socks_on_server_connect_reply_readcb p c w'"
proof -
  let ?b = "Input (relay_bev c)"
  note parts = handshake_parts [OF H]
  obtain t bev where t: "events w (timeout_ev c) = Some t" and bev: "bevs w (relay_bev c) = Some bev" using parts by blast
  let ?w = "after_calls [Evbuffer_pullup ?b 2, Evbuffer_drain ?b 2] (timer_stopped c w)"
  have "socks_on_server_selected_method_readcb os (relay_bev c) p w = socks_send_connect_request os p ?w"
    using parts(1) bev event_del_timer [OF H] d S
    by (simp add: socks_on_server_selected_method_readcb_def evbuffer_get_length_def evbuffer_pullup_def evbuffer_drain_def Let_def
        emit_after_calls sys_after_calls as_method_select_response_def socks5_consts serving_ret serving_alloc eval_nat_numeral)
  moreover have "\<exists>t'. events ?w (timeout_ev c) = Some t'" using t by (simp add: timer_stopped_def events_deleted_def)
  ultimately show ?thesis
    using send_request_run [OF S, of ?w p c _ env bev dest] parts(1,2) b bev env dest fam by (auto simp: timer_stopped_def)
qed

subsection \<open>Beginning and failure\<close>

lemma send_method_selection_run:
  assumes S: "serving cfd rfd r os" and c: "clients w p = Some c" "timeout_ev c \<noteq> NULL" "events w (timeout_ev c) = Some t"
    and env: "envs w (global_env c) = Some env" and b: "bevs w (relay_bev c) = Some b"
  shows "\<exists>w'. socks_send_method_selection os p w = Some w' \<and> clients w' = clients w
    \<and> Bufferevent_write (relay_bev c) (method_select_request_bytes method_selection) \<in> set (hist w')
    \<and> awaiting Socks_on_server_selected_method_readcb p c w'"
  using assms CHKBIT_SETBIT [of "bev_enabled b" EV_READ]
  by (simp add: socks_send_method_selection_def bufferevent_setwatermark_def bufferevent_setcb_def bufferevent_enable_def
      bufferevent_write_def on_bev_def emit_after_calls sys_after_calls serving_ret rearm_run [OF S] awaiting_def TRANSOCKS_SETBIT_def Let_def)

text \<open>
  C13: The outcome of connecting to the relay. Once it is connected, the client offers exactly the method "no authentication" and
  waits for the answer with a running timer. If the connection cannot be established, if the relay closes or breaks the connection
  during the handshake, or if a step of the handshake takes too long, the client is released with all it owns and unlinked.
\<close>

theorem relay_connection_outcome:
  assumes H: "handshake_ok p c head us vs w" and S: "serving cfd rfd r os" and env: "envs w (global_env c) = Some env"
    and conn: "TRANSOCKS_CHKBIT conn BEV_EVENT_CONNECTED"
    and err: "TRANSOCKS_CHKBIT err BEV_EVENT_ERROR" "\<not> TRANSOCKS_CHKBIT err BEV_EVENT_CONNECTED"
    and broken: "TRANSOCKS_CHKBIT broken BEV_EVENT_EOF \<or> TRANSOCKS_CHKBIT broken BEV_EVENT_ERROR"
  shows "(\<exists>w' bytes. relay_onconnect_eventcb os conn p w = Some w' \<and> clients w' = (clients w)(p \<mapsto> c\<lparr>client_state := client_relay_connected\<rparr>)
        \<and> Bufferevent_write (relay_bev c) bytes \<in> set (hist w') \<and> rfc1928_methods bytes = Some [0]
        \<and> awaiting Socks_on_server_selected_method_readcb p c w')
    \<and> (\<exists>w'. relay_onconnect_eventcb os err p w = Some w' \<and> pump_effect p c head us vs w None w')
    \<and> (\<exists>w'. socks_handshake_stage_errcb os broken p w = Some w' \<and> pump_effect p c head us vs w None w')
    \<and> (\<exists>w'. socks5_timeout_cb os p w = Some w' \<and> pump_effect p c head us vs w None w')"
proof (intro conjI)
  note parts = handshake_parts [OF H] and stop = event_del_timer [OF H]
  have rel: "\<exists>w'. TRANSOCKS_FREE (transocks_client_free os) p (timer_stopped c w) = Some w' \<and> pump_effect p c head us vs w None w'"
    using release_timer_stopped [OF H, of os "[]"] by (simp add: holds_def)
  show "\<exists>w'. relay_onconnect_eventcb os err p w = Some w' \<and> pump_effect p c head us vs w None w'"
    using rel stop parts(1) err by (simp add: relay_onconnect_eventcb_def)
  show "\<exists>w'. socks_handshake_stage_errcb os broken p w = Some w' \<and> pump_effect p c head us vs w None w'"
    using rel stop parts(1) broken by (simp add: socks_handshake_stage_errcb_def)
  show "\<exists>w'. socks5_timeout_cb os p w = Some w' \<and> pump_effect p c head us vs w None w'"
    using release_effect [of p c head us vs w os] H by (simp add: socks5_timeout_cb_def holds_def handshake_ok_def)
  obtain bev where bev: "bevs w (relay_bev c) = Some bev" using parts(4) by blast
  let ?c = "c\<lparr>client_state := client_relay_connected\<rparr>"
  let ?w = "(timer_stopped c w)\<lparr>clients := (clients w)(p \<mapsto> ?c)\<rparr>"
  obtain t where t: "events ?w (timeout_ev c) = Some t" using parts(3) by (auto simp: timer_stopped_def events_deleted_def)
  have "relay_onconnect_eventcb os conn p w = socks_send_method_selection os p ?w"
    using stop parts(1) conn by (simp add: relay_onconnect_eventcb_def on_client_def)
  moreover have "awaiting cb p ?c = awaiting cb p c" for cb by (simp add: awaiting_def fun_eq_iff)
  moreover have "rfc1928_methods (method_select_request_bytes method_selection) = Some [0]"
    by (simp add: rfc1928_methods_def method_select_request_bytes_def method_selection_def socks5_consts)
  ultimately show "\<exists>w' bytes. relay_onconnect_eventcb os conn p w = Some w' \<and> clients w' = (clients w)(p \<mapsto> ?c)
      \<and> Bufferevent_write (relay_bev c) bytes \<in> set (hist w') \<and> rfc1928_methods bytes = Some [0]
      \<and> awaiting Socks_on_server_selected_method_readcb p c w'"
    using send_method_selection_run [OF S, of ?w p ?c t env bev] parts(2) t env bev by auto
qed

subsection \<open>Examples\<close>

definition handshake_world :: world where
  "handshake_world = sample_world\<lparr>envs := [1 \<mapsto> sample_env]\<rparr>"

lemma handshake_world_ok: "handshake_ok 3 sample_client 2 [] [] handshake_world"
  using sample_handshake
  by (simp add: handshake_ok_def pump_ok_def client_ok_def handshake_world_def wf_world_def sample_world_def)

text \<open>A system in which the relay has sent the bytes \<open>d\<close>.\<close>

definition method_os :: "byte list \<Rightarrow> os" where
  "method_os d = (connect_os 0)\<lparr>os_data := \<lambda>h b. if Evbuffer_drain b 2 \<in> set h then drop 2 d else d\<rparr>"

lemma method_os_serving: "serving 20 21 0 (method_os d)"
  using connect_os_serving [of 0] by (simp add: serving_def method_os_def)

theorem selected_method_refused_witness:
  "\<exists>w'. socks_on_server_selected_method_readcb (method_os [5, 255]) 7 3 handshake_world = Some w'
     \<and> clients w' = Map.empty \<and> dlist (nodes w') 2 []"
  using selected_method_refused [OF handshake_world_ok, of "method_os [5, 255]" "[5, 255]"] serving_alloc [OF method_os_serving]
  by (auto simp: method_os_def handshake_world_def sample_world_def sample_client_def pump_effect_def demo_start_def)

theorem selected_method_requests_witness:
  "\<exists>w' bytes. socks_on_server_selected_method_readcb (method_os [5, 0]) 7 3 handshake_world = Some w'
     \<and> Bufferevent_write 7 bytes \<in> set (hist w') \<and> rfc1928_connect bytes = Some (IPv4 [10, 0, 0, 1], [0x1f, 0x90], [])"
  using selected_method_requests [OF handshake_world_ok method_os_serving, of sample_env demo_sockaddr "[5, 0]"]
  by (auto simp: method_os_def handshake_world_def sample_world_def sample_client_def demo_start_def wf_sockaddr_def demo_sockaddr_def
      sin_addr_def sin_port_def)

theorem relay_connection_outcome_witness:
  "(\<exists>w'. relay_onconnect_eventcb (connect_os 0) BEV_EVENT_CONNECTED 3 handshake_world = Some w'
      \<and> client_state (the (clients w' 3)) = client_relay_connected)
   \<and> (\<exists>w'. socks5_timeout_cb (connect_os 0) 3 handshake_world = Some w' \<and> clients w' = Map.empty)"
  using relay_connection_outcome [OF handshake_world_ok connect_os_serving [of 0], of sample_env BEV_EVENT_CONNECTED BEV_EVENT_ERROR BEV_EVENT_EOF]
  by (auto simp: handshake_world_def sample_client_def TRANSOCKS_CHKBIT_def pump_effect_def sample_world_def)

end
