(* ===== verification/Readiness.thy ===== *)
theory Readiness
  imports Program Connecting
begin

text \<open>
  What the start-up achieves when the calls are served: the signals are handled and connections are accepted. And what happens without
  memory for the environment.
\<close>

unbundle bit_operations_syntax

text \<open>A pending event that calls \<open>cb\<close> with the environment.\<close>

definition handled :: "world \<Rightarrow> addr \<Rightarrow> int \<Rightarrow> callback \<Rightarrow> addr \<Rightarrow> bool" where
  "handled w ev fd cb e \<longleftrightarrow> (\<exists>t. events w ev = Some t \<and> ev_fd t = fd \<and> ev_cb t = cb \<and> ev_arg t = e \<and> ev_added t)"

text \<open>
  C29: After the start-up the program is ready. When the calls are served, \<^verbatim>\<open>signal_init\<close> and then \<^verbatim>\<open>listener_init\<close> succeed:
  \<^verbatim>\<open>SIGTERM\<close> and \<^verbatim>\<open>SIGINT\<close> end the event loop, \<^verbatim>\<open>SIGHUP\<close> reports and \<^verbatim>\<open>SIGUSR1\<close> drops the clients, and a socket bound to
  the given address is listened to by the callback that accepts connections.
\<close>

theorem startup_ready:
  assumes S: "serving cfd rfd r os" and fd: "rfd \<ge> 0" and b: "0 < brk w" and e: "envs w e = Some env"
    and ba: "sockaddrs w (bind_addr env) = Some ba"
  shows "\<exists>w' env' l. signal_init os e w \<bind> (\<lambda>(_, w). listener_init os e w) = Some (0, w') \<and> envs w' e = Some env'
    \<and> handled w' (sigterm_ev env') SIGTERM Terminate_signal_cb e \<and> handled w' (sigint_ev env') SIGINT Terminate_signal_cb e
    \<and> handled w' (sighup_ev env') SIGHUP Dump_client_info_signal_cb e
    \<and> handled w' (sigusr1_ev env') SIGUSR1 Drop_all_clients_signal_cb e
    \<and> listeners w' (listener env') = Some l \<and> listener_fd l = rfd \<and> handled w' (listener_ev l) rfd Listener_cb e
    \<and> {Bind rfd ba (bind_addr_len env), Listen rfd SOMAXCONN} \<subseteq> set (hist w')"
proof -
  have "signal_init os e w = Some (0, after_calls [Event_new (eventBaseLoop env) SIGTERM EV_SIGNAL_PERSIST Terminate_signal_cb e,
        Event_new (eventBaseLoop env) SIGINT EV_SIGNAL_PERSIST Terminate_signal_cb e,
        Event_new (eventBaseLoop env) SIGHUP EV_SIGNAL_PERSIST Dump_client_info_signal_cb e,
        Event_new (eventBaseLoop env) SIGUSR1 EV_SIGNAL_PERSIST Drop_all_clients_signal_cb e,
        Event_add (brk w) None, Event_add (Suc (brk w)) None, Event_add (Suc (Suc (brk w))) None, Event_add (Suc (Suc (Suc (brk w)))) None]
      (w\<lparr>brk := Suc (Suc (Suc (Suc (brk w)))),
         envs := (envs w)(e \<mapsto> env\<lparr>sigterm_ev := brk w, sigint_ev := Suc (brk w), sighup_ev := Suc (Suc (brk w)),
           sigusr1_ev := Suc (Suc (Suc (brk w)))\<rparr>),
         events := (events w)(
           brk w \<mapsto> \<lparr>ev_fd = SIGTERM, ev_flags = EV_SIGNAL_PERSIST, ev_cb = Terminate_signal_cb, ev_arg = e, ev_added = True\<rparr>,
           Suc (brk w) \<mapsto> \<lparr>ev_fd = SIGINT, ev_flags = EV_SIGNAL_PERSIST, ev_cb = Terminate_signal_cb, ev_arg = e, ev_added = True\<rparr>,
           Suc (Suc (brk w)) \<mapsto> \<lparr>ev_fd = SIGHUP, ev_flags = EV_SIGNAL_PERSIST, ev_cb = Dump_client_info_signal_cb, ev_arg = e, ev_added = True\<rparr>,
           Suc (Suc (Suc (brk w))) \<mapsto>
             \<lparr>ev_fd = SIGUSR1, ev_flags = EV_SIGNAL_PERSIST, ev_cb = Drop_all_clients_signal_cb, ev_arg = e, ev_added = True\<rparr>)\<rparr>))"
    using S b e
    by (simp add: signal_init_def on_env_def event_new_def event_add_def alloc_simp serving_alloc serving_ret sys_after_calls Let_def)
  then show ?thesis
    using socket_prepared(1) [OF S fd] S fd b e ba
    by (simp add: listener_init_def listener_init_event_def malloc_listener_def on_listener_def apply_ipv6only_def sys_after_calls serving_ret
        alloc_simp serving_alloc on_env_def event_new_def event_add_def Let_def handled_def)
qed

theorem startup_ready_witness:
  "\<exists>w' env'. signal_init (connect_os 0) 2 connect_world \<bind> (\<lambda>(_, w). listener_init (connect_os 0) 2 w) = Some (0, w')
     \<and> envs w' 2 = Some env' \<and> handled w' (sigusr1_ev env') SIGUSR1 Drop_all_clients_signal_cb 2"
  using startup_ready [OF connect_os_serving [of 0], of connect_world 2 connect_env demo_sockaddr]
  by (auto simp: connect_world_def connect_env_def sample_env_def sample_world_def)

text \<open>
  Without memory for the environment, \<^verbatim>\<open>transocks_global_env_new\<close> reads the fields of the \<^const>\<open>NULL\<close> pointer on its error path,
  although \<^verbatim>\<open>main\<close> is prepared for a result of \<^const>\<open>NULL\<close>.
\<close>

lemma env_new_out_of_memory:
  assumes "envs w NULL = None" and "\<not> os_alloc os (hist w) (Calloc T_global_env)"
  shows "transocks_global_env_new os w = None"
  using assms by (simp add: transocks_global_env_new_def calloc_env_def alloc_simp env_new_fail_def)

end
