(* ===== verification/Spec2Isabelle.thy ===== *)
theory Spec2Isabelle
  imports Examples Log Hash_List List_Iteration Handshake Readiness
begin

text \<open>
  Verification development of transocks-wong, a transparent proxy for Linux: connections that the firewall redirects to a
  local port are accepted, their original destination is asked of the kernel, and the data is carried through a SOCKS5
  server (the relay).

  \<^bold>\<open>The program.\<close> \<^verbatim>\<open>main\<close> (\<^verbatim>\<open>src/src/transocks.c\<close>) reads the options, builds the global environment
  (\<^verbatim>\<open>context.c\<close>), installs four signal handlers (\<^verbatim>\<open>signal.c\<close>), opens the listening socket (\<^verbatim>\<open>listener.c\<close>), selects a pump
  (\<^verbatim>\<open>pump.c\<close>) and runs the event loop of libevent. Each accepted connection becomes a client (\<^verbatim>\<open>context.c\<close>) on a
  circular list (\<^verbatim>\<open>list.h\<close>). \<^verbatim>\<open>socks5.c\<close> connects it to the relay and goes through the handshake, guarded by a timer;
  then one of the two pumps moves the data: \<^verbatim>\<open>bufferpump.c\<close> through libevent's buffers, \<^verbatim>\<open>splicepump.c\<close>
  through kernel pipes. All of them meet in the memory they share and in the callbacks they register.

  \<^bold>\<open>The model.\<close> The memory is one record, \<^typ>\<open>world\<close>: for each kind of object a map from addresses to its contents (environments,
  clients, list heads, listeners, socket addresses, pumps, pipes, events, bufferevents), the next free address, the
  selected pump and the history of the calls made to the system. A function of the program is a function of the same name
  from \<^typ>\<open>world\<close> to \<^typ>\<open>world option\<close> (or a result and a \<^typ>\<open>world\<close>); \<^const>\<open>None\<close> stands for undefined behaviour in
  the sense of C: an access through a null or dangling pointer, a double free. Labels that the code jumps to have definitions of their
  own (\<^const>\<open>connect_relay_freeBev\<close>, \<^const>\<open>splicepump_start_fail\<close>). The system is the record \<^typ>\<open>os\<close>, a parameter of every
  definition: what a call returns is an arbitrary function of the history, so every failure, any data and any order is covered unless
  a hypothesis excludes it. The loops of the list macros are \<^verbatim>\<open>partial_function (option)\<close>: no fuel is needed, \<^const>\<open>None\<close> is also
  the value of a loop that does not end, and the theorems show that they do end. \<^const>\<open>holds\<close> (defined, and the
  result satisfies a predicate) is the total statement, \<^const>\<open>yields\<close> the partial one, used for frame properties only. Counters and flags keep
  their width as words; descriptors and results are integers.

  \<^bold>\<open>The theories.\<close>

  \<^item> \<^verbatim>\<open>Prelude\<close>: option monad, words, collections of lemmas. \<^verbatim>\<open>Platform\<close>: the calls, the constants of the system headers, \<^typ>\<open>os\<close>.
    \<^verbatim>\<open>World\<close>: the structures of \<^verbatim>\<open>context.h\<close> and \<^verbatim>\<open>splicepump.h\<close>, the memory, and the functions of libevent and of the
    allocator as far as the program sees them.

  \<^item> \<^verbatim>\<open>Linux_List\<close>, \<^verbatim>\<open>List_Iteration\<close>, \<^verbatim>\<open>Hash_List\<close>: all of \<^verbatim>\<open>list.h\<close>. A list in memory represents a list of addresses
    (\<^const>\<open>dlist\<close>, \<^const>\<open>hlist\<close>); every operation is defined on a well-formed list and computes its counterpart on lists, every
    loop ends and visits what its name promises, also when its body unlinks entries. The locale \<^verbatim>\<open>intrusive_list\<close> states what
    a client of a list relies on and is interpreted by both kinds.

  \<^item> \<^verbatim>\<open>Util\<close>, \<^verbatim>\<open>Log\<close>: \<^verbatim>\<open>util.h\<close>, \<^verbatim>\<open>util.c\<close>, \<^verbatim>\<open>log.h\<close>, \<^verbatim>\<open>log.c\<close>. Exact effect of the helpers, bounds of the printed
    addresses, validation of addresses, the text of log records.

  \<^item> \<^verbatim>\<open>Context\<close>: \<^const>\<open>transocks_client_new\<close>, \<^const>\<open>transocks_client_free\<close>, \<^const>\<open>transocks_client_set_timeout\<close>. \<^const>\<open>client_ok\<close> is the
    well-formedness of one client; freeing it makes exactly the calls of \<^const>\<open>client_free_calls\<close>.

  \<^item> \<^verbatim>\<open>Bufferpump\<close>: the copying pump. Its callbacks refine an abstract machine on four half-close flags, and a connection whose
    two sides have ended is released. \<^verbatim>\<open>Splicepump\<close>, \<^verbatim>\<open>Splice_Start\<close>: the splicing pump. The counter of each pipe is exact and
    within its capacity, freeing is exact, and the start is followed through every outcome of its calls.

  \<^item> \<^verbatim>\<open>Frame\<close>, \<^verbatim>\<open>Pump\<close>: what an operation on one client leaves alone; the dispatch of \<^verbatim>\<open>pump.c\<close>. The locale
    \<^verbatim>\<open>pump_interface\<close> is the contract of \<^verbatim>\<open>struct transocks_pump_t\<close> and is interpreted by both pumps.

  \<^item> \<^verbatim>\<open>Socks5_Wire\<close>, \<^verbatim>\<open>Socks5\<close>, \<^verbatim>\<open>Handshake\<close>: the packed messages of \<^verbatim>\<open>socks5.h\<close> (locale \<^verbatim>\<open>packed_struct\<close>, interpreted by each) against an
    independent reading of RFC 1928, and every step of the handshake in \<^verbatim>\<open>socks5.c\<close> with its refusals and timeouts.

  \<^item> \<^verbatim>\<open>Listener\<close>, \<^verbatim>\<open>Connecting\<close>: \<^verbatim>\<open>listener.c\<close> and the start of the connection to the relay; what one accepted connection becomes.

  \<^item> \<^verbatim>\<open>Program\<close>, \<^verbatim>\<open>Readiness\<close>: \<^verbatim>\<open>signal.c\<close>, the environment, \<^verbatim>\<open>main\<close>; what the start-up achieves.

  \<^item> \<^verbatim>\<open>Ownership\<close>, \<^verbatim>\<open>Invariant\<close>, \<^verbatim>\<open>Safety\<close>, \<^verbatim>\<open>Construction\<close>, \<^verbatim>\<open>Event_Loop\<close>: the invariant \<^const>\<open>winv\<close> of the running program with the copying
    pump. Every object is owned exactly once, the client list holds exactly the live clients, every registered callback has a live
    argument; every callback is defined in such a state and keeps it, also while a connection is under construction.
    \<^const>\<open>event_loop\<close> runs any sequence of occurrences through the registrations in the memory, \<^const>\<open>turn\<close> is the step relation.

  \<^item> \<^verbatim>\<open>Locality\<close>, \<^verbatim>\<open>Splice_Invariant\<close>, \<^verbatim>\<open>Splice_Safety\<close>, \<^verbatim>\<open>Splice_Entry\<close>, \<^verbatim>\<open>Splice_Loop\<close>: the invariant \<^const>\<open>splice_steady\<close> of the running
    program with the splicing pump. Its memory is that of a program without pumps, to which the pumps, pipes and events of the clients past the
    handshake are adjoined (\<^const>\<open>adjoin\<close>). What a step of the handshake does without them determines what it does in their
    presence; each callback of the pump, its start and the release of its client keep the ownership of the adjoined part (\<^const>\<open>running\<close>).

  \<^item> \<^verbatim>\<open>Startup\<close>, \<^verbatim>\<open>Whole_Program\<close>: from an empty memory through \<^verbatim>\<open>main\<close> to its end, where the memory is empty again.
    \<^verbatim>\<open>Splice_Program\<close>: the same with the splicing pump, where clients that are still in the handshake are left behind.
    \<^verbatim>\<open>Examples\<close>: a concrete system and state to which the properties are applied. This theory: the command line and the
    properties of the whole program.

  \<^bold>\<open>Hypotheses on the environment.\<close> \<^const>\<open>env_reliable\<close> excludes the failures that the code does not survive: no memory for a client
  or its timer, a failing \<^verbatim>\<open>evbuffer_pullup\<close>, an immediate failure of \<^verbatim>\<open>bufferevent_socket_connect\<close>, and an address longer
  than the buffer. That these are real is shown by \<^verbatim>\<open>client_new_out_of_memory\<close> and \<^verbatim>\<open>connect_failure_use_after_free\<close>.
  \<^const>\<open>start_reliable\<close> adds memory for the environment. \<^const>\<open>serving\<close> and \<^const>\<open>splice_served\<close> describe a system that grants what is asked
  for, and are used where a theorem says what is then achieved. The runs with the splicing pump need \<^const>\<open>splice_granted\<close>: a failure while
  a pump is started is not survived (\<^verbatim>\<open>splice_start_failure_use_after_free\<close>). They also need that libevent runs no callback of a
  bufferevent on which nothing is enabled: \<^const>\<open>enabled_loop\<close> is the event loop with this restriction, while \<^const>\<open>event_loop\<close> has none.

  \<^bold>\<open>Not modelled.\<close> \<^verbatim>\<open>mem-allocator.h\<close> only renames the allocator's functions. The \<^verbatim>\<open>LOG\<close> macros inside the functions write to
  the standard error and leave no trace in the history. Descriptors are numbers: that a number is closed twice is visible in the history
  (\<^verbatim>\<open>splice_eof_double_close\<close>), but it is not undefined behaviour. An entry and its \<^verbatim>\<open>list_head\<close> share one address, so \<^verbatim>\<open>container_of\<close> is the
  identity. The content that the pumps move is in libevent and in the kernel; the model has the calls that move it and the
  counters. \<^verbatim>\<open>getopt_long\<close> and \<^verbatim>\<open>evutil_parse_sockaddr_port\<close> are parameters.
\<close>

subsection \<open>The command line\<close>

text \<open>The argument of the last occurrence of an option, or the default if there is none.\<close>

definition last_argument :: "getopt_val \<Rightarrow> (getopt_val \<times> string option) list \<Rightarrow> string option \<Rightarrow> string option" where
  "last_argument k opts d = last (d # map snd (filter (\<lambda>opt. fst opt = k) opts))"

lemma parse_options_last:
  "parse_options opts (l, s, m) =
     (if {GETOPT_VAL_HELP, Getopt_unknown} \<inter> fst ` set opts = {}
      then Some (last_argument GETOPT_VAL_LISTENERADDRPORT opts l, last_argument GETOPT_VAL_SOCKS5ADDRPORT opts s,
        last_argument GETOPT_VAL_PUMPMETHOD opts m)
      else None)"
proof (induction opts arbitrary: l s m)
  case (Cons opt opts)
  obtain k a where "opt = (k, a)" by (cases opt)
  with Cons show ?case by (cases k) (auto simp: last_argument_def)
qed (simp add: last_argument_def)

lemma main_run_status:
  "main_run os dispatch l s m w = Some (st, w') \<Longrightarrow> st = Return_0"
  by (auto simp: main_run_def main_shutdown_def Let_def Prelude.bind_Some_iff split: if_splits prod.splits)


subsection \<open>The whole program\<close>





subsection \<open>The event loop\<close>









text \<open>
  C7: With the splicing pump, dropping all clients releases exactly the clients that have a pump: those that are still in the
  handshake stay as they were.
\<close>

theorem splice_drop_all_keeps_handshakes:
  assumes "splice_steady e env w"
  shows "\<exists>w'. transocks_drop_all_clients os e w = Some w' \<and> splice_steady e env w'
    \<and> (\<forall>p. clients w' p = (case clients w p of None \<Rightarrow> None | Some c \<Rightarrow> if user_arg c = NULL then Some c else None))"
  using splice_drop_all_outcome [OF assms, of os] by (auto simp: holds_def)

theorem splice_drop_all_keeps_handshakes_witness:
  "(\<exists>w'. transocks_drop_all_clients demo_os 1 demo_splice_world = Some w' \<and> clients w' 12 = Some demo_client)
   \<and> (\<exists>w w'. clients w 12 \<noteq> None \<and> transocks_drop_all_clients demo_os 1 w = Some w' \<and> clients w' 12 = None)"
proof
  have "clients demo_splice_world 12 = Some demo_client" "user_arg demo_client = NULL"
    by (simp_all add: demo_splice_world_def demo_world_def demo_client_def)
  with splice_drop_all_keeps_handshakes [OF demo_splice_steady, of demo_os]
  show "\<exists>w'. transocks_drop_all_clients demo_os 1 demo_splice_world = Some w' \<and> clients w' 12 = Some demo_client" by force
  obtain w c where w: "splice_steady 1 demo_env w" "clients w 12 = Some c" "user_arg c \<noteq> NULL" using demo_pumping by blast
  with splice_drop_all_keeps_handshakes [OF w(1), of demo_os]
  show "\<exists>w w'. clients w 12 \<noteq> None \<and> transocks_drop_all_clients demo_os 1 w = Some w' \<and> clients w' 12 = None" by force
qed

end
